(* ===== verification/Release_Versions.thy ===== *)
theory Release_Versions
  imports Prelude "HOL-Library.Option_ord"
begin

text \<open>
  \<^verbatim>\<open>app/services/release_versions.py\<close>: release tags and their channels, the release
  metadata file, and the comparison of semantic versions that decides whether an update is offered.
  The regular expressions are written out as recognisers over the characters they match.
\<close>

section \<open>Data\<close>

datatype version_error =
    InvalidReleaseTag
  | InvalidBranch
  | MetadataTooLong
  | MetadataNotUtf8
  | MetadataMalformed
  | MetadataMismatch

text \<open>The channel table \<open>CHANNEL_BRANCHES\<close>, in the order of the dict.\<close>

definition channel_branches :: "(string \<times> string) list" where
  "channel_branches = [(''dev'', ''dev''), (''beta'', ''beta''), (''stable'', ''main'')]"

text \<open>One element of a prerelease key: \<open>(0, int)\<close>, \<open>(1, str)\<close>, or the \<open>(2, 0)\<close> that
  stands for a release without a prerelease part.\<close>

datatype pre_part = Numeric int | Textual string | Stable

text \<open>The tuples compare by their first component and then by their second.\<close>

instantiation pre_part :: linorder
begin

fun less_eq_pre_part :: "pre_part \<Rightarrow> pre_part \<Rightarrow> bool" where
  "less_eq_pre_part (Numeric a) (Numeric b) = (a \<le> b)"
| "less_eq_pre_part (Numeric a) q = True"
| "less_eq_pre_part (Textual s) (Numeric b) = False"
| "less_eq_pre_part (Textual s) (Textual t) = (s \<le> t)"
| "less_eq_pre_part (Textual s) Stable = True"
| "less_eq_pre_part Stable Stable = True"
| "less_eq_pre_part Stable q = False"

definition less_pre_part :: "pre_part \<Rightarrow> pre_part \<Rightarrow> bool" where
  "less_pre_part p q = (p \<le> q \<and> \<not> q \<le> p)"

instance
proof
  fix x y z :: pre_part
  show "(x < y) = (x \<le> y \<and> \<not> y \<le> x)" by (simp add: less_pre_part_def)
  show "x \<le> x" by (cases x) auto
  show "x \<le> y \<Longrightarrow> y \<le> z \<Longrightarrow> x \<le> z" by (cases x; cases y; cases z) auto
  show "x \<le> y \<Longrightarrow> y \<le> x \<Longrightarrow> x = y" by (cases x; cases y) auto
  show "x \<le> y \<or> y \<le> x" by (cases x; cases y) auto
qed

end

section \<open>Operations\<close>

text \<open>\<open>0|[1-9][0-9]*\<close> over a whole field.\<close>

definition canonical_number :: "string \<Rightarrow> bool" where
  "canonical_number s = (s \<noteq> [] \<and> list_all ascii_digit s \<and> (s = ''0'' \<or> hd s \<noteq> CHR ''0''))"

text \<open>The base \<open>X.Y.Z\<close> of a version.\<close>

definition parse_base :: "string \<Rightarrow> (int \<times> int \<times> int) option" where
  "parse_base s = (case split_on CHR ''.'' s of
     [a, b, c] \<Rightarrow> if canonical_number a \<and> canonical_number b \<and> canonical_number c
                  then Some (int_of_digits a, int_of_digits b, int_of_digits c) else None
   | _ \<Rightarrow> None)"

text \<open>The stage group of \<open>_RELEASE_TAG_RE\<close>: \<open>None\<close> for no match, \<open>Some None\<close> for a tag
  without a prerelease, \<open>Some (Some stage)\<close> otherwise.\<close>

definition tag_stage :: "string \<Rightarrow> string option option" where
  "tag_stage tag = (case tag of
     [] \<Rightarrow> None
   | v # rest \<Rightarrow>
       if v \<noteq> CHR ''v'' then None
       else case partition_at CHR ''-'' rest of
         (base, None) \<Rightarrow> (if parse_base base = None then None else Some None)
       | (base, Some pre) \<Rightarrow>
           (case split_on CHR ''.'' pre of
              [stage, n] \<Rightarrow>
                if parse_base base \<noteq> None \<and> stage \<in> {''alpha'', ''beta'', ''rc''} \<and> canonical_number n
                then Some (Some stage) else None
            | _ \<Rightarrow> None))"

definition release_channel :: "string \<Rightarrow> (version_error, string) result" where
  "release_channel tag = (case tag_stage tag of
     None \<Rightarrow> Inl InvalidReleaseTag
   | Some stage \<Rightarrow> Inr (if stage = Some ''alpha'' then ''dev''
                        else if stage = Some ''beta'' \<or> stage = Some ''rc'' then ''beta''
                        else ''stable''))"

definition branch_channel :: "string \<Rightarrow> (version_error, string) result" where
  "branch_channel branch = (case find (\<lambda>(channel, candidate). branch = candidate) channel_branches of
     Some (channel, _) \<Rightarrow> Inr channel
   | None \<Rightarrow> Inl InvalidBranch)"

text \<open>The loop over the metadata lines: \<open>key=value\<close> with a non-empty key not seen before.\<close>

definition metadata_line :: "string \<Rightarrow> (string \<times> string) list
    \<Rightarrow> (version_error, (string \<times> string) list) result" where
  "metadata_line line fields = (case partition_at CHR ''='' line of
     (key, None) \<Rightarrow> Inl MetadataMalformed
   | (key, Some value) \<Rightarrow>
       if key = [] \<or> key \<in> fst ` set fields then Inl MetadataMalformed
       else Inr (fields @ [(key, value)]))"

definition commit_hash :: "string \<Rightarrow> bool" where
  "commit_hash s = (length s = 40 \<and> list_all lower_hex_digit s)"

text \<open>\<open>data.decode("utf-8")\<close> is the parameter \<open>decode\<close>: \<open>None\<close> is a \<open>UnicodeDecodeError\<close>.\<close>

definition parse_release_metadata ::
  "(string \<Rightarrow> string option) \<Rightarrow> string \<Rightarrow> string \<Rightarrow> string \<Rightarrow> string option
     \<Rightarrow> (version_error, (string \<times> string) list) result" where
  "parse_release_metadata decode data tag channel commit =
     (if length data > 4096 then Inl MetadataTooLong
      else case decode data of
        None \<Rightarrow> Inl MetadataNotUtf8
      | Some text \<Rightarrow>
          res_bind (res_fold metadata_line (splitlines text) []) (\<lambda>fields.
            let get = map_of fields in
            if get ''format'' \<noteq> Some ''2'' \<or> get ''tag'' \<noteq> Some tag
               \<or> get ''version'' \<noteq> Some (remove_prefix ''v'' tag) \<or> get ''channel'' \<noteq> Some channel
            then Inl MetadataMismatch
            else res_bind (release_channel tag) (\<lambda>lane.
              if lane \<noteq> channel
                 \<or> \<not> commit_hash (case get ''commit'' of None \<Rightarrow> [] | Some c \<Rightarrow> c)
                 \<or> (commit \<noteq> None \<and> get ''commit'' \<noteq> commit)
              then Inl MetadataMismatch
              else Inr fields)))"

text \<open>\<open>_SEMVER_RE\<close>: the base, and the prerelease text after the first hyphen when there is one.
  The base has no hyphen, so the first hyphen separates the two.\<close>

definition pre_char :: "char \<Rightarrow> bool" where
  "pre_char c = (ascii_digit c \<or> ascii_alpha c \<or> c = CHR ''.'' \<or> c = CHR ''-'')"

definition pre_part_ok :: "string \<Rightarrow> bool" where
  "pre_part_ok p = (p \<noteq> [] \<and> \<not> (list_all ascii_digit p \<and> 1 < length p \<and> hd p = CHR ''0''))"

definition pre_part_key :: "string \<Rightarrow> pre_part" where
  "pre_part_key p = (if p \<noteq> [] \<and> list_all ascii_digit p then Numeric (int_of_digits p) else Textual p)"

type_synonym semver_key = "int \<times> int \<times> int \<times> pre_part list"

text \<open>The parsed version without its last component, the raw text, which no comparison reads.\<close>

definition parse_semver :: "string \<Rightarrow> semver_key option" where
  "parse_semver value = (let raw = strip value in
     case partition_at CHR ''-'' raw of
       (base, None) \<Rightarrow>
         (case parse_base base of None \<Rightarrow> None | Some (a, b, c) \<Rightarrow> Some (a, b, c, [Stable]))
     | (base, Some pre) \<Rightarrow>
         (case parse_base base of
            None \<Rightarrow> None
          | Some (a, b, c) \<Rightarrow>
              if pre = [] \<or> \<not> list_all pre_char pre then None
              else let parts = split_on CHR ''.'' pre in
                if list_all pre_part_ok parts then Some (a, b, c, map pre_part_key parts) else None))"

definition compare_versions :: "string \<Rightarrow> string \<Rightarrow> int" where
  "compare_versions left right = (case (parse_semver left, parse_semver right) of
     (None, None) \<Rightarrow> 0
   | (None, Some _) \<Rightarrow> - 1
   | (Some _, None) \<Rightarrow> 1
   | (Some l, Some r) \<Rightarrow> if l < r then - 1 else if l > r then 1 else 0)"


text \<open>\<^verbatim>\<open>get_version_transition\<close> of \<^verbatim>\<open>app/services/updates.py\<close>: what may be done about a
  target version. The dict's missing \<open>requires_confirm\<close> reads as false.\<close>

datatype transition_action = Blocked | Current | Upgrade | Downgrade

record transition =
  allowed :: bool
  action :: transition_action
  reason :: string
  requires_confirm :: bool

definition get_version_transition :: "string \<Rightarrow> string \<Rightarrow> transition" where
  "get_version_transition current target = (case (parse_semver current, parse_semver target) of
     (Some (cmajor, cminor, _), Some (tmajor, tminor, _)) \<Rightarrow>
       let cmp = compare_versions current target in
       if cmp = 0 then \<lparr>allowed = False, action = Current, reason = ''current'', requires_confirm = False\<rparr>
       else if cmp < 0 then
         \<lparr>allowed = True, action = Upgrade,
          reason = (if cmajor \<noteq> tmajor then ''major_upgrade'' else ''upgrade''),
          requires_confirm = (cmajor \<noteq> tmajor)\<rparr>
       else if cmajor \<noteq> tmajor then
         \<lparr>allowed = False, action = Blocked, reason = ''major_downgrade_blocked'', requires_confirm = False\<rparr>
       else if cmajor = 0 \<and> cminor \<noteq> tminor then
         \<lparr>allowed = False, action = Blocked, reason = ''pre1_minor_downgrade_blocked'', requires_confirm = False\<rparr>
       else \<lparr>allowed = True, action = Downgrade, reason = ''downgrade'', requires_confirm = False\<rparr>
   | _ \<Rightarrow> \<lparr>allowed = False, action = Blocked, reason = ''unrecognized_version'', requires_confirm = False\<rparr>)"

section \<open>Three-way comparisons\<close>

text \<open>What the callers of a comparison rely on: the sign conventions, that swapping the
  arguments swaps the sign, and transitivity.\<close>

locale three_way =
  fixes cmp :: "'a \<Rightarrow> 'a \<Rightarrow> int"
  assumes cmp_range: "cmp x y = - 1 \<or> cmp x y = 0 \<or> cmp x y = 1"
    and cmp_swap: "cmp y x = - cmp x y"
    and cmp_trans: "cmp x y \<le> 0 \<Longrightarrow> cmp y z \<le> 0 \<Longrightarrow> cmp x z \<le> 0"
begin

lemma cmp_refl: "cmp x x = 0"
  using cmp_swap [of x x] by simp

lemma cmp_total: "cmp x y \<le> 0 \<or> cmp y x \<le> 0"
  using cmp_swap [of y x] by linarith

lemma cmp_eq_trans: "cmp x y = 0 \<Longrightarrow> cmp y z = 0 \<Longrightarrow> cmp x z = 0"
  using cmp_trans [of x y z] cmp_trans [of z y x] cmp_swap [of x y] cmp_swap [of y z] cmp_swap [of x z]
  by linarith

lemma cmp_less_trans: "cmp x y < 0 \<Longrightarrow> cmp y z \<le> 0 \<Longrightarrow> cmp x z < 0"
  using cmp_trans [of x y z] cmp_trans [of y z x] cmp_swap [of x y] cmp_swap [of x z] by linarith

text \<open>Versions that compare as equal are interchangeable in every comparison.\<close>

lemma cmp_cong: "cmp x y = 0 \<Longrightarrow> cmp x z = cmp y z"
proof -
  assume eq: "cmp x y = 0"
  then have eq': "cmp y x = 0" using cmp_swap [of y x] by simp
  have "cmp x z \<le> 0 \<longleftrightarrow> cmp y z \<le> 0"
    using cmp_trans [of x y z] cmp_trans [of y x z] eq eq' by auto
  moreover have "cmp z x \<le> 0 \<longleftrightarrow> cmp z y \<le> 0"
    using cmp_trans [of z x y] cmp_trans [of z y x] eq eq' by auto
  ultimately show ?thesis
    using cmp_range [of x z] cmp_range [of y z] cmp_swap [of x z] cmp_swap [of y z] by auto
qed

end

lemma compare_versions_key:
  "compare_versions l r =
     (if parse_semver l < parse_semver r then - 1 else if parse_semver l > parse_semver r then 1 else 0)"
  by (auto simp: compare_versions_def split: option.splits)

lemma compare_versions_le: "compare_versions l r \<le> 0 \<longleftrightarrow> parse_semver l \<le> parse_semver r"
  by (auto simp: compare_versions_key not_less)

interpretation versions: three_way compare_versions
proof unfold_locales
  fix x y z
  show "compare_versions x y = - 1 \<or> compare_versions x y = 0 \<or> compare_versions x y = 1"
    by (simp add: compare_versions_key)
  show "compare_versions y x = - compare_versions x y"
    by (auto simp: compare_versions_key dest: less_asym)
  assume "compare_versions x y \<le> 0" "compare_versions y z \<le> 0"
  then show "compare_versions x z \<le> 0"
    unfolding compare_versions_le by (rule order_trans)
qed

section \<open>Properties of versions\<close>

text \<open>The version comparison is a total preorder: swapping the arguments negates the
  result, "not newer" is transitive, two versions are always comparable, and versions that compare
  as equal behave the same against every third version.\<close>

theorem compare_versions_preorder:
  "compare_versions b a = - compare_versions a b
   \<and> (compare_versions a b \<le> 0 \<or> compare_versions b a \<le> 0)
   \<and> (compare_versions a b \<le> 0 \<longrightarrow> compare_versions b c \<le> 0 \<longrightarrow> compare_versions a c \<le> 0)
   \<and> (compare_versions a b = 0 \<longrightarrow> compare_versions a c = compare_versions b c)"
  using versions.cmp_swap versions.cmp_total versions.cmp_trans versions.cmp_cong by blast


theorem compare_versions_preorder_witness:
  "compare_versions ''1.0.0-rc.1'' ''1.0.0'' \<le> 0 \<and> compare_versions ''1.0.0'' ''1.0.1'' \<le> 0
   \<and> compare_versions ''1.0.0-rc.1'' ''1.0.1'' \<le> 0"
proof -
  have "compare_versions ''1.0.0-rc.1'' ''1.0.0'' \<le> 0" and "compare_versions ''1.0.0'' ''1.0.1'' \<le> 0"
    by code_simp+
  then show ?thesis
    using compare_versions_preorder [of "''1.0.0''" "''1.0.0-rc.1''" "''1.0.1''"] by blast
qed

lemma parse_semver_pre_less_stable:
  assumes "parse_semver p = Some (a, b, c, q)" and "q \<noteq> [Stable]"
  shows "(a, b, c, q) < (a, b, c, [Stable])"
proof -
  from assms obtain pre where "q = map pre_part_key (split_on CHR ''.'' pre)"
    by (auto simp: parse_semver_def Let_def split: option.splits prod.splits if_splits)
  moreover have "split_on CHR ''.'' pre \<noteq> []"
    by (cases pre) (auto split: list.splits)
  ultimately obtain x xs where q: "q = pre_part_key x # xs"
    by (cases "split_on CHR ''.'' pre") auto
  have "pre_part_key x < Stable"
    by (simp add: pre_part_key_def less_pre_part_def)
  with q show ?thesis by simp
qed

text \<open>A release sorts after every prerelease of the same base version, and a version with a
  greater base sorts after both.\<close>

theorem prerelease_before_release:
  assumes "parse_semver p = Some (a, b, c, q)" and "q \<noteq> [Stable]"
    and "parse_semver r = Some (a, b, c, [Stable])"
  shows "compare_versions p r = - 1
    \<and> (\<forall>n k. parse_semver n = Some k \<longrightarrow> (a, b, c, [Stable]) < k \<longrightarrow> compare_versions p n = - 1)"
proof -
  have "(a, b, c, q) < (a, b, c, [Stable])"
    using assms(1,2) by (rule parse_semver_pre_less_stable)
  with assms show ?thesis by (auto simp: compare_versions_def)
qed

theorem prerelease_before_release_witness:
  "parse_semver ''0.5.0-beta.2'' = Some (0, 5, 0, [Textual ''beta'', Numeric 2])
   \<and> parse_semver ''0.5.0'' = Some (0, 5, 0, [Stable])
   \<and> compare_versions ''0.5.0-beta.2'' ''0.5.0'' = - 1"
proof -
  have p: "parse_semver ''0.5.0-beta.2'' = Some (0, 5, 0, [Textual ''beta'', Numeric 2])"
    and r: "parse_semver ''0.5.0'' = Some (0, 5, 0, [Stable])"
    by code_simp+
  then show ?thesis using prerelease_before_release [OF p _ r] by simp
qed

text \<open>The offered transition follows the comparison: an upgrade is allowed exactly to strictly
  newer versions, and asks for confirmation exactly when the major version changes; a downgrade is
  only allowed within a major version, and before 1.0 only within a minor one.\<close>

theorem get_version_transition_sound:
  assumes "parse_semver cur = Some (ca, cb, cc)" and "parse_semver tgt = Some (ta, tb, tc)"
  defines "t \<equiv> get_version_transition cur tgt"
  shows "(action t = Upgrade \<longleftrightarrow> compare_versions cur tgt = - 1)
    \<and> (requires_confirm t \<longleftrightarrow> action t = Upgrade \<and> ca \<noteq> ta)
    \<and> (action t = Downgrade \<longleftrightarrow> compare_versions cur tgt = 1 \<and> ca = ta \<and> (ca = 0 \<longrightarrow> cb = tb))
    \<and> (allowed t \<longleftrightarrow> action t \<in> {Upgrade, Downgrade})"
  using versions.cmp_range [of cur tgt] assms
  by (auto simp: get_version_transition_def Let_def)

theorem get_version_transition_sound_witness:
  "action (get_version_transition ''0.5.0-beta.2'' ''1.0.0'') = Upgrade
   \<and> requires_confirm (get_version_transition ''0.5.0-beta.2'' ''1.0.0'')"
proof -
  have p: "parse_semver ''0.5.0-beta.2'' = Some (0, 5, 0, [Textual ''beta'', Numeric 2])"
    and r: "parse_semver ''1.0.0'' = Some (1, 0, 0, [Stable])"
    by code_simp+
  moreover have "compare_versions ''0.5.0-beta.2'' ''1.0.0'' = - 1"
    using p r by (simp add: compare_versions_def)
  ultimately show ?thesis using get_version_transition_sound [OF p r] by auto
qed

lemma canonical_number_no_space: "canonical_number s \<Longrightarrow> list_all (\<lambda>c. \<not> py_space c) s"
  by (auto simp: canonical_number_def list_all_iff ascii_digit_def py_space_def Let_def)

lemma parse_base_no_space: "parse_base s \<noteq> None \<Longrightarrow> list_all (\<lambda>c. \<not> py_space c) s"
proof -
  assume "parse_base s \<noteq> None"
  then obtain a b c where "split_on CHR ''.'' s = [a, b, c]"
    and "canonical_number a" "canonical_number b" "canonical_number c"
    by (auto simp: parse_base_def split: list.splits if_splits)
  moreover have "\<not> py_space CHR ''.''" by (simp add: py_space_def)
  ultimately show ?thesis
    using set_split_on [of s "CHR ''.''"] by (auto simp: list_all_iff dest!: canonical_number_no_space)
qed

lemma tag_stageD:
  assumes "tag_stage tag = Some st"
  obtains base where "parse_base base \<noteq> None" and "st = None" and "tag = CHR ''v'' # base"
      and "CHR ''-'' \<notin> set base"
  | base stage n where "parse_base base \<noteq> None" and "st = Some stage"
      and "stage \<in> {''alpha'', ''beta'', ''rc''}" and "canonical_number n"
      and "tag = CHR ''v'' # base @ CHR ''-'' # stage @ CHR ''.'' # n" and "CHR ''-'' \<notin> set base"
proof -
  from assms obtain rest where tag: "tag = CHR ''v'' # rest"
    by (auto simp: tag_stage_def split: list.splits if_splits)
  obtain base q where part: "partition_at CHR ''-'' rest = (base, q)" by (cases "partition_at CHR ''-'' rest")
  show ?thesis
  proof (cases q)
    case None
    with part have "CHR ''-'' \<notin> set rest" using partition_at_None_iff [of "CHR ''-''" rest] by simp
    moreover from this part None have "base = rest"
      by (metis fst_conv partition_at_no_sep)
    ultimately show ?thesis using that(1) [of base] assms tag part None
      by (auto simp: tag_stage_def split: if_splits)
  next
    case (Some pre)
    then have rest: "rest = base @ CHR ''-'' # pre" "CHR ''-'' \<notin> set base"
      using part partition_at_Some by blast+
    from assms tag part Some obtain stage n where "split_on CHR ''.'' pre = [stage, n]"
      and facts: "parse_base base \<noteq> None" "stage \<in> {''alpha'', ''beta'', ''rc''}" "canonical_number n" "st = Some stage"
      by (auto simp: tag_stage_def split: list.splits if_splits)
    then have "pre = stage @ CHR ''.'' # n" by (metis split_on_two)
    with that(2) facts rest tag show ?thesis by blast
  qed
qed

lemma pre_char_stage: "stage \<in> {''alpha'', ''beta'', ''rc''} \<Longrightarrow> list_all pre_char stage \<and> CHR ''.'' \<notin> set stage
    \<and> pre_part_ok stage \<and> pre_part_key stage = Textual stage"
  by (auto simp: pre_char_def pre_part_ok_def pre_part_key_def ascii_alpha_def ascii_lower_def ascii_digit_def)

lemma canonical_number_pre: "canonical_number n \<Longrightarrow> list_all pre_char n \<and> CHR ''.'' \<notin> set n
    \<and> pre_part_ok n \<and> pre_part_key n = Numeric (int_of_digits n)"
  by (auto simp: canonical_number_def pre_char_def pre_part_ok_def pre_part_key_def list_all_iff ascii_digit_def)

text \<open>Every accepted release tag is a parseable version, and its channel is read off the
  version's prerelease part: no prerelease is stable, alpha is dev, beta and rc are beta.\<close>

theorem release_channel_of_version:
  assumes "release_channel tag = Inr ch"
  shows "\<exists>a b c q. parse_semver (remove_prefix ''v'' tag) = Some (a, b, c, q)
    \<and> (ch = ''stable'' \<longleftrightarrow> q = [Stable])
    \<and> (ch = ''dev'' \<longleftrightarrow> (\<exists>n. q = [Textual ''alpha'', Numeric n]))
    \<and> (ch = ''beta'' \<longleftrightarrow> (\<exists>n. q = [Textual ''beta'', Numeric n] \<or> q = [Textual ''rc'', Numeric n]))"
proof -
  from assms obtain st where st: "tag_stage tag = Some st"
    and ch: "ch = (if st = Some ''alpha'' then ''dev''
      else if st = Some ''beta'' \<or> st = Some ''rc'' then ''beta'' else ''stable'')"
    by (auto simp: release_channel_def split: option.splits)
  from st show ?thesis
  proof (cases rule: tag_stageD)
    case (1 base)
    have "strip base = base" using 1(1) by (intro strip_no_space parse_base_no_space)
    with 1 ch show ?thesis
      by (auto simp: parse_semver_def remove_prefix_def partition_at_no_sep Let_def)
  next
    case (2 base stage n)
    let ?pre = "stage @ CHR ''.'' # n" and ?raw = "base @ CHR ''-'' # stage @ CHR ''.'' # n"
    note stage = pre_char_stage [OF 2(3)] and num = canonical_number_pre [OF 2(4)]
    have "list_all (\<lambda>c. \<not> py_space c) ?raw"
      using parse_base_no_space [OF 2(1)] canonical_number_no_space [OF 2(4)] 2(3)
      by (auto simp: py_space_def)
    then have "strip ?raw = ?raw" by (rule strip_no_space)
    moreover have "partition_at CHR ''-'' ?raw = (base, Some ?pre)"
      using 2(6) by (rule partition_at_append)
    moreover have "split_on CHR ''.'' ?pre = [stage, n]"
      using stage num by (simp add: split_on_append split_on_no_sep)
    moreover have "list_all pre_char ?pre" using stage num by (simp add: pre_char_def)
    ultimately show ?thesis
      using 2 ch stage num by (auto simp: parse_semver_def remove_prefix_def Let_def)
  qed
qed

theorem release_channel_of_version_witness:
  "release_channel ''v0.5.0-beta.2'' = Inr ''beta''
   \<and> (\<exists>a b c n. parse_semver ''0.5.0-beta.2'' = Some (a, b, c, [Textual ''beta'', Numeric n])
        \<or> parse_semver ''0.5.0-beta.2'' = Some (a, b, c, [Textual ''rc'', Numeric n]))"
proof -
  have ch: "release_channel ''v0.5.0-beta.2'' = Inr ''beta''" by code_simp
  have "remove_prefix ''v'' ''v0.5.0-beta.2'' = ''0.5.0-beta.2''" by (simp add: remove_prefix_def)
  with ch release_channel_of_version [OF ch] show ?thesis by auto
qed

text \<open>Release metadata is accepted for one channel at most, for the tag and the pinned commit
  it names, and its fields have distinct keys.\<close>

theorem parse_release_metadata_isolated:
  assumes "parse_release_metadata decode data tag ch commit = Inr fs"
  shows "release_channel tag = Inr ch \<and> map_of fs ''tag'' = Some tag
    \<and> map_of fs ''channel'' = Some ch
    \<and> (\<forall>c. commit = Some c \<longrightarrow> map_of fs ''commit'' = Some c \<and> commit_hash c)
    \<and> distinct (map fst fs) \<and> length data \<le> 4096
    \<and> (\<forall>ch' f. parse_release_metadata decode data tag ch' commit = Inr f \<longrightarrow> ch' = ch)"
proof -
  have step: "distinct (map fst t)" if "distinct (map fst s)" "metadata_line x s = Inr t" for x s t
    using that by (auto simp: metadata_line_def split: prod.splits option.splits if_splits)
  have "distinct (map fst fs)"
    if "res_fold metadata_line ls [] = Inr fs" for ls
    by (rule res_fold_invariant [where P = "\<lambda>s. distinct (map fst s)", OF that]) (auto intro: step)
  with assms show ?thesis
    by (auto simp: parse_release_metadata_def res_bind_Inr_iff Let_def split: if_splits option.splits)
qed


definition sample_metadata :: string where
  "sample_metadata = ''format=2'' @ [CHR 0x0A] @ ''tag=v1.2.3'' @ [CHR 0x0A] @ ''version=1.2.3'' @ [CHR 0x0A]
     @ ''channel=stable'' @ [CHR 0x0A] @ ''commit='' @ replicate 40 (CHR ''a'') @ [CHR 0x0A]"

theorem parse_release_metadata_isolated_witness:
  "is_ok (parse_release_metadata Some sample_metadata ''v1.2.3'' ''stable'' (Some (replicate 40 (CHR ''a''))))
   \<and> release_channel ''v1.2.3'' = Inr ''stable''"
proof -
  have "is_ok (parse_release_metadata Some sample_metadata ''v1.2.3'' ''stable'' (Some (replicate 40 (CHR ''a''))))"
    by code_simp
  then show ?thesis
    using parse_release_metadata_isolated [of Some sample_metadata "''v1.2.3''" "''stable''"
      "Some (replicate 40 (CHR ''a''))"] by (auto simp: is_ok_iff)
qed

end
