(* ===== verification/Schema.thy ===== *)
theory Schema
  imports Prelude
begin

text \<open>
  The controller's database as the modelled services see it: one record per row, one list per
  table, and the errors the services raise. A transaction is a function from the database to a
  result; a raise is \<^const>\<open>Inl\<close> and carries no database, which is the rollback of
  \<^verbatim>\<open>PostgresDB.connect\<close>.

  Timestamps are stored as the ISO texts of aware UTC instants and always read back with
  \<^verbatim>\<open>datetime.fromisoformat\<close>; they are the instants themselves here, as microseconds since the
  epoch. JSON columns hold the values they encode. Columns no modelled operation reads are left out.
  Random identifiers come from the stream \<open>rng\<close> of the database record, of which \<open>drawn\<close> have
  been used.
\<close>

section \<open>Values and errors\<close>

type_synonym instant = int

definition second :: int where "second = 1000000"
definition minute :: int where "minute = 60 * second"
definition day :: int where "day = 24 * 60 * minute"

text \<open>\<open>datetime.max\<close>, the end of the year 9999.\<close>

definition MAX_INSTANT :: int where "MAX_INSTANT = 253402300799999999"

text \<open>JSON values as Python holds them.\<close>

datatype pyval =
    PNone
  | PBool bool
  | PInt int
  | PStr string
  | PList "pyval list"
  | PDict "(string \<times> pyval) list"

text \<open>\<^verbatim>\<open>AccessDenied(code, status)\<close> of the services, and the exceptions of the language.\<close>

datatype error =
    AccessDenied string int
  | ValueError string
  | KeyError string
  | TypeError
  | OverflowError
  | StopIteration
  | IntegrityError

type_synonym 'a tx = "(error, 'a) result"

datatype protocol = Awg | Xray

section \<open>Rows\<close>

record account_row =
  acc_id :: string
  acc_role :: string
  acc_status :: string
  acc_revision :: int
  acc_display_name :: "string option"

record role_assignment_row =
  ra_account :: string
  ra_role :: string
  ra_scope_kind :: string
  ra_scope_id :: string

record profile_row =
  pf_id :: string
  pf_runtime_name :: string
  pf_display_name :: string
  pf_owner :: "string option"
  pf_frozen :: bool
  pf_expires_at :: "instant option"
  pf_created_at :: "instant option"
  pf_desired_revision :: int

datatype device_status = DevActive | DevDeleting | DevRetired

record device_row =
  dv_id :: string
  dv_profile :: string
  dv_display_name :: string
  dv_runtime_name :: string
  dv_status :: device_status
  dv_revision :: int
  dv_created_at :: instant

text \<open>\<open>dc_uuid\<close> is the \<open>uuid\<close> of \<open>credential_json\<close>.\<close>

record device_credential_row =
  dc_device :: string
  dc_profile :: string
  dc_protocol :: protocol
  dc_runtime_name :: string
  dc_uuid :: string
  dc_revision :: int

record retired_peer_row =
  rp_slot :: string
  rp_device :: string
  rp_profile :: string
  rp_protocol :: protocol
  rp_runtime_name :: string

record node_row =
  nd_key :: string
  nd_title :: string
  nd_enabled :: bool
  nd_protocols :: "protocol list"
  nd_desired_revision :: int
  nd_applied_revision :: int

record grant_row =
  gr_profile :: string
  gr_node :: string
  gr_protocol :: protocol

datatype op_status = NoTargets | Awaiting | Running | Succeeded | OpBlocked | Superseded

datatype task_action = Ensure | Delete

record operation_row =
  op_id :: string
  op_profile :: string
  op_actor :: string
  op_desired_revision :: int
  op_status :: op_status
  op_created_at :: instant

text \<open>The intent a task carries to the agent; \<open>in_xray\<close> is its \<open>xray\<close> member.\<close>

record intent =
  in_profile :: string
  in_runtime_name :: string
  in_desired_revision :: int
  in_node :: string
  in_protocol :: protocol
  in_action :: task_action
  in_expires_at :: "instant option"
  in_xray :: "(string \<times> string) option"

record task_row =
  tk_id :: string
  tk_operation :: string
  tk_node :: string
  tk_protocol :: protocol
  tk_device :: string
  tk_action :: task_action
  tk_status :: op_status
  tk_intent :: intent

record identity_row =
  pi_profile :: string
  pi_xray_uuid :: string
  pi_xray_short_id :: string

datatype subject_kind = Installation | ProfileSubject | DeviceSubject

record policy_row =
  vp_id :: string
  vp_subject :: subject_kind
  vp_profile :: "string option"
  vp_device :: "string option"
  vp_node :: "string option"
  vp_protocol :: "protocol option"
  vp_key :: string
  vp_value :: pyval
  vp_revision :: int
  vp_updated_at :: instant

text \<open>What the policy endpoints return for a subject: each key it may set globally, with its own value,
  its default, the value it resolves to and, for a profile, the tariff's value; and the subject's rows.\<close>

record key_view =
  kv_key :: string
  kv_value :: pyval
  kv_revision :: int
  kv_default :: pyval
  kv_effective :: pyval
  kv_tariff :: "pyval option"

record policy_view =
  pv_subject :: subject_kind
  pv_subject_id :: "string option"
  pv_keys :: "key_view list"
  pv_values :: "policy_row list"

record policy_command_row =
  pc_principal :: string
  pc_actor :: string
  pc_key :: string
  pc_fingerprint :: string
  pc_result :: policy_view

text \<open>A text in several languages, as \<^verbatim>\<open>localized.py\<close> stores it.\<close>

record localized_text =
  lt_source :: string
  lt_texts :: "(string \<times> string) list"
  lt_fallback :: "(string \<times> string) list"

text \<open>An access policy: explicit grants, rules for every node (\<open>ru_region = None\<close>) or a region, and exclusions.\<close>

record access_rule =
  ru_region :: "string option"
  ru_protocols :: "protocol list"

record access_policy =
  ap_explicit :: "(string \<times> protocol) list"
  ap_rules :: "access_rule list"
  ap_exclusions :: "(string \<times> protocol) list"

record region_row =
  rg_id :: string
  rg_title :: string
  rg_canonical :: string

record tariff_row =
  tf_id :: string
  tf_title :: string
  tf_canonical :: string
  tf_titles :: "localized_text option"
  tf_description :: "localized_text option"
  tf_duration_days :: "int option"
  tf_access :: "access_policy option"
  tf_policies :: "(string \<times> pyval) list"
  tf_revision :: int

record profile_tariff_row =
  pt_profile :: string
  pt_tariff :: string
  pt_assigned_at :: instant

record quota_state_row =
  qs_profile :: string
  qs_anchor_at :: instant
  qs_revision :: int

record quota_period_row =
  qp_id :: string
  qp_profile :: string
  qp_start :: instant
  qp_end :: "instant option"
  qp_uplink :: int
  qp_downlink :: int
  qp_warned_at :: "instant option"
  qp_exhausted_at :: "instant option"
  qp_blocked :: bool
  qp_opened_command :: "string option"
  qp_closed_at :: "instant option"
  qp_close_reason :: "string option"
  qp_closed_by :: "string option"

text \<open>The delivery state of a per-node snapshot, shared by \<open>backend_node_admission\<close> and
  \<open>backend_node_shaping\<close>; the last two fields are the columns each adds.\<close>

datatype delivery_status = Pending | UpToDate | Unavailable | Outdated

record snapshot_row =
  sn_node :: string
  sn_revision :: int
  sn_digest :: string
  sn_applied_revision :: int
  sn_status :: delivery_status
  sn_checked_at :: "instant option"
  sn_events_boot :: string
  sn_events_sequence :: int
  sn_outcomes :: "(protocol \<times> string) list"

record observation_row =
  ob_device :: string
  ob_node :: string
  ob_active_sources :: int
  ob_blocked_sources :: int
  ob_observed_at :: instant

record admission_event_row =
  ev_id :: string
  ev_device :: string
  ev_node :: string
  ev_kind :: string
  ev_occurred_at :: instant
  ev_alerted :: bool

text \<open>A queued system notification with its deliveries: the recipient account and its chat, if any.\<close>

record notification_row =
  nt_kind :: string
  nt_profile :: string
  nt_dedup_key :: string
  nt_device :: "string option"
  nt_expires_at :: "instant option"
  nt_payload :: "(string \<times> pyval) list"
  nt_created_at :: instant
  nt_deliveries :: "(string \<times> string option) list"

text \<open>A channel an account is reached on.\<close>

record channel_row =
  cn_account :: string
  cn_channel :: string
  cn_address :: string
  cn_enabled :: bool

record alert_event_row =
  ae_node :: string
  ae_kind :: string
  ae_resolved :: bool
  ae_payload :: "(string \<times> pyval) list"
  ae_created_at :: instant
  ae_deliveries :: "(string \<times> string) list"

text \<open>A recorded device command with the digest of its request and its answer: the device, the profile
  revision, and the operation with its status.\<close>

record device_command_row =
  dm_principal :: string
  dm_actor :: string
  dm_key :: string
  dm_fingerprint :: string
  dm_result :: "device_row \<times> int \<times> (string \<times> op_status) option"

record renewal_row =
  rn_id :: string
  rn_profile :: string
  rn_account :: string
  rn_create_key :: string
  rn_status :: string
  rn_created_at :: instant
  rn_decided_at :: "instant option"
  rn_decided_by :: "string option"
  rn_days :: "int option"
  rn_expires_at :: "instant option"

text \<open>The answer of a profile command: the profile, whether it is being deleted, its grants, and the operation.\<close>

record profile_result =
  ps_profile :: profile_row
  ps_deleting :: bool
  ps_grants :: "(string \<times> protocol) list"
  ps_operation :: "string \<times> op_status"

record profile_command_row =
  pm_principal :: string
  pm_actor :: string
  pm_key :: string
  pm_fingerprint :: string
  pm_result :: profile_result

record backup_job_row =
  bj_action :: string
  bj_status :: string
  bj_phase :: "string option"

record credential_row =
  cr_id :: string
  cr_secret_hash :: string
  cr_kind :: string
  cr_account :: "string option"
  cr_scopes :: "string list"
  cr_created_at :: instant
  cr_expires_at :: instant
  cr_revoked_at :: "instant option"
  cr_session :: "string option"

record session_row =
  ss_id :: string
  ss_account :: string
  ss_method :: string
  ss_device :: string
  ss_refresh_hash :: string
  ss_previous_hash :: "string option"
  ss_created_at :: instant
  ss_used_at :: instant
  ss_expires_at :: instant
  ss_revoked_at :: "instant option"

record login_row =
  lg_key :: string
  lg_login :: string
  lg_account :: string
  lg_kind :: string
  lg_claimed_at :: instant
  lg_released_at :: "instant option"

text \<open>A workstation's key bound to a credential: the key's account and whether it was revoked.\<close>

record key_binding_row =
  kb_credential :: string
  kb_account :: string
  kb_revoked :: bool

text \<open>The public key of a client that signs its requests, and a request to link a Workstation key.\<close>

record client_key_row =
  ck_id :: string
  ck_kind :: string
  ck_public_key :: string
  ck_account :: "string option"
  ck_name :: string
  ck_created_at :: instant
  ck_last_used_at :: "instant option"
  ck_revoked_at :: "instant option"

record pairing_row =
  wp_id :: string
  wp_code :: string
  wp_public_key :: string
  wp_name :: string
  wp_source :: string
  wp_status :: string
  wp_account :: "string option"
  wp_key :: "string option"
  wp_created_at :: instant
  wp_expires_at :: instant

text \<open>A recorded account command, with the input that identifies it: the target, the role and
  status asked for, the exact roles, the login and the expected revision; and its answer, the account.\<close>

record account_command_row =
  cm_actor :: string
  cm_key :: string
  cm_target :: string
  cm_input :: "string option \<times> string option \<times> string list option \<times> string option \<times> int"
  cm_result :: account_row

section \<open>The database\<close>

text \<open>A table of which one column is used is a list of that column. The deletions of accounts and profiles keep the
  columns that are set later in tables of their own: \<open>completed_deletions\<close> the accounts whose deletion was completed,
  \<open>deletion_operations\<close> the operation of a profile's deletion. \<open>external_identities\<close> holds provider, subject and
  account, \<open>identity_usernames\<close> the subject and user name of \<open>backend_telegram_identity_details\<close>, \<open>identity_commands\<close> the
  account of each command, \<open>service_profiles\<close> the id, account and service.\<close>

record db =
  accounts :: "account_row list"
  role_assignments :: "role_assignment_row list"
  account_deletions :: "string list"
  completed_deletions :: "string list"
  external_identities :: "(string \<times> string \<times> string) list"
  identity_usernames :: "(string \<times> string option) list"
  identity_commands :: "string option list"
  menu_refresh :: "(string \<times> int) list"
  account_commands :: "account_command_row list"
  pending_requests :: "string list"
  profiles :: "profile_row list"
  profile_deletions :: "string list"
  deletion_operations :: "(string \<times> string) list"
  service_profiles :: "(string \<times> string \<times> string) list"
  devices :: "device_row list"
  device_credentials :: "device_credential_row list"
  retired_peers :: "retired_peer_row list"
  nodes :: "node_row list"
  agent_installations :: "string list"
  node_cleanup :: "string list"
  node_retirements :: "(string \<times> string) list"
  node_drains :: "string list"
  regions :: "region_row list"
  node_regions :: "(string \<times> string) list"
  grant_policies :: "(string \<times> access_policy) list"
  grants :: "grant_row list"
  operations :: "operation_row list"
  tasks :: "task_row list"
  identities :: "identity_row list"
  policies :: "policy_row list"
  policy_commands :: "policy_command_row list"
  tariffs :: "tariff_row list"
  profile_tariffs :: "profile_tariff_row list"
  quota_states :: "quota_state_row list"
  quota_periods :: "quota_period_row list"
  admission :: "snapshot_row list"
  shaping :: "snapshot_row list"
  observations :: "observation_row list"
  admission_events :: "admission_event_row list"
  notifications :: "notification_row list"
  channels :: "channel_row list"
  alert_events :: "alert_event_row list"
  device_commands :: "device_command_row list"
  profile_commands :: "profile_command_row list"
  renewals :: "renewal_row list"
  settings :: "(string \<times> pyval) list"
  cleanup_jobs :: "string list"
  update_gate :: "string option"
  backup_jobs :: "backup_job_row list"
  account_guard :: int
  rng :: "nat \<Rightarrow> string"
  drawn :: nat

text \<open>The part of the database that the sign-in services work on. \<open>au_nonces\<close> holds the key, the nonce and the time of
  the signed requests seen. \<open>au_hex\<close>, \<open>au_secret\<close> and \<open>au_code\<close> are the streams of \<open>uuid4().hex\<close>,
  \<open>secrets.token_urlsafe(32)\<close> and of the codes of eight characters, of which \<open>au_drawn\<close> have been used.\<close>

record auth_db =
  au_accounts :: "account_row list"
  au_account_deletions :: "string list"
  au_logins :: "login_row list"
  au_passwords :: "(string \<times> string) list"
  au_passkeys :: "(string \<times> string) list"
  au_sessions :: "session_row list"
  au_credentials :: "credential_row list"
  au_bindings :: "key_binding_row list"
  au_attempts :: "(string \<times> instant) list"
  au_client_keys :: "client_key_row list"
  au_nonces :: "(string \<times> string \<times> instant) list"
  au_pairings :: "pairing_row list"
  au_hex :: "nat \<Rightarrow> string"
  au_secret :: "nat \<Rightarrow> string"
  au_code :: "nat \<Rightarrow> string"
  au_drawn :: nat

section \<open>Shared database operations\<close>

text \<open>\<open>uuid4()\<close> and \<open>secrets.token_hex\<close>: the next value of the random stream.\<close>

definition draw :: "db \<Rightarrow> string \<times> db" where
  "draw d = (rng d (drawn d), d\<lparr>drawn := Suc (drawn d)\<rparr>)"

text \<open>\<open>UPDATE t SET \<dots> WHERE p\<close>.\<close>

definition update_where :: "('r \<Rightarrow> bool) \<Rightarrow> ('r \<Rightarrow> 'r) \<Rightarrow> 'r list \<Rightarrow> 'r list" where
  "update_where p f t = map (\<lambda>r. if p r then f r else r) t"

text \<open>\<open>SELECT \<dots> ORDER BY k\<close>: stable, so rows with equal keys keep their order.\<close>

definition order_by :: "('r \<Rightarrow> 'k::linorder) \<Rightarrow> 'r list \<Rightarrow> 'r list" where
  "order_by k t = sort_key k t"

lemma find_update_where_other:
  "(\<And>r. r \<in> set t \<Longrightarrow> q r \<Longrightarrow> \<not> p r) \<Longrightarrow> (\<And>r. r \<in> set t \<Longrightarrow> p r \<Longrightarrow> q (f r) = q r)
   \<Longrightarrow> find q (update_where p f t) = find q t"
  by (induction t) (auto simp: update_where_def)

lemma set_update_where: "set (update_where p f t) = (\<lambda>r. if p r then f r else r) ` set t"
  by (simp add: update_where_def)

lemma in_update_whereE:
  assumes "b \<in> set (update_where p f t)"
  obtains x where "x \<in> set t" and "p x" and "b = f x" | "b \<in> set t" and "\<not> p b"
  using assms by (auto simp: update_where_def split: if_splits)

lemma length_update_where [simp]: "length (update_where p f t) = length t"
  by (simp add: update_where_def)

lemma map_update_where: "(\<And>r. p r \<Longrightarrow> k (f r) = k r) \<Longrightarrow> map k (update_where p f t) = map k t"
  by (simp add: update_where_def)

lemma update_where_id: "(\<And>r. r \<in> set t \<Longrightarrow> p r \<Longrightarrow> f r = r) \<Longrightarrow> update_where p f t = t"
  by (induction t) (auto simp: update_where_def)

lemma update_where_none: "(\<And>r. r \<in> set t \<Longrightarrow> \<not> p r) \<Longrightarrow> update_where p f t = t"
  by (rule update_where_id) auto

lemma set_order_by [simp]: "set (order_by k t) = set t"
  by (simp add: order_by_def)

lemma distinct_keyD: "distinct (map k t) \<Longrightarrow> x \<in> set t \<Longrightarrow> y \<in> set t \<Longrightarrow> k x = k y \<Longrightarrow> x = y"
  by (auto simp: distinct_map inj_on_def)

lemma find_Some_iff: "find p xs = Some x \<Longrightarrow> x \<in> set xs \<and> p x"
  by (induction xs) (auto split: if_splits)

lemma find_None_iff': "find p xs = None \<longleftrightarrow> (\<forall>x \<in> set xs. \<not> p x)"
  by (induction xs) auto

lemma find_unique:
  assumes x: "x \<in> set t" "p x" and u: "\<And>y. y \<in> set t \<Longrightarrow> p y \<Longrightarrow> y = x"
  shows "find p t = Some x"
proof (cases "find p t")
  case None
  with x show ?thesis by (simp add: find_None_iff')
next
  case (Some y)
  with find_Some_iff [OF Some] u show ?thesis by simp
qed

lemma find_filter_keep:
  "(\<And>r. r \<in> set t \<Longrightarrow> p r \<Longrightarrow> q r) \<Longrightarrow> find p (filter q t) = find p t"
  by (induction t) auto

lemma find_update_where:
  "(\<And>r. p r \<Longrightarrow> q (f r) = q r) \<Longrightarrow> find q (update_where p f t) = map_option (\<lambda>r. if p r then f r else r) (find q t)"
  by (induction t) (auto simp: update_where_def)

lemma find_append: "find p (xs @ ys) = (case find p xs of None \<Rightarrow> find p ys | Some x \<Rightarrow> Some x)"
  by (induction xs) auto

end
