(* ===== verification/Authorization.thy ===== *)
theory Authorization
  imports Schema
begin

text \<open>
  \<^verbatim>\<open>app/backend/authorization.py\<close> and \<^verbatim>\<open>app/backend/roles.py\<close>: principals, accounts, role
  presets, the checks every request goes through, and the assignment of roles. The code that loads an
  account from the identity tables is outside these files; \<open>resolve_actor\<close> takes the two
  readers it calls as arguments, as the source does.
\<close>

named_theorems auth_defs \<open>definitions of the authorization checks\<close>

section \<open>Data\<close>

datatype principal_kind = ACCOUNT | ADAPTER | SERVICE

record principal =
  pr_id :: string
  pr_kind :: principal_kind
  pr_scopes :: "string set"
  pr_account_id :: "string option"

text \<open>\<open>roles = None\<close> is an account whose assignments were not loaded.\<close>

record account =
  ac_id :: string
  ac_role :: string
  ac_status :: string
  ac_roles :: "string set option"

record actor =
  actor_principal :: principal
  actor_account :: account

text \<open>An expiry without a time zone is \<open>Naive\<close>.\<close>

datatype expiry = Never | Naive | Aware instant

record profile_resource =
  rs_id :: string
  rs_owner :: "string option"
  rs_frozen :: bool
  rs_expires_at :: expiry

section \<open>Permissions\<close>

definition SELF_PERMISSIONS :: "string set" where
  "SELF_PERMISSIONS = {''account.self.read'', ''account.self.preferences.write'',
     ''access_requests.self.create'', ''access_requests.self.read''}"

definition APPROVED_PERMISSIONS :: "string set" where
  "APPROVED_PERMISSIONS = {''profiles.self.read'', ''nodes.available.read'', ''configs.self.issue'',
     ''configs.self.read'', ''operations.read''}"

definition ADMIN_PERMISSIONS :: "string set" where
  "ADMIN_PERMISSIONS = {''access_requests.manage'', ''accounts.manage'', ''profiles.manage'',
     ''grants.manage'', ''configs.manage.issue'', ''configs.manage.read'', ''nodes.manage'',
     ''nodes.inspect'', ''nodes.execute'', ''maintenance.manage'', ''settings.manage'',
     ''diagnostics.sensitive.read''}"

definition MEMBER_PERMISSIONS :: "string set" where
  "MEMBER_PERMISSIONS = SELF_PERMISSIONS \<union> APPROVED_PERMISSIONS"

definition ROLE_PERMISSIONS :: "string set" where
  "ROLE_PERMISSIONS = {''roles.manage''}"

definition service_permission :: "string \<Rightarrow> string" where
  "service_permission service = ''services.'' @ service @ ''.manage''"

text \<open>The service types come from \<^verbatim>\<open>r0033_service_instances.TYPES\<close>.\<close>

definition SERVICE_TYPES :: "string list" where
  "SERVICE_TYPES = [''xray'', ''awg'']"

definition SERVICE_PERMISSIONS :: "string set" where
  "SERVICE_PERMISSIONS = set (map service_permission SERVICE_TYPES)"

definition SYSTEM_SERVICE_PERMISSIONS :: "string set" where
  "SYSTEM_SERVICE_PERMISSIONS = {service_permission ''relay'', service_permission ''web_cabinet''}"

definition PRESETS :: "(string \<times> string set) list" where
  "PRESETS =
    [(''owner'', ADMIN_PERMISSIONS \<union> ROLE_PERMISSIONS \<union> SERVICE_PERMISSIONS \<union> SYSTEM_SERVICE_PERMISSIONS),
     (''admin'', ADMIN_PERMISSIONS \<union> SERVICE_PERMISSIONS \<union> SYSTEM_SERVICE_PERMISSIONS),
     (''operator'', {''nodes.manage'', ''nodes.inspect'', ''nodes.execute'', ''maintenance.manage'',
                     ''diagnostics.sensitive.read''} \<union> SERVICE_PERMISSIONS),
     (''support'', {''access_requests.manage'', ''profiles.manage'', ''configs.manage.read'',
                    ''configs.manage.issue''})]"

definition STAFF_ROLES :: "string set" where
  "STAFF_ROLES = fst ` set PRESETS"

definition preset :: "string \<Rightarrow> string set" where
  "preset role = (case map_of PRESETS role of None \<Rightarrow> {} | Some ps \<Rightarrow> ps)"

definition effective_roles :: "account \<Rightarrow> string set" where
  "effective_roles a = (case ac_roles a of
     Some roles \<Rightarrow> roles
   | None \<Rightarrow> if ac_role a = ''admin'' then {''owner''} else {})"

definition account_permissions :: "account \<Rightarrow> string set" where
  "account_permissions a = MEMBER_PERMISSIONS \<union> \<Union> (preset ` effective_roles a)"

section \<open>Checks\<close>

definition validate_telegram_id :: "pyval \<Rightarrow> unit tx" where
  "validate_telegram_id v = (case v of
     PInt n \<Rightarrow> guard (0 < n \<and> n < 2 ^ 63) (AccessDenied ''invalid_telegram_identity'' 422) (Inr ())
   | _ \<Rightarrow> Inl (AccessDenied ''invalid_telegram_identity'' 422))"

text \<open>The account checks that \<open>resolve_actor\<close> and \<open>require_permission\<close> share.\<close>

definition account_state_ok :: "account \<Rightarrow> unit tx" where
  "account_state_ok a =
     guard (ac_status a \<noteq> ''disabled'') (AccessDenied ''account_disabled'' 403)
      (guard (ac_role a \<in> {''member'', ''admin''} \<and> ac_status a = ''approved'')
        (AccessDenied ''invalid_account_state'' 403) (Inr ()))"

definition resolve_actor ::
  "(string \<Rightarrow> account option) \<Rightarrow> (int \<Rightarrow> account option) \<Rightarrow> principal \<Rightarrow> pyval \<Rightarrow> actor tx" where
  "resolve_actor get_account find_telegram_account p telegram_user_id =
     res_bind (case pr_kind p of
        ACCOUNT \<Rightarrow>
          guard (telegram_user_id = PNone) (AccessDenied ''delegation_not_allowed'' 403)
            (Inr (get_account (case pr_account_id p of None \<Rightarrow> '''' | Some i \<Rightarrow> i)))
      | ADAPTER \<Rightarrow>
          guard (''delegate.telegram'' \<in> pr_scopes p) (AccessDenied ''delegation_not_allowed'' 403)
            (res_bind (validate_telegram_id telegram_user_id)
              (\<lambda>_. Inr (case telegram_user_id of PInt n \<Rightarrow> find_telegram_account n | _ \<Rightarrow> None)))
      | SERVICE \<Rightarrow> Inl (AccessDenied ''human_actor_required'' 403))
     (\<lambda>found. case found of
        None \<Rightarrow> Inl (AccessDenied ''identity_not_registered'' 401)
      | Some a \<Rightarrow> res_bind (account_state_ok a)
          (\<lambda>_. Inr \<lparr>actor_principal = p, actor_account = a\<rparr>))"

text \<open>The scope a client needs for a permission: every service shares \<open>nodes.manage\<close>.\<close>

definition required_scope :: "string \<Rightarrow> string" where
  "required_scope permission = (if starts_with ''services.'' permission then ''nodes.manage'' else permission)"

definition require_permission :: "actor \<Rightarrow> string \<Rightarrow> unit tx" where
  "require_permission actor permission =
     res_bind (account_state_ok (actor_account actor)) (\<lambda>_.
       guard (required_scope permission \<in> pr_scopes (actor_principal actor))
         (AccessDenied ''permission_denied'' 403)
        (guard (permission \<in> account_permissions (actor_account actor))
          (AccessDenied ''permission_denied'' 403) (Inr ())))"

definition profile_permission :: "bool \<Rightarrow> string \<Rightarrow> string" where
  "profile_permission administrative act =
     (if act = ''read'' then (if administrative then ''profiles.manage'' else ''profiles.self.read'')
      else if act = ''issue_config'' then (if administrative then ''configs.manage.issue'' else ''configs.self.issue'')
      else (if administrative then ''configs.manage.read'' else ''configs.self.read''))"

definition require_profile ::
  "actor \<Rightarrow> profile_resource \<Rightarrow> string \<Rightarrow> bool \<Rightarrow> bool \<Rightarrow> instant \<Rightarrow> unit tx" where
  "require_profile actor profile act administrative grant_active now =
     (if act \<notin> {''read'', ''issue_config'', ''read_config''} then Inl (ValueError ''unsupported profile action'')
      else
        let own = (rs_owner profile = Some (ac_id (actor_account actor))) in
        if \<not> administrative \<and> \<not> own then Inl (AccessDenied ''resource_not_found'' 404)
        else res_bind (require_permission actor (profile_permission administrative act)) (\<lambda>_.
          if act = ''read'' then Inr ()
          else guard grant_active (AccessDenied ''grant_revoked'' 403)
            (guard (\<not> rs_frozen profile) (AccessDenied ''profile_frozen'' 403)
              (case rs_expires_at profile of
                 Never \<Rightarrow> Inr ()
               | Naive \<Rightarrow> Inl (AccessDenied ''invalid_profile_state'' 403)
               | Aware t \<Rightarrow> guard (\<not> t \<le> now) (AccessDenied ''profile_expired'' 403) (Inr ())))))"

section \<open>Role assignments\<close>

definition is_installation_assignment :: "string \<Rightarrow> role_assignment_row \<Rightarrow> bool" where
  "is_installation_assignment account_id r =
     (ra_account r = account_id \<and> ra_scope_kind r = ''installation'' \<and> ra_scope_id r = '''')"

text \<open>\<^verbatim>\<open>roles.assign\<close>.\<close>

definition assign_roles :: "string \<Rightarrow> string set \<Rightarrow> db \<Rightarrow> db tx" where
  "assign_roles account_id new_roles d =
     (if \<not> new_roles \<subseteq> STAFF_ROLES then Inl (AccessDenied ''invalid_input'' 422)
      else Inr (d\<lparr>
        role_assignments := filter (\<lambda>r. \<not> is_installation_assignment account_id r) (role_assignments d)
          @ map (\<lambda>role. \<lparr>ra_account = account_id, ra_role = role, ra_scope_kind = ''installation'', ra_scope_id = ''''\<rparr>)
              (sorted_list_of_set new_roles),
        accounts := update_where (\<lambda>a. acc_id a = account_id)
          (\<lambda>a. a\<lparr>acc_role := (if new_roles \<noteq> {} then ''admin'' else ''member'')\<rparr>) (accounts d)\<rparr>))"

text \<open>\<^verbatim>\<open>roles.owners\<close>.\<close>

definition is_owner_row :: "db \<Rightarrow> account_row \<Rightarrow> bool" where
  "is_owner_row d a = (acc_status a = ''approved'' \<and>
     (list_ex (\<lambda>r. ra_account r = acc_id a \<and> ra_role r = ''owner'' \<and> ra_scope_kind r = ''installation'')
        (role_assignments d)
      \<or> acc_role a = ''admin'' \<and> \<not> list_ex (\<lambda>r. ra_account r = acc_id a) (role_assignments d)))"

definition owners :: "db \<Rightarrow> nat" where
  "owners d = length (filter (is_owner_row d) (accounts d))"

text \<open>\<^verbatim>\<open>roles.holds_sql\<close>: the SQL condition, as a predicate on the aliased account row.\<close>

definition holds_sql :: "string \<Rightarrow> db \<Rightarrow> account_row \<Rightarrow> bool" where
  "holds_sql permission d a =
     (let roles = map fst (filter (\<lambda>(role, granted). permission \<in> granted) PRESETS);
          own = filter (\<lambda>r. ra_account r = acc_id a \<and> ra_scope_kind r = ''installation'') (role_assignments d)
      in if roles = [] then False
         else acc_role a = ''admin'' \<and> acc_status a = ''approved''
           \<and> (list_ex (\<lambda>r. ra_role r \<in> set roles) own
              \<or> (permission \<in> preset ''owner'' \<and> own = [])))"

text \<open>\<^verbatim>\<open>identity_repository.account_roles\<close> and \<open>_account\<close>: roles count only while the mirror
  column says \<open>admin\<close>, and an administrator without assignments is left to \<open>effective_roles\<close>.\<close>

definition account_roles :: "db \<Rightarrow> account_row \<Rightarrow> string set option" where
  "account_roles d a =
     (if acc_role a \<noteq> ''admin'' then Some {}
      else let roles = set (map ra_role (filter (is_installation_assignment (acc_id a)) (role_assignments d)))
           in if roles = {} then None else Some roles)"

definition to_account :: "db \<Rightarrow> account_row \<Rightarrow> account" where
  "to_account d a = \<lparr>ac_id = acc_id a, ac_role = acc_role a, ac_status = acc_status a, ac_roles = account_roles d a\<rparr>"

definition load_account :: "db \<Rightarrow> string \<Rightarrow> account option" where
  "load_account d account_id = map_option (to_account d) (find (\<lambda>a. acc_id a = account_id) (accounts d))"

lemmas permission_defs [auth_defs] =
  SELF_PERMISSIONS_def APPROVED_PERMISSIONS_def ADMIN_PERMISSIONS_def MEMBER_PERMISSIONS_def
  ROLE_PERMISSIONS_def SERVICE_PERMISSIONS_def SERVICE_TYPES_def SYSTEM_SERVICE_PERMISSIONS_def
  service_permission_def PRESETS_def preset_def

section \<open>The gate every request passes\<close>

text \<open>What a service may conclude from a passed check: the account is active, the client's
  credential carries the scope, and the account's roles grant the permission.\<close>

lemma require_permission_ok_iff:
  "require_permission actor p = Inr () \<longleftrightarrow>
     ac_status (actor_account actor) = ''approved'' \<and> ac_role (actor_account actor) \<in> {''member'', ''admin''}
     \<and> required_scope p \<in> pr_scopes (actor_principal actor) \<and> p \<in> account_permissions (actor_account actor)"
  by (auto simp: require_permission_def account_state_ok_def res_bind_Inr_iff)

lemma member_permissions_granted: "p \<in> MEMBER_PERMISSIONS \<Longrightarrow> p \<in> account_permissions a"
  by (simp add: account_permissions_def)

lemma account_permissions_no_roles: "effective_roles a = {} \<Longrightarrow> account_permissions a = MEMBER_PERMISSIONS"
  by (simp add: account_permissions_def)

lemma preset_member_disjoint: "preset role \<inter> MEMBER_PERMISSIONS = {}"
  by (auto simp: auth_defs split: if_splits option.splits)

lemma preset_subset_owner: "preset role \<subseteq> preset ''owner''"
  by (auto simp: auth_defs split: if_splits option.splits)

lemma roles_manage_only_owner: "''roles.manage'' \<in> preset role \<Longrightarrow> role = ''owner''"
  by (auto simp: auth_defs split: if_splits option.splits)


lemma not_member_roles_manage: "''roles.manage'' \<notin> MEMBER_PERMISSIONS"
  by (simp add: auth_defs)

text \<open>Only an owner passes the check for assigning roles, and every permission any preset grants
  is also an owner's.\<close>

theorem roles_manage_requires_owner:
  assumes "require_permission actor ''roles.manage'' = Inr ()"
  shows "''owner'' \<in> effective_roles (actor_account actor)
    \<and> (\<forall>role \<in> effective_roles (actor_account actor). preset role \<subseteq> preset ''owner'')
    \<and> MEMBER_PERMISSIONS \<union> preset ''owner'' = account_permissions (actor_account actor)"
proof -
  let ?a = "actor_account actor"
  from assms obtain role where r: "role \<in> effective_roles ?a" "''roles.manage'' \<in> preset role"
    using not_member_roles_manage by (auto simp: require_permission_ok_iff account_permissions_def)
  then have owner: "''owner'' \<in> effective_roles ?a" using roles_manage_only_owner by blast
  moreover have "\<Union> (preset ` effective_roles ?a) = preset ''owner''"
    using owner preset_subset_owner by blast
  ultimately show ?thesis using preset_subset_owner by (auto simp: account_permissions_def)
qed

definition sample_owner :: actor where
  "sample_owner = \<lparr>actor_principal = \<lparr>pr_id = ''p'', pr_kind = ACCOUNT, pr_scopes = {''roles.manage'', ''accounts.manage''},
       pr_account_id = Some ''a''\<rparr>,
     actor_account = \<lparr>ac_id = ''a'', ac_role = ''admin'', ac_status = ''approved'', ac_roles = None\<rparr>\<rparr>"

theorem roles_manage_requires_owner_witness:
  "require_permission sample_owner ''roles.manage'' = Inr ()
   \<and> ''owner'' \<in> effective_roles (actor_account sample_owner)"
proof -
  have h: "require_permission sample_owner ''roles.manage'' = Inr ()"
    by (simp add: require_permission_ok_iff sample_owner_def account_permissions_def effective_roles_def
        required_scope_def auth_defs)
  then show ?thesis using roles_manage_requires_owner [OF h] by blast
qed

text \<open>The decision table of configuration access: issuing or reading a configuration succeeds
  exactly when the profile is the caller's own (or the call is administrative), the permission check
  passes, the grant is active, and the profile is neither frozen nor expired.\<close>

theorem require_profile_config_iff:
  assumes "act = ''issue_config'' \<or> act = ''read_config''"
  shows "require_profile actor profile act administrative grant_active now = Inr () \<longleftrightarrow>
    (administrative \<or> rs_owner profile = Some (ac_id (actor_account actor)))
    \<and> require_permission actor (profile_permission administrative act) = Inr ()
    \<and> grant_active \<and> \<not> rs_frozen profile
    \<and> (rs_expires_at profile = Never \<or> (\<exists>t. rs_expires_at profile = Aware t \<and> now < t))"
  using assms by (auto simp: require_profile_def res_bind_Inr_iff Let_def split: expiry.splits)

theorem require_profile_config_iff_witness:
  "require_profile
     \<lparr>actor_principal = \<lparr>pr_id = ''p'', pr_kind = ACCOUNT, pr_scopes = {''configs.self.issue''}, pr_account_id = Some ''a''\<rparr>,
      actor_account = \<lparr>ac_id = ''a'', ac_role = ''member'', ac_status = ''approved'', ac_roles = Some {}\<rparr>\<rparr>
     \<lparr>rs_id = ''x'', rs_owner = Some ''a'', rs_frozen = False, rs_expires_at = Aware 10\<rparr> ''issue_config'' False True 9 = Inr ()"
  by (subst require_profile_config_iff)
    (simp_all add: require_permission_ok_iff account_permissions_def required_scope_def profile_permission_def auth_defs)

text \<open>Delegation is confined: an adapter only ever acts for the account its validated Telegram
  id names, an account principal only for itself, a service for nobody, and the actor's account is
  active.\<close>

theorem resolve_actor_confined:
  assumes "resolve_actor get_account find_telegram p tid = Inr actor"
  shows "actor_principal actor = p
    \<and> ac_status (actor_account actor) = ''approved'' \<and> ac_role (actor_account actor) \<in> {''member'', ''admin''}
    \<and> (pr_kind p = ACCOUNT \<and> tid = PNone
         \<and> get_account (case pr_account_id p of None \<Rightarrow> '''' | Some i \<Rightarrow> i) = Some (actor_account actor)
       \<or> pr_kind p = ADAPTER \<and> ''delegate.telegram'' \<in> pr_scopes p
         \<and> (\<exists>n. tid = PInt n \<and> 0 < n \<and> n < 2 ^ 63 \<and> find_telegram n = Some (actor_account actor)))"
  using assms
  by (auto simp: resolve_actor_def validate_telegram_id_def account_state_ok_def res_bind_Inr_iff
      split: principal_kind.splits option.splits pyval.splits)

theorem resolve_actor_confined_witness:
  "is_ok (resolve_actor (\<lambda>_. None)
     (\<lambda>n. Some \<lparr>ac_id = ''a'', ac_role = ''member'', ac_status = ''approved'', ac_roles = Some {}\<rparr>)
     \<lparr>pr_id = ''bot'', pr_kind = ADAPTER, pr_scopes = {''delegate.telegram''}, pr_account_id = None\<rparr> (PInt 42))
   \<and> (0::int) < 42"
proof -
  let ?acc = "\<lparr>ac_id = ''a'', ac_role = ''member'', ac_status = ''approved'', ac_roles = Some {}\<rparr>"
  let ?p = "\<lparr>pr_id = ''bot'', pr_kind = ADAPTER, pr_scopes = {''delegate.telegram''}, pr_account_id = None\<rparr>"
  have h: "resolve_actor (\<lambda>_. None) (\<lambda>n. Some ?acc) ?p (PInt 42) = Inr \<lparr>actor_principal = ?p, actor_account = ?acc\<rparr>"
    by (simp add: resolve_actor_def validate_telegram_id_def account_state_ok_def)
  show ?thesis using resolve_actor_confined [OF h] h by auto
qed

text \<open>Roles as the SQL condition and as the permission check see them. Installation-wide
  assignments carry an empty scope id, which \<open>assign\<close> writes.\<close>

definition scope_ids_ok :: "db \<Rightarrow> bool" where
  "scope_ids_ok d = list_all (\<lambda>r. ra_scope_kind r = ''installation'' \<longrightarrow> ra_scope_id r = '''') (role_assignments d)"

lemma installation_rows_eq:
  "scope_ids_ok d \<Longrightarrow>
   filter (\<lambda>r. ra_account r = i \<and> ra_scope_kind r = ''installation'') (role_assignments d)
   = filter (is_installation_assignment i) (role_assignments d)"
  by (rule filter_cong) (auto simp: scope_ids_ok_def list_all_iff is_installation_assignment_def)

lemma granting_keys_iff:
  "distinct (map fst xs) \<Longrightarrow> role \<in> set (map fst (filter (\<lambda>(role, granted). p \<in> granted) xs))
   \<longleftrightarrow> (\<exists>granted. map_of xs role = Some granted \<and> p \<in> granted)"
  by (force dest: map_of_SomeD intro: map_of_is_SomeI)

lemma distinct_presets: "distinct (map fst PRESETS)"
  by (simp add: PRESETS_def)

lemma preset_roles_iff:
  "role \<in> set (map fst (filter (\<lambda>(role, granted). p \<in> granted) PRESETS)) \<longleftrightarrow> p \<in> preset role"
  unfolding granting_keys_iff [OF distinct_presets] preset_def by (auto split: option.splits)

lemma no_preset_roles_iff:
  "map fst (filter (\<lambda>(role, granted). p \<in> granted) PRESETS) = [] \<longleftrightarrow> p \<notin> preset ''owner''"
proof
  assume "map fst (filter (\<lambda>(role, granted). p \<in> granted) PRESETS) = []"
  then show "p \<notin> preset ''owner''" using preset_roles_iff [of "''owner''" p] by simp
next
  assume "p \<notin> preset ''owner''"
  then have "\<And>role. p \<notin> preset role" using preset_subset_owner by blast
  then show "map fst (filter (\<lambda>(role, granted). p \<in> granted) PRESETS) = []"
    using preset_roles_iff [of _ p] by (metis list.set_intros(1) neq_Nil_conv)
qed

text \<open>C32. The SQL condition that selects recipients and senders agrees with the permission check
  of the request path: for a permission beyond a member's own, it holds of an account row exactly
  when the account is active staff and the permission is among those computed from its roles.\<close>

theorem holds_sql_agrees:
  assumes "scope_ids_ok d" and "p \<notin> MEMBER_PERMISSIONS"
  shows "holds_sql p d a \<longleftrightarrow> acc_role a = ''admin'' \<and> acc_status a = ''approved''
    \<and> p \<in> account_permissions (to_account d a)"
proof -
  let ?own = "filter (is_installation_assignment (acc_id a)) (role_assignments d)"
  have perm: "p \<in> account_permissions (to_account d a) \<longleftrightarrow> (\<exists>r \<in> effective_roles (to_account d a). p \<in> preset r)"
    using assms(2) by (simp add: account_permissions_def)
  have eff: "effective_roles (to_account d a) = (if ?own = [] then {''owner''} else set (map ra_role ?own))"
    if "acc_role a = ''admin''"
    using that by (cases "?own") (auto simp: effective_roles_def to_account_def account_roles_def Let_def filter_empty_conv)
  have sql: "holds_sql p d a \<longleftrightarrow> p \<in> preset ''owner'' \<and> acc_role a = ''admin'' \<and> acc_status a = ''approved''
      \<and> (list_ex (\<lambda>r. p \<in> preset (ra_role r)) ?own \<or> ?own = [])"
    unfolding holds_sql_def Let_def installation_rows_eq [OF assms(1)] no_preset_roles_iff preset_roles_iff
    by auto
  show ?thesis
  proof (cases "acc_role a = ''admin''")
    case True
    then show ?thesis using preset_subset_owner unfolding sql perm eff [OF True]
      by (auto simp: list_ex_iff)
  next
    case False
    then show ?thesis by (simp add: sql)
  qed
qed


definition empty_db :: db where
  "empty_db = \<lparr>accounts = [], role_assignments = [], account_deletions = [], completed_deletions = [], external_identities = [], identity_usernames = [], identity_commands = [],
     menu_refresh = [], account_commands = [],
     pending_requests = [], profiles = [], profile_deletions = [], deletion_operations = [], service_profiles = [], devices = [], device_credentials = [],
     retired_peers = [], nodes = [], agent_installations = [], node_cleanup = [], node_retirements = [],
     node_drains = [], regions = [], node_regions = [], grant_policies = [],
     grants = [], operations = [], tasks = [], identities = [], policies = [], policy_commands = [], tariffs = [],
     profile_tariffs = [], quota_states = [], quota_periods = [], admission = [], shaping = [],
     observations = [], admission_events = [], notifications = [], channels = [], alert_events = [], device_commands = [], profile_commands = [], renewals = [], settings = [], cleanup_jobs = [], update_gate = None,
     backup_jobs = [], account_guard = 0, rng = (\<lambda>n. replicate n (CHR ''i'')), drawn = 0\<rparr>"

theorem holds_sql_agrees_witness:
  "holds_sql ''settings.manage'' empty_db \<lparr>acc_id = ''a'', acc_role = ''admin'', acc_status = ''approved'', acc_revision = 1, acc_display_name = None\<rparr>"
proof -
  let ?a = "\<lparr>acc_id = ''a'', acc_role = ''admin'', acc_status = ''approved'', acc_revision = 1, acc_display_name = None\<rparr>"
  have "scope_ids_ok empty_db" by (simp add: scope_ids_ok_def empty_db_def)
  moreover have "''settings.manage'' \<notin> MEMBER_PERMISSIONS" by (simp add: auth_defs)
  moreover have "''settings.manage'' \<in> account_permissions (to_account empty_db ?a)"
    by (simp add: account_permissions_def effective_roles_def to_account_def account_roles_def empty_db_def auth_defs)
  ultimately show ?thesis using holds_sql_agrees [of empty_db "''settings.manage''" ?a] by simp
qed

end
