(* ===== verification/Maintenance_Gate.thy ===== *)
theory Maintenance_Gate
  imports Schema
begin

text \<open>
  \<^verbatim>\<open>app/backend/maintenance_gate.py\<close>: new work is refused while the controller is being cleaned up,
  updated or restored. \<open>cleanup_jobs\<close> holds the statuses of the system cleanup jobs.
\<close>

definition cleanup_active :: "db \<Rightarrow> bool" where
  "cleanup_active d = list_ex (\<lambda>s. s \<in> {''queued'', ''running'', ''awaiting_shutdown'', ''blocked''}) (cleanup_jobs d)"

definition gate_active :: "db \<Rightarrow> bool" where
  "gate_active d = (cleanup_active d \<or> update_gate d \<noteq> None)"

definition restore_active :: "db \<Rightarrow> bool" where
  "restore_active d = list_ex (\<lambda>j. bj_action j = ''restore'' \<and> bj_status j \<in> {''awaiting_executor'', ''running''})
     (backup_jobs d)"

text \<open>\<open>admit\<close> takes the guard row first, so that writers queue behind it.\<close>

definition admit :: "bool \<Rightarrow> db \<Rightarrow> db tx" where
  "admit allow_restore d0 = (let d = d0\<lparr>account_guard := account_guard d0 + 1\<rparr> in
     if gate_active d then
       Inl (AccessDenied (if update_gate d \<noteq> None then ''update_pending'' else ''system_cleanup_in_progress'') 409)
     else if \<not> allow_restore \<and> list_ex (\<lambda>j. bj_action j = ''restore''
         \<and> bj_status j \<in> {''awaiting_executor'', ''running''}
         \<and> (case bj_phase j of None \<Rightarrow> '''' | Some p \<Rightarrow> p) \<noteq> ''reconnecting'') (backup_jobs d)
     then Inl (AccessDenied ''restore_in_progress'' 409)
     else Inr d)"

text \<open>\<^verbatim>\<open>node_snapshots.paused\<close>.\<close>

definition paused :: "db \<Rightarrow> bool" where
  "paused d = (gate_active d \<or> restore_active d)"

lemma admit_Inr: "admit allow d = Inr d' \<Longrightarrow> d' = d\<lparr>account_guard := account_guard d + 1\<rparr>"
  by (auto simp: admit_def Let_def split: if_splits)

lemma admit_Inr_not_active: "admit allow d = Inr d' \<Longrightarrow> \<not> gate_active d"
  by (auto simp: admit_def gate_active_def cleanup_active_def Let_def split: if_splits)

end
