(* ===== verification/Logins.thy ===== *)
theory Logins
  imports Schema
begin

text \<open>
  \<^verbatim>\<open>app/backend/logins.py\<close>: the rules of a login, claiming it, holding one that was given up, and
  the limit on how often an account changes its own.
\<close>

named_theorems login_defs \<open>definitions of the login operations\<close>

section \<open>Operations\<close>

text \<open>\<open>[A-Za-z0-9][A-Za-z0-9_.-]{2,31}\Z\<close>.\<close>

definition login_char :: "char \<Rightarrow> bool" where
  "login_char c = (ascii_digit c \<or> ascii_alpha c \<or> c \<in> {CHR ''_'', CHR ''.'', CHR ''-''})"

definition login_pattern :: "string \<Rightarrow> bool" where
  "login_pattern s = (case s of [] \<Rightarrow> False
     | c # cs \<Rightarrow> (ascii_digit c \<or> ascii_alpha c) \<and> 2 \<le> length cs \<and> length cs \<le> 31 \<and> list_all login_char cs)"

definition RESERVED :: "string list" where
  "RESERVED = [''admin'', ''administrator'', ''root'', ''support'', ''owner'', ''operator'', ''staff'', ''moderator'',
     ''system'', ''security'', ''help'', ''info'', ''api'', ''relay'', ''bot'', ''telegram'', ''node-plane'',
     ''nodeplane'', ''node_plane'', ''me'', ''null'', ''none'', ''undefined'', ''anonymous'', ''guest'', ''user'']"

definition CHANGE_EVERY :: int where "CHANGE_EVERY = 30 * day"
definition HOLD :: int where "HOLD = 30 * day"

definition checked_login :: "pyval \<Rightarrow> (string \<times> string) tx" where
  "checked_login v = (case v of
     PStr login \<Rightarrow>
       guard (login_pattern login) (AccessDenied ''login_invalid'' 422)
        (guard (lower login \<notin> set RESERVED) (AccessDenied ''login_reserved'' 422) (Inr (login, lower login)))
   | _ \<Rightarrow> Inl (AccessDenied ''login_invalid'' 422))"

definition is_current_login :: "string \<Rightarrow> login_row \<Rightarrow> bool" where
  "is_current_login account_id r = (lg_account r = account_id \<and> lg_released_at r = None)"

definition current_login :: "auth_db \<Rightarrow> string \<Rightarrow> string option" where
  "current_login d account_id = map_option lg_login (find (is_current_login account_id) (au_logins d))"

definition change_times :: "auth_db \<Rightarrow> string \<Rightarrow> instant list" where
  "change_times d account_id =
     map lg_claimed_at (filter (\<lambda>r. lg_account r = account_id \<and> lg_kind r = ''change'') (au_logins d))"

definition change_available_at :: "auth_db \<Rightarrow> string \<Rightarrow> instant \<Rightarrow> instant option" where
  "change_available_at d account_id now = (case change_times d account_id of
     [] \<Rightarrow> None
   | t # ts \<Rightarrow> let at = fold max ts t + CHANGE_EVERY in if at > now then Some at else None)"

definition login_available :: "auth_db \<Rightarrow> string \<Rightarrow> string \<Rightarrow> instant \<Rightarrow> bool" where
  "login_available d key account_id now = (case find (\<lambda>r. lg_key r = key) (au_logins d) of
     None \<Rightarrow> True
   | Some r \<Rightarrow> lg_account r = account_id
       \<or> (case lg_released_at r of None \<Rightarrow> False | Some t \<Rightarrow> t + HOLD \<le> now))"

text \<open>\<open>claim\<close>, on the table: the previous current login is released, a row with the key is replaced.\<close>

definition replace_login :: "string \<Rightarrow> string \<Rightarrow> string \<Rightarrow> string \<Rightarrow> instant \<Rightarrow> login_row list \<Rightarrow> login_row list" where
  "replace_login account_id login key kind now rows =
     filter (\<lambda>r. lg_key r \<noteq> key)
       (case find (is_current_login account_id) rows of
          None \<Rightarrow> rows
        | Some previous \<Rightarrow> update_where (\<lambda>r. lg_key r = lg_key previous) (\<lambda>r. r\<lparr>lg_released_at := Some now\<rparr>) rows)
     @ [\<lparr>lg_key = key, lg_login = login, lg_account = account_id, lg_kind = kind, lg_claimed_at = now, lg_released_at = None\<rparr>]"

definition claim_login :: "string \<Rightarrow> pyval \<Rightarrow> string \<Rightarrow> instant \<Rightarrow> auth_db \<Rightarrow> (auth_db \<times> string) tx" where
  "claim_login account_id v kind now d =
     res_bind (checked_login v) (\<lambda>(login, key).
     guard (login_available d key account_id now) (AccessDenied ''login_taken'' 409)
     (case find (is_current_login account_id) (au_logins d) of
        Some previous \<Rightarrow>
          if lg_key previous = key
          then Inr (d\<lparr>au_logins := update_where (\<lambda>r. lg_key r = key) (\<lambda>r. r\<lparr>lg_login := login\<rparr>) (au_logins d)\<rparr>, login)
          else Inr (d\<lparr>au_logins := replace_login account_id login key kind now (au_logins d)\<rparr>, login)
      | None \<Rightarrow> Inr (d\<lparr>au_logins := replace_login account_id login key kind now (au_logins d)\<rparr>, login)))"

text \<open>\<open>set_own\<close>. \<open>str(login)\<close> of a list or a dict has a bracket, so it never equals a login.\<close>

definition py_str :: "pyval \<Rightarrow> string option" where
  "py_str v = (case v of PNone \<Rightarrow> Some ''None'' | PBool b \<Rightarrow> Some (if b then ''True'' else ''False'')
     | PInt n \<Rightarrow> Some (int_str n) | PStr s \<Rightarrow> Some s | PList _ \<Rightarrow> None | PDict _ \<Rightarrow> None)"

definition same_login :: "string \<Rightarrow> pyval \<Rightarrow> bool" where
  "same_login had v = (map_option lower (py_str v) = Some (lower had))"

definition set_own_login :: "string \<Rightarrow> pyval \<Rightarrow> instant \<Rightarrow> auth_db \<Rightarrow> (auth_db \<times> string) tx" where
  "set_own_login account_id v now d = (case current_login d account_id of
     None \<Rightarrow> claim_login account_id v ''first'' now d
   | Some had \<Rightarrow>
       guard (same_login had v \<or> change_available_at d account_id now = None)
         (AccessDenied ''login_change_too_soon'' 409)
         (claim_login account_id v ''change'' now d))"

definition release_login :: "string \<Rightarrow> instant \<Rightarrow> auth_db \<Rightarrow> auth_db" where
  "release_login account_id now d = d\<lparr>au_logins :=
     update_where (is_current_login account_id) (\<lambda>r. r\<lparr>lg_released_at := Some now\<rparr>) (au_logins d)\<rparr>"

definition login_suggestion :: "auth_db \<Rightarrow> string \<Rightarrow> string \<Rightarrow> instant \<Rightarrow> string option" where
  "login_suggestion d account_id username now =
     (if username = [] then None
      else case checked_login (PStr username) of
        Inl _ \<Rightarrow> None
      | Inr (login, key) \<Rightarrow> if login_available d key account_id now then Some login else None)"

section \<open>The table's invariant\<close>

text \<open>The primary key and the unique index \<open>backend_logins_current\<close>; a key is the lower-case login.\<close>

definition logins_wf :: "login_row list \<Rightarrow> bool" where
  "logins_wf rows = (distinct (map lg_key rows)
     \<and> (\<forall>r \<in> set rows. \<forall>q \<in> set rows. lg_account r = lg_account q \<longrightarrow> lg_released_at r = None
          \<longrightarrow> lg_released_at q = None \<longrightarrow> r = q)
     \<and> (\<forall>r \<in> set rows. lg_key r = lower (lg_login r)))"

lemma checked_loginD: "checked_login v = Inr (login, key) \<Longrightarrow> v = PStr login \<and> key = lower login"
  by (auto simp: checked_login_def split: pyval.splits)

lemma current_unique:
  assumes "logins_wf rows" and "find (is_current_login a) rows = Some p" and "q \<in> set rows" and "is_current_login a q"
  shows "q = p"
  using assms find_Some_iff [OF assms(2)] unfolding logins_wf_def is_current_login_def by blast

lemma find_current_iff:
  assumes "logins_wf rows" and "p \<in> set rows" and "is_current_login a p"
  shows "find (is_current_login a) rows = Some p"
proof -
  from assms(2,3) obtain q where q: "find (is_current_login a) rows = Some q"
    by (cases "find (is_current_login a) rows") (auto simp: find_None_iff')
  with current_unique [OF assms(1) q assms(2,3)] show ?thesis by simp
qed

text \<open>Releasing rows, or rewriting a login to another spelling of its key, keeps the invariant.\<close>

lemma update_logins_wf:
  assumes wf: "logins_wf rows"
    and key: "\<And>r. p r \<Longrightarrow> lg_key (f r) = lg_key r"
    and acc: "\<And>r. p r \<Longrightarrow> lg_account (f r) = lg_account r"
    and rel: "\<And>r. p r \<Longrightarrow> lg_released_at (f r) = None \<Longrightarrow> lg_released_at r = None"
    and low: "\<And>r. r \<in> set rows \<Longrightarrow> p r \<Longrightarrow> lower (lg_login (f r)) = lg_key r"
  shows "logins_wf (update_where p f rows)"
proof -
  let ?g = "\<lambda>r. if p r then f r else r"
  have d: "distinct (map lg_key (update_where p f rows))"
    using wf by (simp add: map_update_where key logins_wf_def)
  have c: "?g x = ?g y" if "x \<in> set rows" "y \<in> set rows" "lg_account (?g x) = lg_account (?g y)"
      "lg_released_at (?g x) = None" "lg_released_at (?g y) = None" for x y
  proof -
    have "lg_account x = lg_account y" using that(3) acc by (auto split: if_splits)
    moreover have "lg_released_at x = None" "lg_released_at y = None" using that(4,5) rel by (auto split: if_splits)
    ultimately have "x = y" using wf that(1,2) unfolding logins_wf_def by blast
    then show ?thesis by simp
  qed
  have l: "lg_key (?g x) = lower (lg_login (?g x))" if "x \<in> set rows" for x
    using that wf key low [OF that] by (simp add: logins_wf_def)
  show ?thesis unfolding logins_wf_def set_update_where using d c l by blast
qed

lemma filter_wf: "logins_wf rows \<Longrightarrow> logins_wf (filter P rows)"
  by (auto simp: logins_wf_def distinct_map_filter)

lemma release_login_wf: "logins_wf (au_logins d) \<Longrightarrow> logins_wf (au_logins (release_login a now d))"
  by (simp add: release_login_def) (rule update_logins_wf, auto simp: logins_wf_def)

lemma release_current:
  assumes wf: "logins_wf rows"
  shows "(case find (is_current_login a) rows of
      None \<Rightarrow> rows
    | Some previous \<Rightarrow> update_where (\<lambda>r. lg_key r = lg_key previous) (\<lambda>r. r\<lparr>lg_released_at := Some now\<rparr>) rows)
    = update_where (is_current_login a) (\<lambda>r. r\<lparr>lg_released_at := Some now\<rparr>) rows"
proof (cases "find (is_current_login a) rows")
  case None
  then have "\<And>r. r \<in> set rows \<Longrightarrow> \<not> is_current_login a r" by (simp add: find_None_iff')
  then have "update_where (is_current_login a) (\<lambda>r. r\<lparr>lg_released_at := Some now\<rparr>) rows = rows"
    by (rule update_where_none)
  with None show ?thesis by simp
next
  case (Some p)
  have p: "p \<in> set rows" "is_current_login a p" using find_Some_iff [OF Some] by auto
  have "lg_key r = lg_key p \<longleftrightarrow> is_current_login a r" if "r \<in> set rows" for r
    using that p wf current_unique [OF wf Some that] by (auto simp: logins_wf_def dest: distinct_keyD)
  with Some show ?thesis by (auto simp: update_where_def intro!: map_cong)
qed

lemma replace_login_eq:
  "logins_wf rows \<Longrightarrow> replace_login a login key kind now rows =
     filter (\<lambda>r. lg_key r \<noteq> key) (update_where (is_current_login a) (\<lambda>r. r\<lparr>lg_released_at := Some now\<rparr>) rows)
     @ [\<lparr>lg_key = key, lg_login = login, lg_account = a, lg_kind = kind, lg_claimed_at = now, lg_released_at = None\<rparr>]"
  by (simp add: replace_login_def release_current)

lemma no_current_released:
  "r \<in> set (update_where (is_current_login a) (\<lambda>r. r\<lparr>lg_released_at := Some now\<rparr>) rows) \<Longrightarrow> \<not> is_current_login a r"
  by (erule in_update_whereE) (auto simp: is_current_login_def)

lemma append_login_wf:
  assumes "logins_wf rows" and "lg_key r \<notin> lg_key ` set rows" and "lg_key r = lower (lg_login r)"
    and "\<And>q. q \<in> set rows \<Longrightarrow> \<not> is_current_login (lg_account r) q"
  shows "logins_wf (rows @ [r])"
proof -
  have o: "lg_released_at q \<noteq> None" if "q \<in> set rows" "lg_account q = lg_account r" for q
    using assms(4) [OF that(1)] that(2) by (simp add: is_current_login_def)
  have u: "x = y" if "x \<in> insert r (set rows)" "y \<in> insert r (set rows)" "lg_account x = lg_account y"
      "lg_released_at x = None" "lg_released_at y = None" for x y
  proof (cases "x = r \<or> y = r")
    case True
    then show ?thesis using that o [of x] o [of y] by auto
  next
    case False
    then show ?thesis using that assms(1) unfolding logins_wf_def by blast
  qed
  have "distinct (map lg_key (rows @ [r]))" using assms(1,2) by (simp add: logins_wf_def)
  moreover have "\<forall>q \<in> set (rows @ [r]). lg_key q = lower (lg_login q)" using assms(1,3) by (simp add: logins_wf_def)
  moreover have "set (rows @ [r]) = insert r (set rows)" by simp
  ultimately show ?thesis unfolding logins_wf_def using u by (metis (no_types))
qed

lemma replace_login_wf:
  assumes wf: "logins_wf rows" and "key = lower login"
  shows "logins_wf (replace_login a login key kind now rows)"
  unfolding replace_login_eq [OF wf]
proof (rule append_login_wf)
  show "logins_wf (filter (\<lambda>r. lg_key r \<noteq> key)
      (update_where (is_current_login a) (\<lambda>r. r\<lparr>lg_released_at := Some now\<rparr>) rows))"
    by (rule filter_wf, rule update_logins_wf [OF wf]) (use wf in \<open>auto simp: logins_wf_def\<close>)
qed (auto simp: assms dest: no_current_released)

lemma find_current_replace_own:
  assumes wf: "logins_wf rows"
  shows "map_option lg_login (find (is_current_login a) (replace_login a login key kind now rows)) = Some login"
proof -
  have "find (is_current_login a) (replace_login a login key kind now rows)
     = Some \<lparr>lg_key = key, lg_login = login, lg_account = a, lg_kind = kind, lg_claimed_at = now, lg_released_at = None\<rparr>"
    unfolding replace_login_eq [OF wf]
    by (rule find_unique) (auto simp: is_current_login_def dest: no_current_released)
  then show ?thesis by simp
qed

lemma find_current_replace_other:
  assumes wf: "logins_wf rows" and "b \<noteq> a"
    and free: "\<And>r. r \<in> set rows \<Longrightarrow> lg_key r = key \<Longrightarrow> \<not> is_current_login b r"
  shows "find (is_current_login b) (replace_login a login key kind now rows) = find (is_current_login b) rows"
proof -
  let ?u = "update_where (is_current_login a) (\<lambda>r. r\<lparr>lg_released_at := Some now\<rparr>) rows"
  have u: "find (is_current_login b) ?u = find (is_current_login b) rows"
    by (rule find_update_where_other) (use \<open>b \<noteq> a\<close> in \<open>auto simp: is_current_login_def\<close>)
  have "find (is_current_login b) (filter (\<lambda>r. lg_key r \<noteq> key) ?u) = find (is_current_login b) ?u"
  proof (rule find_filter_keep)
    fix r assume "r \<in> set ?u" "is_current_login b r"
    then have "r \<in> set rows" by (cases rule: in_update_whereE [consumes 1]) (auto simp: is_current_login_def)
    with free \<open>is_current_login b r\<close> show "lg_key r \<noteq> key" by blast
  qed
  then show ?thesis unfolding replace_login_eq [OF wf] find_append u
    using \<open>b \<noteq> a\<close> by (simp add: is_current_login_def split: option.split)
qed

lemma available_free:
  assumes "logins_wf (au_logins d)" and "login_available d key a now" and "b \<noteq> a"
    and "r \<in> set (au_logins d)" and "lg_key r = key"
  shows "\<not> is_current_login b r"
proof -
  have "find (\<lambda>r. lg_key r = key) (au_logins d) = Some r"
    by (rule find_unique) (use assms in \<open>auto simp: logins_wf_def dest: distinct_keyD\<close>)
  then show ?thesis using assms by (auto simp: login_available_def is_current_login_def split: option.splits)
qed

section \<open>Claiming\<close>

lemma claim_loginD:
  assumes "claim_login a v kind now d = Inr (d', l)"
  obtains key where "v = PStr l" and "key = lower l" and "login_available d key a now"
    and "(\<exists>p. find (is_current_login a) (au_logins d) = Some p \<and> lg_key p = key)
         \<and> d' = d\<lparr>au_logins := update_where (\<lambda>r. lg_key r = key) (\<lambda>r. r\<lparr>lg_login := l\<rparr>) (au_logins d)\<rparr>
       \<or> (\<forall>p. find (is_current_login a) (au_logins d) = Some p \<longrightarrow> lg_key p \<noteq> key)
         \<and> d' = d\<lparr>au_logins := replace_login a l key kind now (au_logins d)\<rparr>"
proof -
  from assms obtain login key where k: "checked_login v = Inr (login, key)" "login_available d key a now"
    and r: "(case find (is_current_login a) (au_logins d) of
        Some previous \<Rightarrow>
          if lg_key previous = key
          then Inr (d\<lparr>au_logins := update_where (\<lambda>r. lg_key r = key) (\<lambda>r. r\<lparr>lg_login := login\<rparr>) (au_logins d)\<rparr>, login)
          else Inr (d\<lparr>au_logins := replace_login a login key kind now (au_logins d)\<rparr>, login)
      | None \<Rightarrow> Inr (d\<lparr>au_logins := replace_login a login key kind now (au_logins d)\<rparr>, login)) = (Inr (d', l) :: (auth_db \<times> string) tx)"
    by (auto simp: claim_login_def res_bind_Inr_iff)
  have "v = PStr login" "key = lower login" using checked_loginD [OF k(1)] by auto
  with that [of key] k(2) r show ?thesis
    by (cases "find (is_current_login a) (au_logins d)") (auto split: if_splits)
qed

lemma claim_login_wf:
  assumes wf: "logins_wf (au_logins d)" and c: "claim_login a v kind now d = Inr (d', l)"
  shows "logins_wf (au_logins d')"
  using c
proof (rule claim_loginD)
  fix key
  assume k: "key = lower l"
  have "logins_wf (update_where (\<lambda>r. lg_key r = key) (\<lambda>r. r\<lparr>lg_login := l\<rparr>) (au_logins d))"
    by (rule update_logins_wf [OF wf]) (auto simp: k)
  moreover have "logins_wf (replace_login a l key kind now (au_logins d))" by (rule replace_login_wf [OF wf k])
  moreover assume "(\<exists>p. find (is_current_login a) (au_logins d) = Some p \<and> lg_key p = key)
         \<and> d' = d\<lparr>au_logins := update_where (\<lambda>r. lg_key r = key) (\<lambda>r. r\<lparr>lg_login := l\<rparr>) (au_logins d)\<rparr>
       \<or> (\<forall>p. find (is_current_login a) (au_logins d) = Some p \<longrightarrow> lg_key p \<noteq> key)
         \<and> d' = d\<lparr>au_logins := replace_login a l key kind now (au_logins d)\<rparr>"
  ultimately show ?thesis by auto
qed

lemma respell_current:
  assumes "find (is_current_login a) rows = Some p" and "lg_key p = key"
  shows "map_option lg_login (find (is_current_login a) (update_where (\<lambda>r. lg_key r = key) (\<lambda>r. r\<lparr>lg_login := l\<rparr>) rows))
     = Some l"
  using assms by (induction rows) (auto simp: update_where_def is_current_login_def split: if_splits)

lemma respell_other:
  assumes "\<And>r. r \<in> set rows \<Longrightarrow> lg_key r = key \<Longrightarrow> \<not> is_current_login b r"
  shows "find (is_current_login b) (update_where (\<lambda>r. lg_key r = key) (\<lambda>r. r\<lparr>lg_login := l\<rparr>) rows)
     = find (is_current_login b) rows"
  by (rule find_update_where_other) (use assms in blast, simp add: is_current_login_def)


section \<open>Properties\<close>

text \<open>A successful claim makes exactly the claimed text the account's current login, keeps every
  other account's current login, and keeps the table's keys unique without regard to case.\<close>

theorem claim_login_sets_current:
  assumes wf: "logins_wf (au_logins d)" and c: "claim_login a v kind now d = Inr (d', l)"
  shows "v = PStr l \<and> current_login d' a = Some l \<and> (\<forall>b. b \<noteq> a \<longrightarrow> current_login d' b = current_login d b)
     \<and> logins_wf (au_logins d')"
proof -
  obtain key where k: "v = PStr l" "key = lower l" "login_available d key a now"
    and cases: "(\<exists>p. find (is_current_login a) (au_logins d) = Some p \<and> lg_key p = key)
         \<and> d' = d\<lparr>au_logins := update_where (\<lambda>r. lg_key r = key) (\<lambda>r. r\<lparr>lg_login := l\<rparr>) (au_logins d)\<rparr>
       \<or> (\<forall>p. find (is_current_login a) (au_logins d) = Some p \<longrightarrow> lg_key p \<noteq> key)
         \<and> d' = d\<lparr>au_logins := replace_login a l key kind now (au_logins d)\<rparr>"
    using c by (rule claim_loginD)
  have other: "current_login d' b = current_login d b" if "b \<noteq> a" for b
    using cases respell_other [OF available_free [OF wf k(3) that]]
      find_current_replace_other [OF wf that available_free [OF wf k(3) that]]
    by (auto simp: current_login_def)
  have own: "current_login d' a = Some l"
    using cases respell_current find_current_replace_own [OF wf] by (auto simp: current_login_def)
  show ?thesis using k(1) own other claim_login_wf [OF wf c] by simp
qed

definition sample_auth :: auth_db where
  "sample_auth = \<lparr>au_accounts = [\<lparr>acc_id = ''a1'', acc_role = ''user'', acc_status = ''approved'', acc_revision = 1, acc_display_name = None\<rparr>],
     au_account_deletions = [],
     au_logins = [\<lparr>lg_key = ''alice'', lg_login = ''Alice'', lg_account = ''a1'', lg_kind = ''first'',
       lg_claimed_at = 0, lg_released_at = None\<rparr>],
     au_passwords = [], au_passkeys = [], au_sessions = [], au_credentials = [], au_bindings = [], au_attempts = [], au_client_keys = [], au_nonces = [], au_pairings = [],
     au_hex = (\<lambda>n. replicate 32 CHR ''0''), au_secret = (\<lambda>n. replicate 43 CHR ''x''), au_code = (\<lambda>n. ''K7M2QX9A''), au_drawn = 0\<rparr>"

definition renamed_auth :: auth_db where
  "renamed_auth = fst (projr (set_own_login ''a1'' (PStr ''Bob'') day sample_auth))"

lemma sample_auth_wf: "logins_wf (au_logins sample_auth)" by code_simp

lemma renamed: "set_own_login ''a1'' (PStr ''Bob'') day sample_auth = Inr (renamed_auth, ''Bob'')"
  unfolding renamed_auth_def by (rule ok_pair) (code_simp, code_simp)

theorem claim_login_sets_current_witness:
  "current_login renamed_auth ''a1'' = Some ''Bob'' \<and> logins_wf (au_logins renamed_auth)"
proof -
  have "claim_login ''a1'' (PStr ''Bob'') ''change'' day sample_auth
      = set_own_login ''a1'' (PStr ''Bob'') day sample_auth"
    by (simp add: set_own_login_def sample_auth_def current_login_def is_current_login_def change_available_at_def
        change_times_def)
  with renamed have "claim_login ''a1'' (PStr ''Bob'') ''change'' day sample_auth = Inr (renamed_auth, ''Bob'')" by simp
  from claim_login_sets_current [OF sample_auth_wf this] show ?thesis by simp
qed

text \<open>While an account holds a login, or gave it up less than \<open>HOLD\<close> ago, nobody else can claim
  any spelling of it.\<close>

theorem held_login_not_taken:
  assumes wf: "logins_wf (au_logins d)" and r: "r \<in> set (au_logins d)" and "lg_account r \<noteq> b"
    and held: "case lg_released_at r of None \<Rightarrow> True | Some t \<Rightarrow> now < t + HOLD"
    and spell: "checked_login (PStr login) = Inr (login, lg_key r)"
  shows "claim_login b (PStr login) kind now d = Inl (AccessDenied ''login_taken'' 409)"
proof -
  have "find (\<lambda>q. lg_key q = lg_key r) (au_logins d) = Some r"
    by (rule find_unique) (use wf r in \<open>auto simp: logins_wf_def dest: distinct_keyD\<close>)
  then have "\<not> login_available d (lg_key r) b now"
    using assms(3) held by (auto simp: login_available_def split: option.splits)
  with spell show ?thesis by (simp add: claim_login_def)
qed

theorem held_login_not_taken_witness:
  "claim_login ''b2'' (PStr ''ALICE'') ''first'' (5 * day) sample_auth = Inl (AccessDenied ''login_taken'' 409)"
  by (rule held_login_not_taken [OF sample_auth_wf,
        of "\<lparr>lg_key = ''alice'', lg_login = ''Alice'', lg_account = ''a1'', lg_kind = ''first'',
       lg_claimed_at = 0, lg_released_at = None\<rparr>"]) code_simp+

lemma fold_max_ge: "x \<in> set (t # ts) \<Longrightarrow> x \<le> fold max ts (t :: 'a :: linorder)"
  unfolding Max.set_eq_fold [symmetric] by (rule Max_ge) simp_all

lemma changed_recently:
  assumes "r \<in> set (au_logins d)" "lg_account r = a" "lg_kind r = ''change''" "now < lg_claimed_at r + CHANGE_EVERY"
  shows "change_available_at d a now \<noteq> None"
proof -
  from assms(1-3) have "lg_claimed_at r \<in> set (change_times d a)" by (auto simp: change_times_def)
  then obtain t ts where t: "change_times d a = t # ts" "lg_claimed_at r \<in> set (t # ts)"
    by (cases "change_times d a") auto
  then have "lg_claimed_at r \<le> fold max ts t" using fold_max_ge by blast
  with t assms(4) show ?thesis by (simp add: change_available_at_def Let_def)
qed

lemma replace_login_row:
  "\<lparr>lg_key = key, lg_login = login, lg_account = a, lg_kind = kind, lg_claimed_at = now, lg_released_at = None\<rparr>
     \<in> set (replace_login a login key kind now rows)"
  by (simp add: replace_login_def)

text \<open>After an account has changed its own login, a further change to a different login within
  \<open>CHANGE_EVERY\<close> is refused, whatever it asks for.\<close>

theorem own_change_once:
  assumes wf: "logins_wf (au_logins d)" and had: "current_login d a = Some h" and diff: "lower h \<noteq> lower s"
    and ok: "set_own_login a (PStr s) now d = Inr (d', l)" and soon: "later < now + CHANGE_EVERY"
    and other: "\<not> same_login l w"
  shows "set_own_login a w later d' = Inl (AccessDenied ''login_change_too_soon'' 409)"
proof -
  from ok had have c: "claim_login a (PStr s) ''change'' now d = Inr (d', l)" by (simp add: set_own_login_def)
  obtain key where k: "PStr s = PStr l" "key = lower l"
    and cases: "(\<exists>p. find (is_current_login a) (au_logins d) = Some p \<and> lg_key p = key)
         \<and> d' = d\<lparr>au_logins := update_where (\<lambda>r. lg_key r = key) (\<lambda>r. r\<lparr>lg_login := l\<rparr>) (au_logins d)\<rparr>
       \<or> (\<forall>p. find (is_current_login a) (au_logins d) = Some p \<longrightarrow> lg_key p \<noteq> key)
         \<and> d' = d\<lparr>au_logins := replace_login a l key ''change'' now (au_logins d)\<rparr>"
    using c by (rule claim_loginD)
  from had obtain p where p: "find (is_current_login a) (au_logins d) = Some p" "lg_login p = h"
    by (auto simp: current_login_def)
  have "lg_key p = lower h" using wf p find_Some_iff [OF p(1)] by (auto simp: logins_wf_def)
  with k diff p(1) cases have "d' = d\<lparr>au_logins := replace_login a l key ''change'' now (au_logins d)\<rparr>" by auto
  then have "\<lparr>lg_key = key, lg_login = l, lg_account = a, lg_kind = ''change'', lg_claimed_at = now,
      lg_released_at = None\<rparr> \<in> set (au_logins d')" using replace_login_row by simp
  from changed_recently [OF this, of a later] soon have "change_available_at d' a later \<noteq> None" by simp
  moreover have "current_login d' a = Some l"
    using cases respell_current find_current_replace_own [OF wf] by (auto simp: current_login_def)
  ultimately show ?thesis using other by (auto simp: set_own_login_def guard_def)
qed

theorem own_change_once_witness:
  "set_own_login ''a1'' (PStr ''carol'') (7 * day) renamed_auth = Inl (AccessDenied ''login_change_too_soon'' 409)"
  by (rule own_change_once [OF sample_auth_wf _ _ renamed, where h = "''Alice''"]) code_simp+

end
