(* ===== verification/Accounts.thy ===== *)
theory Accounts
  imports Authorization Maintenance_Gate Logins
begin

text \<open>
  The part of \<^verbatim>\<open>AccountService.update\<close> of \<^verbatim>\<open>app/backend/accounts.py\<close> that decides: the checks of a
  request, changing an account's role or status or assigning its roles exactly, with the guards that keep
  an owner. The whole command, with its login, its profile and its record, is in \<open>Account_Commands\<close>.
\<close>

record update_request =
  uq_role :: "string option"
  uq_status :: "string option"
  uq_roles :: "string list option"
  uq_login :: "string option"
  uq_revision :: int

text \<open>The checks before the transaction; the result is the identifying input of the command: role, status, roles, login
  and revision.\<close>

type_synonym update_input = "string option \<times> string option \<times> string list option \<times> string option \<times> int"

definition checked_update :: "actor \<Rightarrow> update_request \<Rightarrow> update_input tx" where
  "checked_update actor rq =
     res_bind (require_permission actor ''accounts.manage'') (\<lambda>_.
     guard (\<not> (uq_role rq = None \<and> uq_status rq = None \<and> uq_roles rq = None \<and> uq_login rq = None)) (AccessDenied ''invalid_input'' 422)
     (res_bind (case uq_login rq of None \<Rightarrow> Inr () | Some l \<Rightarrow> res_bind (checked_login (PStr l)) (\<lambda>_. Inr ())) (\<lambda>_.
      res_bind (case uq_roles rq of
        None \<Rightarrow> Inr (uq_role rq)
      | Some roles \<Rightarrow> res_bind (require_permission actor ''roles.manage'') (\<lambda>_.
          guard (uq_role rq = None \<and> set roles \<subseteq> STAFF_ROLES \<and> distinct roles) (AccessDenied ''invalid_input'' 422)
            (Inr (Some (if roles \<noteq> [] then ''admin'' else ''member'')))))
      (\<lambda>role.
     guard (case role of None \<Rightarrow> True | Some r \<Rightarrow> r \<in> {''member'', ''admin''}) (AccessDenied ''invalid_input'' 422)
     (guard (case uq_status rq of None \<Rightarrow> True | Some st \<Rightarrow> st \<in> {''approved'', ''disabled''}) (AccessDenied ''invalid_input'' 422)
     (guard (1 \<le> uq_revision rq) (AccessDenied ''invalid_revision'' 422)
      (Inr (role, uq_status rq, map_option sort (uq_roles rq), uq_login rq, uq_revision rq))))))))"

text \<open>\<open>_roles\<close>: the roles of an account as the permission check computes them, sorted.\<close>

definition current_roles :: "db \<Rightarrow> account_row \<Rightarrow> string list" where
  "current_roles d row = sorted_list_of_set (effective_roles (to_account d row))"

definition bump_revision :: "string \<Rightarrow> db \<Rightarrow> db" where
  "bump_revision account_id d = d\<lparr>accounts := update_where (\<lambda>a. acc_id a = account_id)
     (\<lambda>a. a\<lparr>acc_revision := acc_revision a + 1\<rparr>) (accounts d)\<rparr>"

definition refresh_menu :: "string \<Rightarrow> int \<Rightarrow> db \<Rightarrow> db" where
  "refresh_menu account_id revision d = d\<lparr>menu_refresh := dict_set account_id revision (menu_refresh d)\<rparr>"

text \<open>Staff roles change and the account stays staff.\<close>

definition change_roles :: "string \<Rightarrow> string list \<Rightarrow> db \<Rightarrow> db tx" where
  "change_roles account_id roles d =
     res_bind (assign_roles account_id (set roles) d) (\<lambda>d. Inr (bump_revision account_id d))"

definition write_state :: "string \<Rightarrow> string \<Rightarrow> string \<Rightarrow> db \<Rightarrow> db" where
  "write_state account_id role status d = d\<lparr>accounts := update_where (\<lambda>a. acc_id a = account_id)
     (\<lambda>a. a\<lparr>acc_role := role, acc_status := status, acc_revision := acc_revision a + 1\<rparr>) (accounts d)\<rparr>"

text \<open>Promotion makes an administrator, demotion takes every role.\<close>

definition roles_after :: "string \<Rightarrow> string list option \<Rightarrow> string set" where
  "roles_after next_role roles = (case roles of Some rs \<Rightarrow> set rs
     | None \<Rightarrow> if next_role = ''admin'' then {''admin''} else {})"

text \<open>The role or the status changes.\<close>

definition change_state ::
  "actor \<Rightarrow> account_row \<Rightarrow> string \<Rightarrow> string \<Rightarrow> string list option \<Rightarrow> db \<Rightarrow> db tx" where
  "change_state actor row next_role next_status roles d =
     (let account_id = acc_id row;
          leaves = (acc_role row = ''admin'' \<and> acc_status row = ''approved''
                    \<and> (next_role, next_status) \<noteq> (''admin'', ''approved''));
          admins = length (filter (\<lambda>a. acc_role a = ''admin'' \<and> acc_status a = ''approved'') (accounts d))
      in
      guard (\<not> (account_id = ac_id (actor_account actor) \<and> (next_role, next_status) \<noteq> (''admin'', ''approved'')))
        (AccessDenied ''self_admin_revocation'' 409)
      (guard (\<not> (leaves \<and> admins \<le> 1)) (AccessDenied ''last_admin_required'' 409)
      (res_bind (if leaves \<and> ''owner'' \<in> set (current_roles d row)
                 then res_bind (require_permission actor ''roles.manage'') (\<lambda>_.
                   guard (\<not> owners d \<le> 1) (AccessDenied ''last_owner_required'' 409) (Inr ()))
                 else Inr ())
      (\<lambda>_.
      guard (account_id \<notin> set (pending_requests d)) (AccessDenied ''request_pending'' 409)
      (let d1 = write_state account_id next_role next_status d
       in if next_role \<noteq> acc_role row then assign_roles account_id (roles_after next_role roles) d1
          else Inr d1)))))"

text \<open>From the found row on: the guards that keep an owner, then the changes.\<close>

definition loses_owner :: "db \<Rightarrow> account_row \<Rightarrow> string list option \<Rightarrow> bool" where
  "loses_owner d row roles = (case roles of None \<Rightarrow> False | Some rs \<Rightarrow>
     rs \<noteq> current_roles d row \<and> ''owner'' \<in> set (current_roles d row) \<and> ''owner'' \<notin> set rs)"

definition roles_changed :: "db \<Rightarrow> account_row \<Rightarrow> string list option \<Rightarrow> bool" where
  "roles_changed d row roles = (case roles of None \<Rightarrow> False | Some rs \<Rightarrow> rs \<noteq> current_roles d row)"

definition apply_update ::
  "actor \<Rightarrow> account_row \<Rightarrow> string \<Rightarrow> string \<Rightarrow> string list option \<Rightarrow> int \<Rightarrow> db \<Rightarrow> db tx" where
  "apply_update actor row next_role next_status roles revision d =
     guard (\<not> (loses_owner d row roles \<and> owners d \<le> 1)) (AccessDenied ''last_owner_required'' 409)
     (guard (\<not> (acc_role row = ''admin'' \<and> next_status \<noteq> ''approved''))
       (AccessDenied (if acc_id row = ac_id (actor_account actor) then ''self_admin_revocation'' else ''admin_block_forbidden'') 409)
     (if next_role = acc_role row \<and> next_status = acc_status row
      then (if roles_changed d row roles
            then res_bind (change_roles (acc_id row) (the roles) d) (\<lambda>e. Inr (refresh_menu (acc_id row) (revision + 1) e)) else Inr d)
      else res_bind (change_state actor row next_role next_status roles d) (\<lambda>e. Inr (refresh_menu (acc_id row) (revision + 1) e))))"

section \<open>Owners\<close>

text \<open>What the tables keep between commands: installation-wide assignments have an empty scope id,
  account ids are a key, and the mirror column agrees with the assignments.\<close>

definition roles_wf :: "db \<Rightarrow> bool" where
  "roles_wf d = (scope_ids_ok d \<and> distinct (map acc_id (accounts d))
     \<and> (\<forall>a \<in> set (accounts d). acc_role a \<noteq> ''admin'' \<longrightarrow>
          (\<forall>r \<in> set (role_assignments d). \<not> (ra_account r = acc_id a \<and> ra_scope_kind r = ''installation''))))"

text \<open>A change that touches one account only.\<close>

definition only_account :: "string \<Rightarrow> db \<Rightarrow> db \<Rightarrow> bool" where
  "only_account i d d' = (map acc_id (accounts d') = map acc_id (accounts d)
     \<and> (\<forall>a. acc_id a \<noteq> i \<longrightarrow> a \<in> set (accounts d') \<longleftrightarrow> a \<in> set (accounts d))
     \<and> (\<forall>r. ra_account r \<noteq> i \<longrightarrow> r \<in> set (role_assignments d') \<longleftrightarrow> r \<in> set (role_assignments d)))"

lemma only_account_refl: "only_account i d d"
  by (simp add: only_account_def)

lemma only_account_trans: "only_account i d d' \<Longrightarrow> only_account i d' d'' \<Longrightarrow> only_account i d d''"
  by (auto simp: only_account_def)

lemma only_account_update:
  assumes "\<And>a. acc_id (f a) = acc_id a"
  shows "only_account i d (d\<lparr>accounts := update_where (\<lambda>a. acc_id a = i) f (accounts d)\<rparr>)"
  using assms by (force simp: only_account_def set_update_where map_update_where)

lemma assign_roles_accounts:
  "assign_roles i R d = Inr d' \<Longrightarrow> accounts d' = update_where (\<lambda>a. acc_id a = i)
     (\<lambda>a. a\<lparr>acc_role := (if R \<noteq> {} then ''admin'' else ''member'')\<rparr>) (accounts d)"
  by (auto simp: assign_roles_def split: if_splits)

lemma assign_roles_rows:
  "assign_roles i R d = Inr d' \<Longrightarrow> finite R \<Longrightarrow> r \<in> set (role_assignments d') \<longleftrightarrow>
     (r \<in> set (role_assignments d) \<and> \<not> is_installation_assignment i r)
     \<or> (\<exists>role \<in> R. r = \<lparr>ra_account = i, ra_role = role, ra_scope_kind = ''installation'', ra_scope_id = ''''\<rparr>)"
  by (auto simp: assign_roles_def split: if_splits)

lemma assign_roles_only_account: "assign_roles i R d = Inr d' \<Longrightarrow> only_account i d d'"
  by (auto simp: assign_roles_def only_account_def set_update_where map_update_where is_installation_assignment_def
      split: if_splits)

lemma bump_revision_only_account: "only_account i d (bump_revision i d)"
  unfolding bump_revision_def by (rule only_account_update) simp

lemma change_rolesD:
  "change_roles i rs d = Inr d' \<Longrightarrow> \<exists>e. assign_roles i (set rs) d = Inr e \<and> d' = bump_revision i e"
  by (auto simp: change_roles_def res_bind_Inr_iff)

lemma change_roles_only_account:
  assumes "change_roles i rs d = Inr d'" shows "only_account i d d'"
proof -
  from change_rolesD [OF assms] obtain e where "assign_roles i (set rs) d = Inr e" "d' = bump_revision i e" by blast
  then show ?thesis
    using only_account_trans [OF assign_roles_only_account bump_revision_only_account] by blast
qed

lemma change_stateD:
  assumes "change_state actor row nr ns roles d = Inr d'"
  shows "if nr \<noteq> acc_role row
      then assign_roles (acc_id row) (roles_after nr roles) (write_state (acc_id row) nr ns d) = Inr d'
      else d' = write_state (acc_id row) nr ns d"
    and "acc_role row = ''admin'' \<Longrightarrow> acc_status row = ''approved'' \<Longrightarrow> (nr, ns) \<noteq> (''admin'', ''approved'')
      \<Longrightarrow> ''owner'' \<in> set (current_roles d row) \<Longrightarrow> \<not> owners d \<le> 1"
  using assms by (auto simp: change_state_def res_bind_Inr_iff Let_def split: if_splits)

lemma write_state_only_account: "only_account i d (write_state i r st d)"
  unfolding write_state_def by (rule only_account_update) simp

lemma change_state_only_account:
  "change_state actor row nr ns roles d = Inr d' \<Longrightarrow> only_account (acc_id row) d d'"
  using change_stateD(1) [of actor row nr ns roles d d'] write_state_only_account
    assign_roles_only_account only_account_trans by (metis (full_types))

lemma is_owner_row_only_account:
  assumes "only_account i d d'" and "acc_id a \<noteq> i"
  shows "is_owner_row d' a \<longleftrightarrow> is_owner_row d a"
proof -
  have "list_ex (\<lambda>r. ra_account r = acc_id a \<and> P r) (role_assignments d')
      \<longleftrightarrow> list_ex (\<lambda>r. ra_account r = acc_id a \<and> P r) (role_assignments d)" for P
    using assms by (auto simp: only_account_def list_ex_iff)
  from this [of "\<lambda>r. ra_role r = ''owner'' \<and> ra_scope_kind r = ''installation''"] this [of "\<lambda>r. True"]
  show ?thesis by (simp add: is_owner_row_def)
qed

lemma finite_effective_roles [simp]: "finite (effective_roles (to_account d a))"
  by (auto simp: effective_roles_def to_account_def account_roles_def Let_def split: option.splits if_splits)

lemma set_current_roles [simp]: "set (current_roles d a) = effective_roles (to_account d a)"
  by (simp add: current_roles_def)

lemma owner_row_has_role:
  assumes "roles_wf d" and "a \<in> set (accounts d)" and "is_owner_row d a"
  shows "acc_role a = ''admin'' \<and> ''owner'' \<in> effective_roles (to_account d a)"
proof -
  from assms have admin: "acc_role a = ''admin''"
    by (auto simp: is_owner_row_def roles_wf_def list_ex_iff)
  moreover have "''owner'' \<in> effective_roles (to_account d a)"
  proof (cases "list_ex (\<lambda>r. ra_account r = acc_id a \<and> ra_role r = ''owner'' \<and> ra_scope_kind r = ''installation'') (role_assignments d)")
    case True
    then obtain r where r: "r \<in> set (role_assignments d)" "is_installation_assignment (acc_id a) r" "ra_role r = ''owner''"
      using assms(1) by (auto simp: list_ex_iff roles_wf_def scope_ids_ok_def list_all_iff is_installation_assignment_def)
    then have "''owner'' \<in> ra_role ` {x \<in> set (role_assignments d). is_installation_assignment (acc_id a) x}"
      by force
    with admin show ?thesis by (auto simp: effective_roles_def to_account_def account_roles_def Let_def)
  next
    case False
    with assms(3) have "\<not> list_ex (\<lambda>r. ra_account r = acc_id a) (role_assignments d)" by (simp add: is_owner_row_def)
    then have "filter (is_installation_assignment (acc_id a)) (role_assignments d) = []"
      by (auto simp: filter_empty_conv list_ex_iff is_installation_assignment_def)
    with admin show ?thesis by (simp add: effective_roles_def to_account_def account_roles_def)
  qed
  ultimately show ?thesis ..
qed

lemma owners_pos_iff: "1 \<le> owners d \<longleftrightarrow> (\<exists>a \<in> set (accounts d). is_owner_row d a)"
  by (simp add: owners_def Suc_le_eq length_greater_0_conv filter_empty_conv)

lemma sole_owner_count:
  assumes "distinct (map acc_id (accounts d))"
    and "\<And>a. a \<in> set (accounts d) \<Longrightarrow> is_owner_row d a \<Longrightarrow> acc_id a = i"
  shows "owners d \<le> 1"
proof -
  have "distinct (map acc_id (filter (is_owner_row d) (accounts d)))"
    using assms(1) by (rule distinct_map_filter)
  moreover have "set (map acc_id (filter (is_owner_row d) (accounts d))) \<subseteq> {i}"
    using assms(2) by auto
  ultimately have "length (map acc_id (filter (is_owner_row d) (accounts d))) \<le> card {i}"
    by (metis card_mono distinct_card finite.emptyI finite.insertI)
  then show ?thesis by (simp add: owners_def)
qed

lemma assigned_owner:
  assumes "assign_roles i R d = Inr d'" and "''owner'' \<in> R" and "finite R"
    and "a \<in> set (accounts d)" and "acc_id a = i" and "acc_status a = ''approved''"
  shows "is_owner_row d' (a\<lparr>acc_role := ''admin''\<rparr>)" and "a\<lparr>acc_role := ''admin''\<rparr> \<in> set (accounts d')"
proof -
  let ?r = "\<lparr>ra_account = i, ra_role = ''owner'', ra_scope_kind = ''installation'', ra_scope_id = ''''\<rparr>"
  have "?r \<in> set (role_assignments d')"
    using assms(1,2) by (simp add: assign_roles_rows [OF assms(1,3)])
  then show "is_owner_row d' (a\<lparr>acc_role := ''admin''\<rparr>)"
    using assms(5,6) by (force simp: is_owner_row_def list_ex_iff)
  show "a\<lparr>acc_role := ''admin''\<rparr> \<in> set (accounts d')"
    using assms(2,4,5) by (auto simp: assign_roles_accounts [OF assms(1)] set_update_where)
qed

text \<open>Role assignments keep the tables well formed, whatever the mirror said before.\<close>

lemma assign_roles_wf:
  assumes a: "assign_roles i R d = Inr d'" and "finite R" and "scope_ids_ok d" and "distinct (map acc_id (accounts d))"
    and others: "\<And>a r. a \<in> set (accounts d) \<Longrightarrow> acc_id a \<noteq> i \<Longrightarrow> acc_role a \<noteq> ''admin'' \<Longrightarrow> r \<in> set (role_assignments d)
      \<Longrightarrow> \<not> (ra_account r = acc_id a \<and> ra_scope_kind r = ''installation'')"
  shows "roles_wf d'"
proof -
  note rows = assign_roles_rows [OF a assms(2)] and accs = assign_roles_accounts [OF a]
  have "scope_ids_ok d'"
    using assms(3) by (auto simp: scope_ids_ok_def list_all_iff rows)
  moreover have "distinct (map acc_id (accounts d'))"
    using assms(4) by (simp add: accs map_update_where)
  moreover have "\<not> (ra_account r = acc_id b \<and> ra_scope_kind r = ''installation'')"
    if b: "b \<in> set (accounts d')" "acc_role b \<noteq> ''admin''" and r: "r \<in> set (role_assignments d')" for b r
    using b(1) unfolding accs
  proof (cases rule: in_update_whereE)
    case (1 x)
    with b(2) have "R = {}" and i: "acc_id b = i" by (auto split: if_splits)
    with r have "r \<in> set (role_assignments d)" "\<not> is_installation_assignment i r" by (auto simp: rows)
    with i assms(3) show ?thesis
      by (auto simp: scope_ids_ok_def list_all_iff is_installation_assignment_def)
  next
    case 2
    moreover from r have "r \<in> set (role_assignments d) \<or> ra_account r = i" unfolding rows by auto
    ultimately show ?thesis using b(2) others [of b r] by auto
  qed
  ultimately show ?thesis unfolding roles_wf_def by blast
qed

lemma write_state_accounts: "accounts (write_state i r st d) = update_where (\<lambda>a. acc_id a = i)
    (\<lambda>a. a\<lparr>acc_role := r, acc_status := st, acc_revision := acc_revision a + 1\<rparr>) (accounts d)"
  and write_state_rows [simp]: "role_assignments (write_state i r st d) = role_assignments d"
  by (simp_all add: write_state_def)

lemma bump_revision_wf: "roles_wf d \<Longrightarrow> roles_wf (bump_revision i d)"
  unfolding roles_wf_def bump_revision_def
  by (auto simp: scope_ids_ok_def map_update_where elim!: in_update_whereE)

lemma bump_revision_owner: "1 \<le> owners d \<Longrightarrow> 1 \<le> owners (bump_revision i d)"
proof -
  assume "1 \<le> owners d"
  then obtain a where a: "a \<in> set (accounts d)" "is_owner_row d a" unfolding owners_pos_iff by blast
  let ?b = "if acc_id a = i then a\<lparr>acc_revision := acc_revision a + 1\<rparr> else a"
  have "?b \<in> set (accounts (bump_revision i d))" using a(1) by (simp add: bump_revision_def set_update_where)
  moreover have "is_owner_row (bump_revision i d) ?b"
    using a(2) by (auto simp: is_owner_row_def bump_revision_def)
  ultimately show ?thesis unfolding owners_pos_iff by blast
qed

lemma change_state_wf:
  assumes c: "change_state actor row nr ns roles d = Inr d'" and wf: "roles_wf d"
    and row: "row \<in> set (accounts d)"
  shows "roles_wf d'"
proof -
  let ?i = "acc_id row" and ?e = "write_state (acc_id row) nr ns d"
  have sc: "scope_ids_ok ?e" "distinct (map acc_id (accounts ?e))"
    using wf by (simp_all add: roles_wf_def scope_ids_ok_def write_state_accounts map_update_where)
  have others: "\<not> (ra_account r = acc_id a \<and> ra_scope_kind r = ''installation'')"
    if "a \<in> set (accounts ?e)" "acc_id a \<noteq> ?i" "acc_role a \<noteq> ''admin''" "r \<in> set (role_assignments ?e)" for a r
    using that wf by (auto simp: write_state_accounts roles_wf_def elim!: in_update_whereE)
  show ?thesis
  proof (cases "nr \<noteq> acc_role row")
    case True
    then have "assign_roles ?i (roles_after nr roles) ?e = Inr d'" using change_stateD(1) [OF c] by simp
    moreover have "finite (roles_after nr roles)" by (simp add: roles_after_def split: option.splits)
    ultimately show ?thesis using sc others by (rule assign_roles_wf)
  next
    case False
    then have d': "d' = ?e" using change_stateD(1) [OF c] by simp
    have "\<not> (ra_account r = acc_id a \<and> ra_scope_kind r = ''installation'')"
      if "a \<in> set (accounts ?e)" "acc_role a \<noteq> ''admin''" "r \<in> set (role_assignments ?e)" for a r
    proof (cases "acc_id a = ?i")
      case True
      then have "acc_role row \<noteq> ''admin''" using that(1,2) False
        by (auto simp: write_state_accounts elim!: in_update_whereE)
      with row wf that(3) True show ?thesis by (auto simp: roles_wf_def)
    next
      case False
      with that show ?thesis by (intro others)
    qed
    with d' sc show ?thesis by (auto simp: roles_wf_def)
  qed
qed

lemma owners_cong: "accounts d = accounts e \<Longrightarrow> role_assignments d = role_assignments e \<Longrightarrow> owners d = owners e"
proof -
  assume a: "accounts d = accounts e" "role_assignments d = role_assignments e"
  then have "is_owner_row d = is_owner_row e" by (simp add: is_owner_row_def fun_eq_iff)
  with a show ?thesis by (simp add: owners_def)
qed

lemma roles_wf_cong: "accounts d = accounts e \<Longrightarrow> role_assignments d = role_assignments e \<Longrightarrow> roles_wf d = roles_wf e"
  by (simp add: roles_wf_def scope_ids_ok_def)

lemma refresh_menu_simps [simp]:
  "accounts (refresh_menu i n d) = accounts d" "role_assignments (refresh_menu i n d) = role_assignments d"
  by (simp_all add: refresh_menu_def)

lemma refresh_menu_same [simp]:
  "roles_wf (refresh_menu i n d) = roles_wf d" "owners (refresh_menu i n d) = owners d" "only_account j e (refresh_menu i n d) = only_account j e d"
  using roles_wf_cong [of "refresh_menu i n d" d] owners_cong [of "refresh_menu i n d" d] by (simp_all add: only_account_def)

text \<open>The guards of an update leave an owner in every case.\<close>

lemma sole_owner_row:
  assumes "roles_wf d" and "row \<in> set (accounts d)" and "1 \<le> owners d"
    and "\<not> (\<exists>a \<in> set (accounts d). is_owner_row d a \<and> acc_id a \<noteq> acc_id row)"
  shows "is_owner_row d row \<and> owners d \<le> 1"
proof -
  from assms(3) obtain a where a: "a \<in> set (accounts d)" "is_owner_row d a" unfolding owners_pos_iff by blast
  with assms(4) have "acc_id a = acc_id row" by blast
  with a(1) assms(1,2) have "a = row"
    by (intro distinct_keyD [of acc_id "accounts d"]) (auto simp: roles_wf_def)
  moreover have "owners d \<le> 1"
    using assms(1,4) by (intro sole_owner_count [of d "acc_id row"]) (auto simp: roles_wf_def)
  ultimately show ?thesis using a(2) by blast
qed

lemma other_owner_stays:
  assumes "only_account i d d'" and "a \<in> set (accounts d)" and "is_owner_row d a" and "acc_id a \<noteq> i"
  shows "1 \<le> owners d'"
  unfolding owners_pos_iff
  using assms is_owner_row_only_account [OF assms(1,4)] by (auto simp: only_account_def)

text \<open>An accepted update changed nothing, the roles, or the role or status.\<close>

lemma apply_updateE:
  assumes "apply_update actor row nr ns roles n d = Inr d'"
  obtains (same) "d' = d" "nr = acc_role row" "ns = acc_status row"
  | (roles) e where "change_roles (acc_id row) (the roles) d = Inr e" "d' = refresh_menu (acc_id row) (n + 1) e" "roles_changed d row roles"
      "\<not> (loses_owner d row roles \<and> owners d \<le> 1)" "nr = acc_role row" "ns = acc_status row"
  | (state) e where "change_state actor row nr ns roles d = Inr e" "d' = refresh_menu (acc_id row) (n + 1) e" "\<not> (nr = acc_role row \<and> ns = acc_status row)"
proof (cases "nr = acc_role row \<and> ns = acc_status row")
  case True
  show ?thesis
  proof (cases "roles_changed d row roles")
    case rc: True
    with True assms obtain e where "change_roles (acc_id row) (the roles) d = Inr e" "d' = refresh_menu (acc_id row) (n + 1) e"
      "\<not> (loses_owner d row roles \<and> owners d \<le> 1)" unfolding apply_update_def by (auto simp: res_bind_Inr_iff)
    with roles True rc show ?thesis by blast
  next
    case False
    with True assms same show ?thesis unfolding apply_update_def by simp
  qed
next
  case False
  then obtain e where "change_state actor row nr ns roles d = Inr e" "d' = refresh_menu (acc_id row) (n + 1) e"
    using assms unfolding apply_update_def by (auto simp: res_bind_Inr_iff)
  with state False show ?thesis by blast
qed

lemma apply_update_only_account: "apply_update actor row nr ns roles n d = Inr d' \<Longrightarrow> only_account (acc_id row) d d'"
  by (erule apply_updateE) (simp_all add: only_account_refl change_roles_only_account change_state_only_account)

lemma change_roles_wf:
  assumes "change_roles i rs d = Inr e" and "roles_wf d" shows "roles_wf e"
proof -
  obtain e1 where e: "assign_roles i (set rs) d = Inr e1" "e = bump_revision i e1" using change_rolesD [OF assms(1)] by blast
  have "roles_wf e1" using assms(2) by (intro assign_roles_wf [OF e(1)]) (auto simp: roles_wf_def)
  with e(2) bump_revision_wf show ?thesis by blast
qed

lemma apply_update_wf:
  assumes "apply_update actor row nr ns roles n d = Inr d'" and "roles_wf d" and "row \<in> set (accounts d)"
  shows "roles_wf d'"
  using assms by (elim apply_updateE) (simp_all add: change_roles_wf change_state_wf)

lemma apply_update_owner:
  assumes u: "apply_update actor row nr ns roles n d = Inr d'" and wf: "roles_wf d" and row: "row \<in> set (accounts d)"
    and pos: "1 \<le> owners d"
  shows "1 \<le> owners d'"
proof (cases "\<exists>a \<in> set (accounts d). is_owner_row d a \<and> acc_id a \<noteq> acc_id row")
  case True
  then show ?thesis using other_owner_stays [OF apply_update_only_account [OF u]] by blast
next
  case False
  then have sole: "is_owner_row d row" "owners d \<le> 1" using sole_owner_row [OF wf row pos] by blast+
  have own: "acc_role row = ''admin''" "''owner'' \<in> set (current_roles d row)"
    using owner_row_has_role [OF wf row sole(1)] by simp_all
  have appr: "acc_status row = ''approved''" using sole(1) by (simp add: is_owner_row_def)
  from u show ?thesis
  proof (cases rule: apply_updateE)
    case same
    with pos show ?thesis by simp
  next
    case (roles e)
    then obtain rs where rs: "roles = Some rs" by (auto simp: roles_changed_def split: option.splits)
    with roles(3,4) sole(2) own(2) have "''owner'' \<in> set rs" by (auto simp: loses_owner_def roles_changed_def)
    moreover obtain e1 where e: "assign_roles (acc_id row) (set rs) d = Inr e1" "e = bump_revision (acc_id row) e1"
      using change_rolesD roles(1) rs by fastforce
    ultimately have "1 \<le> owners e1"
      using assigned_owner [OF e(1) _ _ row] appr unfolding owners_pos_iff by blast
    with e(2) roles(2) show ?thesis using bump_revision_owner by simp
  next
    case (state e)
    with change_stateD(2) [OF state(1)] own appr sole(2) show ?thesis by simp
  qed
qed

end
