(* ===== verification/Credentials.thy ===== *)
theory Credentials
  imports Authorization
begin

text \<open>
  \<^verbatim>\<open>app/backend/credentials.py\<close>: bearer credentials. The digest of \<open>hashlib.sha256\<close> is the argument
  \<open>H\<close>; \<open>uuid4().hex\<close> and \<open>secrets.token_urlsafe(32)\<close> read the streams of the database record.
\<close>

section \<open>Operations\<close>

definition PERMISSIONS :: "string set" where
  "PERMISSIONS = SELF_PERMISSIONS \<union> APPROVED_PERMISSIONS \<union> ADMIN_PERMISSIONS \<union> ROLE_PERMISSIONS"

definition ADAPTER_SCOPES :: "string set" where
  "ADAPTER_SCOPES = PERMISSIONS \<union> {''identity.telegram.resolve'', ''delegate.telegram''}"

definition urlsafe_char :: "char \<Rightarrow> bool" where
  "urlsafe_char c = (ascii_digit c \<or> ascii_alpha c \<or> c = CHR ''_'' \<or> c = CHR ''-'')"

text \<open>The shape of a token, \<open><prefix>([a-f0-9]{32})\.([A-Za-z0-9_-]{43})\Z\<close>; the value is the first group.\<close>

definition token_match :: "string \<Rightarrow> string \<Rightarrow> string option" where
  "token_match prefix s = (if starts_with prefix s then
     (let r = drop (length prefix) s in
      if length r = 76 \<and> list_all lower_hex_digit (take 32 r) \<and> r ! 32 = CHR ''.'' \<and> list_all urlsafe_char (drop 33 r)
      then Some (take 32 r) else None) else None)"

definition TOKEN_PREFIX :: string where "TOKEN_PREFIX = ''np_''"

text \<open>\<open>f'<prefix><id>.<secret>'\<close>.\<close>

definition make_token :: "string \<Rightarrow> string \<Rightarrow> string \<Rightarrow> string" where
  "make_token prefix i secret = prefix @ i @ ''.'' @ secret"

definition kind_value :: "principal_kind \<Rightarrow> string" where
  "kind_value k = (case k of ACCOUNT \<Rightarrow> ''account'' | ADAPTER \<Rightarrow> ''adapter'' | SERVICE \<Rightarrow> ''service'')"

definition parse_kind :: "string \<Rightarrow> principal_kind option" where
  "parse_kind s = (if s = ''account'' then Some ACCOUNT else if s = ''adapter'' then Some ADAPTER
     else if s = ''service'' then Some SERVICE else None)"

definition allowed_scopes :: "principal_kind \<Rightarrow> string set" where
  "allowed_scopes kind = (if kind = ADAPTER then ADAPTER_SCOPES else PERMISSIONS)"

definition truthy_str :: "string option \<Rightarrow> bool" where
  "truthy_str s = (case s of None \<Rightarrow> False | Some t \<Rightarrow> t \<noteq> [])"

definition draw_hex :: "auth_db \<Rightarrow> string \<times> auth_db" where
  "draw_hex d = (au_hex d (au_drawn d), d\<lparr>au_drawn := Suc (au_drawn d)\<rparr>)"

definition draw_secret :: "auth_db \<Rightarrow> string \<times> auth_db" where
  "draw_secret d = (au_secret d (au_drawn d), d\<lparr>au_drawn := Suc (au_drawn d)\<rparr>)"

definition insert_credential :: "credential_row \<Rightarrow> auth_db \<Rightarrow> auth_db" where
  "insert_credential r d = d\<lparr>au_credentials := au_credentials d @ [r]\<rparr>"

text \<open>\<open>CredentialService.issue\<close>; the result is the id and the token. Time stamps are aware.\<close>

definition issue_credential ::
  "(string \<Rightarrow> string) \<Rightarrow> principal_kind \<Rightarrow> string list \<Rightarrow> string option \<Rightarrow> int \<Rightarrow> instant \<Rightarrow> auth_db
   \<Rightarrow> (auth_db \<times> string \<times> string) tx" where
  "issue_credential H kind scopes account_id ttl now d =
     guard (scopes \<noteq> [] \<and> set scopes \<subseteq> allowed_scopes kind) (ValueError ''invalid credential scopes'')
     (guard (0 < ttl \<and> ttl \<le> 365 * day) (ValueError ''credential lifetime must be within 365 days'')
     (guard ((kind = ACCOUNT) = truthy_str account_id) (ValueError ''only account credentials require account_id'')
     (let (token_id, d1) = draw_hex d;
          (secret, d2) = draw_secret d1;
          token = make_token TOKEN_PREFIX token_id secret
      in guard (case account_id of None \<Rightarrow> True | Some a \<Rightarrow> a = [] \<or> (\<exists>r \<in> set (au_accounts d). acc_id r = a))
           (ValueError ''account does not exist'')
           (Inr (insert_credential \<lparr>cr_id = token_id, cr_secret_hash = H token, cr_kind = kind_value kind,
                   cr_account = account_id, cr_scopes = sorted_list_of_set (set scopes), cr_created_at = now,
                   cr_expires_at = now + ttl, cr_revoked_at = None, cr_session = None\<rparr> d2,
                 token_id, token)))))"

definition invalid_credentials :: error where
  "invalid_credentials = AccessDenied ''invalid_credentials'' 401"

text \<open>A workstation key that was revoked, or that belongs to another account, refuses its credential.\<close>

definition binding_ok :: "auth_db \<Rightarrow> credential_row \<Rightarrow> bool" where
  "binding_ok d r = (case find (\<lambda>b. kb_credential b = cr_id r) (au_bindings d) of
     None \<Rightarrow> True
   | Some b \<Rightarrow> \<not> kb_revoked b \<and> Some (kb_account b) = cr_account r)"

definition authenticate ::
  "(string \<Rightarrow> string) \<Rightarrow> string option \<Rightarrow> instant \<Rightarrow> auth_db \<Rightarrow> principal tx" where
  "authenticate H header now d = (case header of
     None \<Rightarrow> Inl invalid_credentials
   | Some authorization \<Rightarrow>
       guard (starts_with ''Bearer '' authorization) invalid_credentials
       (let token = drop 7 authorization in
        case token_match TOKEN_PREFIX token of
          None \<Rightarrow> Inl invalid_credentials
        | Some i \<Rightarrow> (case find (\<lambda>r. cr_id r = i) (au_credentials d) of
            None \<Rightarrow> Inl invalid_credentials
          | Some r \<Rightarrow>
              guard (cr_secret_hash r = H token) invalid_credentials
              (guard (cr_revoked_at r = None) invalid_credentials
              (guard (binding_ok d r) invalid_credentials
              (case parse_kind (cr_kind r) of
                 None \<Rightarrow> Inl invalid_credentials
               | Some kind \<Rightarrow>
                   guard (cr_scopes r \<noteq> [] \<and> set (cr_scopes r) \<subseteq> allowed_scopes kind) invalid_credentials
                   (guard ((kind = ACCOUNT) = truthy_str (cr_account r)) invalid_credentials
                   (guard (\<not> cr_expires_at r \<le> now) invalid_credentials
                     (Inr \<lparr>pr_id = cr_id r, pr_kind = kind, pr_scopes = set (cr_scopes r),
                            pr_account_id = cr_account r\<rparr>)))))))))"

definition revoke_credential :: "string \<Rightarrow> instant \<Rightarrow> auth_db \<Rightarrow> auth_db \<times> bool" where
  "revoke_credential token_id now d = (case find (\<lambda>r. cr_id r = token_id) (au_credentials d) of
     None \<Rightarrow> (d, False)
   | Some _ \<Rightarrow> (d\<lparr>au_credentials := update_where (\<lambda>r. cr_id r = token_id) (\<lambda>r. r\<lparr>cr_revoked_at := Some now\<rparr>)
                    (au_credentials d)\<rparr>, True))"

section \<open>Lemmas\<close>

lemma starts_with_append [simp]: "starts_with p (p @ s)"
  by (induction p) auto

lemma starts_with_iff: "starts_with p s \<longleftrightarrow> (\<exists>t. s = p @ t)"
  by (induction p s rule: starts_with.induct) auto

text \<open>What the random generators return: 32 lower-case hexadecimal digits, 43 URL-safe characters.\<close>

definition hex_shape :: "string \<Rightarrow> bool" where
  "hex_shape i = (length i = 32 \<and> list_all lower_hex_digit i)"

definition secret_shape :: "string \<Rightarrow> bool" where
  "secret_shape s = (length s = 43 \<and> list_all urlsafe_char s)"

lemma token_match_make:
  assumes "hex_shape i" and "secret_shape s"
  shows "token_match p (make_token p i s) = Some i"
  using assms by (simp add: token_match_def make_token_def hex_shape_def secret_shape_def nth_append)

lemma token_match_iff:
  "token_match p t = Some i \<longleftrightarrow> (\<exists>s. t = make_token p i s \<and> hex_shape i \<and> secret_shape s)"
proof
  assume m: "token_match p t = Some i"
  then obtain r where t: "t = p @ r" by (auto simp: token_match_def starts_with_iff split: if_splits)
  with m have r: "length r = 76" "list_all lower_hex_digit (take 32 r)" "r ! 32 = CHR ''.''"
    "list_all urlsafe_char (drop 33 r)" "i = take 32 r"
    by (auto simp: token_match_def Let_def split: if_splits)
  have "r = take 32 r @ r ! 32 # drop (Suc 32) r" by (rule id_take_nth_drop) (simp add: r)
  then have "t = make_token p i (drop 33 r)" using t r by (simp add: make_token_def)
  moreover have "hex_shape i" "secret_shape (drop 33 r)" using r by (auto simp: hex_shape_def secret_shape_def)
  ultimately show "\<exists>s. t = make_token p i s \<and> hex_shape i \<and> secret_shape s" by blast
qed (auto simp: token_match_make)

text \<open>The scopes of a session's access token, sorted once for evaluation.\<close>

lemma sorted_PERMISSIONS [code_unfold]:
  "sorted_list_of_set PERMISSIONS =
     [''access_requests.manage'', ''access_requests.self.create'', ''access_requests.self.read'',
      ''account.self.preferences.write'', ''account.self.read'', ''accounts.manage'',
      ''configs.manage.issue'', ''configs.manage.read'', ''configs.self.issue'', ''configs.self.read'',
      ''diagnostics.sensitive.read'', ''grants.manage'', ''maintenance.manage'', ''nodes.available.read'',
      ''nodes.execute'', ''nodes.inspect'', ''nodes.manage'', ''operations.read'', ''profiles.manage'',
      ''profiles.self.read'', ''roles.manage'', ''settings.manage'']"
  by code_simp

lemma parse_kind_value [simp]: "parse_kind (kind_value k) = Some k"
  by (cases k) (simp_all add: parse_kind_def kind_value_def)

lemma parse_kind_iff: "parse_kind s = Some k \<longleftrightarrow> s = kind_value k"
  by (cases k) (auto simp: parse_kind_def kind_value_def)

section \<open>Properties\<close>

text \<open>The record a presented token has to match.\<close>

definition credential_valid :: "instant \<Rightarrow> auth_db \<Rightarrow> credential_row \<Rightarrow> principal_kind \<Rightarrow> bool" where
  "credential_valid now d r kind = (cr_revoked_at r = None \<and> now < cr_expires_at r \<and> binding_ok d r
     \<and> cr_kind r = kind_value kind \<and> cr_scopes r \<noteq> [] \<and> set (cr_scopes r) \<subseteq> allowed_scopes kind
     \<and> (kind = ACCOUNT) = truthy_str (cr_account r))"

lemma authenticate_ok_iff:
  "authenticate H header now d = Inr p \<longleftrightarrow>
     (\<exists>i s r kind. header = Some (''Bearer '' @ make_token TOKEN_PREFIX i s) \<and> hex_shape i \<and> secret_shape s
        \<and> find (\<lambda>r. cr_id r = i) (au_credentials d) = Some r \<and> cr_secret_hash r = H (make_token TOKEN_PREFIX i s)
        \<and> credential_valid now d r kind
        \<and> p = \<lparr>pr_id = i, pr_kind = kind, pr_scopes = set (cr_scopes r), pr_account_id = cr_account r\<rparr>)"
  (is "?L \<longleftrightarrow> ?R")
proof
  assume ?L
  then obtain a i r kind where h: "header = Some a" and a: "starts_with ''Bearer '' a"
    and i: "token_match TOKEN_PREFIX (drop 7 a) = Some i" and r: "find (\<lambda>r. cr_id r = i) (au_credentials d) = Some r"
    and c: "cr_secret_hash r = H (drop 7 a)" "credential_valid now d r kind"
    and p: "p = \<lparr>pr_id = cr_id r, pr_kind = kind, pr_scopes = set (cr_scopes r), pr_account_id = cr_account r\<rparr>"
    by (auto simp: authenticate_def Let_def credential_valid_def parse_kind_iff split: option.splits)
  from i obtain s where s: "drop 7 a = make_token TOKEN_PREFIX i s" "hex_shape i" "secret_shape s"
    by (auto simp: token_match_iff)
  from a have "a = ''Bearer '' @ drop 7 a" by (auto simp: starts_with_iff)
  moreover have "cr_id r = i" using find_Some_iff [OF r] by simp
  ultimately show ?R using h r c p s by auto
next
  assume ?R
  then obtain i s r kind where h: "header = Some (''Bearer '' @ make_token TOKEN_PREFIX i s)"
    and t: "hex_shape i" "secret_shape s"
    and r: "find (\<lambda>r. cr_id r = i) (au_credentials d) = Some r" "cr_secret_hash r = H (make_token TOKEN_PREFIX i s)"
    and v: "credential_valid now d r kind"
    and p: "p = \<lparr>pr_id = i, pr_kind = kind, pr_scopes = set (cr_scopes r), pr_account_id = cr_account r\<rparr>"
    by blast
  have "cr_id r = i" using find_Some_iff [OF r(1)] by simp
  with r v p token_match_make [OF t] show ?L unfolding h
    by (simp add: authenticate_def credential_valid_def parse_kind_iff)
qed

lemma guard_error: "is_ok k \<or> k = Inl e \<Longrightarrow> is_ok (guard c e k) \<or> guard c e k = Inl e"
  by (simp add: guard_def)

lemma option_error:
  "(\<And>y. is_ok (f y) \<or> f y = Inl e) \<Longrightarrow>
     is_ok (case x of None \<Rightarrow> Inl e | Some y \<Rightarrow> f y) \<or> (case x of None \<Rightarrow> Inl e | Some y \<Rightarrow> f y) = Inl e"
  by (cases x) simp_all

lemma authenticate_error: "is_ok (authenticate H header now d) \<or> authenticate H header now d = Inl invalid_credentials"
  unfolding authenticate_def Let_def
  by (intro guard_error option_error | simp)+

text \<open>A request is authenticated exactly when it presents \<open>Bearer\<close> and a well-formed token whose
  identifier names a stored record with that token's digest, not revoked, not expired, not bound to a
  revoked or foreign key, and with a consistent kind, account and scopes; the principal carries the
  record's fields. Every other request fails with the same error.\<close>

theorem authenticate_iff:
  "(authenticate H header now d = Inr p \<longleftrightarrow>
     (\<exists>i s r kind. header = Some (''Bearer '' @ make_token TOKEN_PREFIX i s) \<and> hex_shape i \<and> secret_shape s
        \<and> find (\<lambda>r. cr_id r = i) (au_credentials d) = Some r \<and> cr_secret_hash r = H (make_token TOKEN_PREFIX i s)
        \<and> credential_valid now d r kind
        \<and> p = \<lparr>pr_id = i, pr_kind = kind, pr_scopes = set (cr_scopes r), pr_account_id = cr_account r\<rparr>))
   \<and> (is_ok (authenticate H header now d) \<or> authenticate H header now d = Inl invalid_credentials)"
  by (rule conjI [OF authenticate_ok_iff authenticate_error])

end
