(* ===== verification/Sessions.thy ===== *)
theory Sessions
  imports Credentials Logins
begin

text \<open>
  \<^verbatim>\<open>app/backend/sessions.py\<close>: passwords, sign-in with its limits, and sessions with rotating refresh
  tokens. The cryptography is a parameter: \<open>sha\<close> is \<open>hashlib.sha256(...).hexdigest()\<close>, and the three
  \<open>pw_\<close> fields are \<open>argon2.PasswordHasher\<close>, whose hash takes the salt it draws as an argument.

  \<open>sign_in\<close> and \<open>refresh\<close> open their own transaction and raise after it has been committed, so they
  return the database together with their result.
\<close>

section \<open>Operations\<close>

record crypto =
  sha :: "string \<Rightarrow> string"
  pw_verify :: "string \<Rightarrow> string \<Rightarrow> bool"
  pw_hash :: "nat \<Rightarrow> string \<Rightarrow> string"
  pw_needs_rehash :: "string \<Rightarrow> bool"

definition ACCESS_TTL :: int where "ACCESS_TTL = 15 * minute"
definition IDLE_TTL :: int where "IDLE_TTL = 30 * day"
definition WINDOW :: int where "WINDOW = 15 * minute"
definition LOGIN_FAILURES :: nat where "LOGIN_FAILURES = 5"
definition SOURCE_FAILURES :: nat where "SOURCE_FAILURES = 30"
definition DEVICE_LENGTH :: nat where "DEVICE_LENGTH = 128"
definition REFRESH_PREFIX :: string where "REFRESH_PREFIX = ''nps_''"

definition checked_password :: "pyval \<Rightarrow> string option \<Rightarrow> string tx" where
  "checked_password v login = (case v of
     PStr password \<Rightarrow>
       guard (10 \<le> length password \<and> length password \<le> 256) (AccessDenied ''password_invalid'' 422)
       (guard (\<not> (case login of None \<Rightarrow> False | Some l \<Rightarrow> l \<noteq> [] \<and> lower password = lower l))
         (AccessDenied ''password_invalid'' 422) (Inr password))
   | _ \<Rightarrow> Inl (AccessDenied ''password_invalid'' 422))"

definition has_password :: "auth_db \<Rightarrow> string \<Rightarrow> bool" where
  "has_password d account_id = (map_of (au_passwords d) account_id \<noteq> None)"

definition failures :: "auth_db \<Rightarrow> string \<Rightarrow> instant \<Rightarrow> nat" where
  "failures d scope now = length (filter (\<lambda>a. fst a = scope \<and> snd a > now - WINDOW) (au_attempts d))"

definition issue_access :: "crypto \<Rightarrow> string \<Rightarrow> string \<Rightarrow> instant \<Rightarrow> auth_db \<Rightarrow> auth_db \<times> string \<times> instant" where
  "issue_access k account_id session_id now d =
     (let (token_id, d1) = draw_hex d;
          (secret, d2) = draw_secret d1;
          token = make_token TOKEN_PREFIX token_id secret
      in (insert_credential \<lparr>cr_id = token_id, cr_secret_hash = sha k token, cr_kind = kind_value ACCOUNT,
            cr_account = Some account_id, cr_scopes = sorted_list_of_set PERMISSIONS, cr_created_at = now,
            cr_expires_at = now + ACCESS_TTL, cr_revoked_at = None, cr_session = Some session_id\<rparr> d2,
          token, now + ACCESS_TTL))"

record tokens =
  to_session_id :: string
  to_access_token :: string
  to_access_expires_at :: instant
  to_refresh_token :: string
  to_refresh_expires_at :: instant

definition new_tokens :: "crypto \<Rightarrow> string \<Rightarrow> string \<Rightarrow> instant \<Rightarrow> auth_db \<Rightarrow> auth_db \<times> tokens \<times> string \<times> instant" where
  "new_tokens k session_id account_id now d =
     (let (d1, access, access_expires) = issue_access k account_id session_id now d;
          (secret, d2) = draw_secret d1;
          refresh = make_token REFRESH_PREFIX session_id secret;
          expires = now + IDLE_TTL
      in (d2, \<lparr>to_session_id = session_id, to_access_token = access, to_access_expires_at = access_expires,
               to_refresh_token = refresh, to_refresh_expires_at = expires\<rparr>, sha k refresh, expires))"

definition device_name :: "string option \<Rightarrow> string" where
  "device_name device =
     (let name = take DEVICE_LENGTH (strip (case device of None \<Rightarrow> [] | Some s \<Rightarrow> s))
      in if name = [] then ''Unknown device'' else name)"

definition open_session ::
  "crypto \<Rightarrow> string \<Rightarrow> string \<Rightarrow> string option \<Rightarrow> instant \<Rightarrow> auth_db \<Rightarrow> auth_db \<times> tokens" where
  "open_session k account_id method device now d =
     (let (session_id, d1) = draw_hex d;
          (d2, result, refresh_hash, expires) = new_tokens k session_id account_id now d1
      in (d2\<lparr>au_sessions := au_sessions d2 @ [\<lparr>ss_id = session_id, ss_account = account_id, ss_method = method,
            ss_device = device_name device, ss_refresh_hash = refresh_hash, ss_previous_hash = None,
            ss_created_at = now, ss_used_at = now, ss_expires_at = expires, ss_revoked_at = None\<rparr>]\<rparr>, result))"

text \<open>\<open>ACTIVE_ACCOUNT_SQL\<close>.\<close>

definition active_account :: "auth_db \<Rightarrow> string \<Rightarrow> bool" where
  "active_account d account_id =
     ((\<exists>a \<in> set (au_accounts d). acc_id a = account_id \<and> acc_status a = ''approved'')
      \<and> account_id \<notin> set (au_account_deletions d))"

definition failure_limit :: "string \<Rightarrow> nat" where
  "failure_limit scope =
     (if starts_with ''login:'' scope \<or> starts_with ''confirm:'' scope then LOGIN_FAILURES else SOURCE_FAILURES)"

definition rate_limited :: error where
  "rate_limited = AccessDenied ''sign_in_rate_limited'' 429"

definition limited :: "auth_db \<Rightarrow> string list \<Rightarrow> instant \<Rightarrow> unit tx" where
  "limited d scopes now =
     guard (\<forall>scope \<in> set scopes. failures d scope now < failure_limit scope) rate_limited (Inr ())"

definition failed :: "string list \<Rightarrow> instant \<Rightarrow> auth_db \<Rightarrow> auth_db" where
  "failed scopes now d = d\<lparr>au_attempts :=
     filter (\<lambda>a. \<not> snd a \<le> now - WINDOW) (au_attempts d @ map (\<lambda>scope. (scope, now)) scopes)\<rparr>"

definition source_scope :: "string option \<Rightarrow> string" where
  "source_scope source = ''source:'' @ (case source of None \<Rightarrow> ''unknown'' | Some s \<Rightarrow> if s = [] then ''unknown'' else s)"

definition sign_in_key :: "pyval \<Rightarrow> string" where
  "sign_in_key login = (case login of PStr s \<Rightarrow> if length s \<le> 32 then lower s else [] | _ \<Rightarrow> [])"

text \<open>The account that currently holds the login, may sign in and has a password, with its hash.\<close>

definition password_of_login :: "auth_db \<Rightarrow> string \<Rightarrow> (string \<times> string) option" where
  "password_of_login d key =
     (if key = [] then None
      else case find (\<lambda>l. lg_key l = key \<and> lg_released_at l = None) (au_logins d) of
        None \<Rightarrow> None
      | Some l \<Rightarrow> if active_account d (lg_account l)
          then map_option (Pair (lg_account l)) (map_of (au_passwords d) (lg_account l)) else None)"

definition rehash :: "crypto \<Rightarrow> string \<Rightarrow> string \<Rightarrow> string \<Rightarrow> auth_db \<Rightarrow> auth_db" where
  "rehash k account_id stored password d =
     (if pw_needs_rehash k stored
      then d\<lparr>au_passwords := dict_set account_id (pw_hash k (au_drawn d) password) (au_passwords d),
             au_drawn := Suc (au_drawn d)\<rparr>
      else d)"

text \<open>Without a row the stored hash is \<open>_DUMMY\<close>, whose verification is only there to take its time.\<close>

definition sign_in ::
  "crypto \<Rightarrow> pyval \<Rightarrow> pyval \<Rightarrow> string option \<Rightarrow> string option \<Rightarrow> instant \<Rightarrow> auth_db \<Rightarrow> auth_db \<times> tokens tx" where
  "sign_in k login password device source now d =
     (let key = sign_in_key login;
          scopes = [''login:'' @ key, source_scope source];
          typed = (case password of PStr s \<Rightarrow> s | _ \<Rightarrow> [])
      in case limited d scopes now of
        Inl e \<Rightarrow> (d, Inl e)
      | Inr _ \<Rightarrow> (case password_of_login d key of
          None \<Rightarrow> (failed scopes now d, Inl (AccessDenied ''sign_in_failed'' 401))
        | Some (account_id, stored) \<Rightarrow>
            if \<not> pw_verify k stored typed
            then (failed scopes now d, Inl (AccessDenied ''sign_in_failed'' 401))
            else
              (let d1 = rehash k account_id stored typed d;
                   d2 = d1\<lparr>au_attempts := filter (\<lambda>a. fst a \<noteq> ''login:'' @ key) (au_attempts d1)\<rparr>;
                   (d3, result) = open_session k account_id ''password'' device now d2
               in (d3, Inr result))))"

text \<open>\<open>_revoke\<close>.\<close>

definition revoke_session :: "string \<Rightarrow> instant \<Rightarrow> auth_db \<Rightarrow> auth_db" where
  "revoke_session session_id now d = d\<lparr>
     au_sessions := update_where (\<lambda>r. ss_id r = session_id \<and> ss_revoked_at r = None)
       (\<lambda>r. r\<lparr>ss_revoked_at := Some now\<rparr>) (au_sessions d),
     au_credentials := update_where (\<lambda>r. cr_session r = Some session_id \<and> cr_revoked_at r = None)
       (\<lambda>r. r\<lparr>cr_revoked_at := Some now\<rparr>) (au_credentials d)\<rparr>"

text \<open>The branch of \<open>refresh\<close> that replaces both tokens.\<close>

definition rotate :: "crypto \<Rightarrow> session_row \<Rightarrow> instant \<Rightarrow> auth_db \<Rightarrow> auth_db \<times> tokens" where
  "rotate k row now d =
     (let d1 = d\<lparr>au_credentials :=
                  filter (\<lambda>c. \<not> (cr_session c = Some (ss_id row) \<and> cr_expires_at c \<le> now)) (au_credentials d)\<rparr>;
          (d2, result, refresh_hash, expires) = new_tokens k (ss_id row) (ss_account row) now d1
      in (d2\<lparr>au_sessions := update_where (\<lambda>r. ss_id r = ss_id row)
            (\<lambda>r. r\<lparr>ss_previous_hash := Some (ss_refresh_hash r), ss_refresh_hash := refresh_hash,
                   ss_used_at := now, ss_expires_at := expires\<rparr>) (au_sessions d2)\<rparr>, result))"

definition refresh :: "crypto \<Rightarrow> pyval \<Rightarrow> instant \<Rightarrow> auth_db \<Rightarrow> auth_db \<times> tokens tx" where
  "refresh k v now d = (case v of
     PStr token \<Rightarrow> (case token_match REFRESH_PREFIX token of
        None \<Rightarrow> (d, Inl invalid_credentials)
      | Some session_id \<Rightarrow> (case find (\<lambda>r. ss_id r = session_id) (au_sessions d) of
          None \<Rightarrow> (d, Inl invalid_credentials)
        | Some row \<Rightarrow>
            if ss_revoked_at row \<noteq> None \<or> ss_expires_at row \<le> now then (d, Inl invalid_credentials)
            else if truthy_str (ss_previous_hash row) \<and> ss_previous_hash row = Some (sha k token)
            then (revoke_session (ss_id row) now d, Inl (AccessDenied ''session_revoked'' 401))
            else if ss_refresh_hash row \<noteq> sha k token then (d, Inl invalid_credentials)
            else (let (d1, result) = rotate k row now d in (d1, Inr result))))
   | _ \<Rightarrow> (d, Inl invalid_credentials))"

definition revoke :: "string \<Rightarrow> string \<Rightarrow> instant \<Rightarrow> auth_db \<Rightarrow> auth_db tx" where
  "revoke account_id session_id now d =
     guard (\<exists>r \<in> set (au_sessions d). ss_id r = session_id \<and> ss_account r = account_id \<and> ss_revoked_at r = None)
       (AccessDenied ''resource_not_found'' 404) (Inr (revoke_session session_id now d))"

definition open_sessions :: "auth_db \<Rightarrow> string \<Rightarrow> string list" where
  "open_sessions d account_id =
     map ss_id (filter (\<lambda>r. ss_account r = account_id \<and> ss_revoked_at r = None) (au_sessions d))"

definition revoke_all :: "string \<Rightarrow> string option \<Rightarrow> instant \<Rightarrow> auth_db \<Rightarrow> auth_db" where
  "revoke_all account_id keep now d =
     fold (\<lambda>i. if Some i \<noteq> keep then revoke_session i now else id) (open_sessions d account_id) d"

definition set_password ::
  "crypto \<Rightarrow> string \<Rightarrow> pyval \<Rightarrow> pyval \<Rightarrow> string option \<Rightarrow> instant \<Rightarrow> auth_db \<Rightarrow> auth_db tx" where
  "set_password k account_id v current keep_session now d =
     res_bind (checked_password v (current_login d account_id)) (\<lambda>password.
     (let row = map_of (au_passwords d) account_id;
          d1 = d\<lparr>au_passwords := dict_set account_id (pw_hash k (au_drawn d) password) (au_passwords d),
                 au_drawn := Suc (au_drawn d)\<rparr>
      in case row of
        None \<Rightarrow> Inr d1
      | Some stored \<Rightarrow>
          guard (case current of PStr s \<Rightarrow> pw_verify k stored s | _ \<Rightarrow> False)
            (AccessDenied ''password_incorrect'' 403)
            (Inr (revoke_all account_id keep_session now d1))))"

definition current_session :: "auth_db \<Rightarrow> string \<Rightarrow> string option" where
  "current_session d credential_id =
     (case find (\<lambda>r. cr_id r = credential_id) (au_credentials d) of None \<Rightarrow> None | Some r \<Rightarrow> cr_session r)"

text \<open>\<open>listed\<close>: the open sessions, last used first, each with whether it is the current one.\<close>

definition listed :: "auth_db \<Rightarrow> string \<Rightarrow> string option \<Rightarrow> instant \<Rightarrow> (session_row \<times> bool) list" where
  "listed d account_id current now =
     map (\<lambda>r. (r, Some (ss_id r) = current))
       (order_by (\<lambda>r. - ss_used_at r)
         (filter (\<lambda>r. ss_account r = account_id \<and> ss_revoked_at r = None \<and> ss_expires_at r > now) (au_sessions d)))"

section \<open>Effects of the operations\<close>

text \<open>The credential that \<open>issue_access\<close> stores.\<close>

definition access_row :: "crypto \<Rightarrow> string \<Rightarrow> string \<Rightarrow> instant \<Rightarrow> auth_db \<Rightarrow> credential_row" where
  "access_row k account_id session_id now d =
     \<lparr>cr_id = au_hex d (au_drawn d),
      cr_secret_hash = sha k (make_token TOKEN_PREFIX (au_hex d (au_drawn d)) (au_secret d (Suc (au_drawn d)))),
      cr_kind = kind_value ACCOUNT, cr_account = Some account_id, cr_scopes = sorted_list_of_set PERMISSIONS,
      cr_created_at = now, cr_expires_at = now + ACCESS_TTL, cr_revoked_at = None, cr_session = Some session_id\<rparr>"

definition refresh_token_at :: "string \<Rightarrow> auth_db \<Rightarrow> string" where
  "refresh_token_at session_id d = make_token REFRESH_PREFIX session_id (au_secret d (Suc (Suc (au_drawn d))))"

lemma new_tokens_eq:
  "new_tokens k session_id account_id now d =
     (d\<lparr>au_credentials := au_credentials d @ [access_row k account_id session_id now d],
        au_drawn := Suc (Suc (Suc (au_drawn d)))\<rparr>,
      \<lparr>to_session_id = session_id,
       to_access_token = make_token TOKEN_PREFIX (au_hex d (au_drawn d)) (au_secret d (Suc (au_drawn d))),
       to_access_expires_at = now + ACCESS_TTL,
       to_refresh_token = refresh_token_at session_id d,
       to_refresh_expires_at = now + IDLE_TTL\<rparr>,
      sha k (refresh_token_at session_id d), now + IDLE_TTL)"
  by (simp add: Let_def new_tokens_def issue_access_def draw_hex_def draw_secret_def insert_credential_def
      access_row_def refresh_token_at_def)

definition live_credential :: "string \<Rightarrow> instant \<Rightarrow> credential_row \<Rightarrow> bool" where
  "live_credential session_id now c = (\<not> (cr_session c = Some session_id \<and> cr_expires_at c \<le> now))"

definition rotated_row :: "crypto \<Rightarrow> instant \<Rightarrow> auth_db \<Rightarrow> session_row \<Rightarrow> session_row" where
  "rotated_row k now d r = r\<lparr>ss_previous_hash := Some (ss_refresh_hash r),
     ss_refresh_hash := sha k (refresh_token_at (ss_id r) d), ss_used_at := now, ss_expires_at := now + IDLE_TTL\<rparr>"

lemma rotate_sessions:
  "au_sessions (fst (rotate k row now d)) =
     update_where (\<lambda>r. ss_id r = ss_id row) (rotated_row k now d) (au_sessions d)"
  by (simp add: Let_def rotate_def new_tokens_eq rotated_row_def refresh_token_at_def update_where_def cong: if_cong)

lemma rotate_credentials:
  "au_credentials (fst (rotate k row now d)) =
     filter (live_credential (ss_id row) now) (au_credentials d) @ [access_row k (ss_account row) (ss_id row) now d]"
  by (simp add: Let_def rotate_def new_tokens_eq access_row_def live_credential_def [abs_def])

lemma rotate_other:
  "au_hex (fst (rotate k row now d)) = au_hex d"
  "au_drawn (fst (rotate k row now d)) = Suc (Suc (Suc (au_drawn d)))"
  "to_session_id (snd (rotate k row now d)) = ss_id row"
  "to_refresh_token (snd (rotate k row now d)) = refresh_token_at (ss_id row) d"
  by (simp_all add: Let_def rotate_def new_tokens_eq refresh_token_at_def)

lemma open_session_eq:
  "open_session k account_id method device now d =
     (let i = au_hex d (au_drawn d); e = d\<lparr>au_drawn := Suc (au_drawn d)\<rparr> in
      (e\<lparr>au_credentials := au_credentials d @ [access_row k account_id i now e],
         au_drawn := Suc (Suc (Suc (au_drawn e))),
         au_sessions := au_sessions d @ [\<lparr>ss_id = i, ss_account = account_id, ss_method = method,
            ss_device = device_name device, ss_refresh_hash = sha k (refresh_token_at i e), ss_previous_hash = None,
            ss_created_at = now, ss_used_at = now, ss_expires_at = now + IDLE_TTL, ss_revoked_at = None\<rparr>]\<rparr>,
       fst (snd (new_tokens k i account_id now e))))"
  by (simp add: open_session_def new_tokens_eq draw_hex_def Let_def)

lemma revoke_session_find:
  "find (\<lambda>r. ss_id r = i) (au_sessions (revoke_session j now d)) =
     map_option (\<lambda>r. if ss_id r = j \<and> ss_revoked_at r = None then r\<lparr>ss_revoked_at := Some now\<rparr> else r)
       (find (\<lambda>r. ss_id r = i) (au_sessions d))"
  by (simp add: revoke_session_def find_update_where)

section \<open>Ended sessions\<close>

text \<open>A session that has been ended: its row is revoked and so is every access token issued for it.\<close>

definition credentials_ended :: "auth_db \<Rightarrow> string \<Rightarrow> bool" where
  "credentials_ended d session_id = (\<forall>c \<in> set (au_credentials d). cr_session c = Some session_id \<longrightarrow> cr_revoked_at c \<noteq> None)"

definition session_ended :: "auth_db \<Rightarrow> string \<Rightarrow> bool" where
  "session_ended d session_id =
     ((case find (\<lambda>r. ss_id r = session_id) (au_sessions d) of None \<Rightarrow> False | Some r \<Rightarrow> ss_revoked_at r \<noteq> None)
      \<and> credentials_ended d session_id)"

lemma credentials_ended_no_auth:
  assumes "credentials_ended d i" and "authenticate H header t d = Inr p"
  shows "current_session d (pr_id p) \<noteq> Some i"
proof -
  from assms(2) obtain j r kind where r: "find (\<lambda>r. cr_id r = j) (au_credentials d) = Some r" "pr_id p = j"
    "credential_valid t d r kind" by (auto simp: authenticate_ok_iff)
  with assms(1) find_Some_iff [OF r(1)] show ?thesis
    by (auto simp: current_session_def credentials_ended_def credential_valid_def)
qed

lemma revoke_session_credentials_ended: "credentials_ended (revoke_session i now d) i"
  by (auto simp: credentials_ended_def revoke_session_def elim!: in_update_whereE)

lemma revoke_session_ends:
  "find (\<lambda>r. ss_id r = i) (au_sessions d) = Some row \<Longrightarrow> session_ended (revoke_session i now d) i"
  using find_Some_iff [of "\<lambda>r. ss_id r = i" "au_sessions d" row]
  by (auto simp: session_ended_def revoke_session_find revoke_session_credentials_ended)

lemma revoke_session_keeps_credentials: "credentials_ended d i \<Longrightarrow> credentials_ended (revoke_session j now d) i"
  by (auto simp: credentials_ended_def revoke_session_def elim!: in_update_whereE)

lemma revoke_session_keeps_ended: "session_ended d i \<Longrightarrow> session_ended (revoke_session j now d) i"
  by (auto simp: session_ended_def revoke_session_find revoke_session_keeps_credentials split: option.splits)

text \<open>No identifier drawn from now on is \<open>i\<close>: \<open>uuid4\<close> does not repeat a value.\<close>

definition unused :: "auth_db \<Rightarrow> string \<Rightarrow> bool" where
  "unused d i = (\<forall>n \<ge> au_drawn d. au_hex d n \<noteq> i)"

text \<open>What an operation that does not touch session \<open>i\<close> keeps.\<close>

definition keeps_ended :: "string \<Rightarrow> auth_db \<Rightarrow> auth_db \<Rightarrow> bool" where
  "keeps_ended i d d' = (unused d i \<and> session_ended d i \<longrightarrow> unused d' i \<and> session_ended d' i)"

lemma unusedI: "unused d i \<Longrightarrow> au_hex d' = au_hex d \<Longrightarrow> au_drawn d \<le> au_drawn d' \<Longrightarrow> unused d' i"
  by (simp add: unused_def)

lemma keeps_ended_frame:
  assumes "au_sessions d' = au_sessions d" and "au_credentials d' = au_credentials d"
    and "au_hex d' = au_hex d" and "au_drawn d \<le> au_drawn d'"
  shows "keeps_ended i d d'"
  using assms unusedI by (auto simp: keeps_ended_def session_ended_def credentials_ended_def)

lemma keeps_ended_trans: "keeps_ended i a b \<Longrightarrow> keeps_ended i b c \<Longrightarrow> keeps_ended i a c"
  by (simp add: keeps_ended_def)

lemma keeps_ended_revoke: "keeps_ended i d (revoke_session j now d)"
  using revoke_session_keeps_ended by (simp add: keeps_ended_def unused_def revoke_session_def)

lemma keeps_ended_fold:
  "(\<And>x d. keeps_ended i d (f x d)) \<Longrightarrow> keeps_ended i d (fold f xs d)"
proof (induction xs arbitrary: d)
  case Nil
  then show ?case by (simp add: keeps_ended_def)
next
  case (Cons x xs)
  then show ?case using keeps_ended_trans [of i d "f x d"] by simp
qed

lemma keeps_ended_revoke_all: "keeps_ended i d (revoke_all a keep now d)"
  unfolding revoke_all_def
  by (rule keeps_ended_fold) (simp add: keeps_ended_revoke, simp add: keeps_ended_def)

lemma open_session_keeps: "keeps_ended i d (fst (open_session k a m dev now d))"
  by (auto simp: keeps_ended_def open_session_eq Let_def session_ended_def credentials_ended_def access_row_def
      find_append unused_def split: option.splits)

lemma sign_in_keeps: "keeps_ended i d (fst (sign_in k l pw dev src now d))"
proof -
  have f: "keeps_ended i d (failed sc now d)" for sc by (rule keeps_ended_frame) (simp_all add: failed_def)
  have s: "keeps_ended i d (fst (open_session k a ''password'' dev now
      ((rehash k a st ty d)\<lparr>au_attempts := at\<rparr>)))" for a st ty at
    by (rule keeps_ended_trans [OF keeps_ended_frame open_session_keeps]) (simp_all add: rehash_def)
  have r: "keeps_ended i d d" by (simp add: keeps_ended_def)
  show ?thesis
    by (simp add: sign_in_def Let_def f s r case_prod_unfold split: sum.split option.split)
qed

lemma rotate_keeps:
  assumes "find (\<lambda>r. ss_id r = j) (au_sessions d) = Some row" and "ss_revoked_at row = None"
  shows "keeps_ended i d (fst (rotate k row now d))"
  unfolding keeps_ended_def
proof
  assume a: "unused d i \<and> session_ended d i"
  have j: "ss_id row = j" using find_Some_iff [OF assms(1)] by simp
  have ne: "i \<noteq> j" using a assms by (auto simp: session_ended_def)
  have "find (\<lambda>r. ss_id r = i) (au_sessions (fst (rotate k row now d))) = find (\<lambda>r. ss_id r = i) (au_sessions d)"
    unfolding rotate_sessions by (rule find_update_where_other) (use ne j in \<open>auto simp: rotated_row_def\<close>)
  moreover have "credentials_ended (fst (rotate k row now d)) i"
    using a ne j by (auto simp: credentials_ended_def rotate_credentials access_row_def session_ended_def)
  ultimately show "unused (fst (rotate k row now d)) i \<and> session_ended (fst (rotate k row now d)) i"
    using a by (simp add: session_ended_def unused_def rotate_other)
qed

lemma sign_in_hex: "au_hex (fst (sign_in k l pw dev src now d)) = au_hex d"
  by (simp add: sign_in_def Let_def failed_def open_session_eq rehash_def case_prod_unfold split: sum.split option.split)

lemma refresh_hex: "au_hex (fst (refresh k v now d)) = au_hex d"
  by (simp add: refresh_def Let_def revoke_session_def rotate_other case_prod_unfold split: pyval.split option.split)

lemma refresh_keeps: "keeps_ended i d (fst (refresh k v now d))"
proof -
  have r: "keeps_ended i d d" by (simp add: keeps_ended_def)
  show ?thesis
    by (auto simp: refresh_def Let_def case_prod_unfold r keeps_ended_revoke rotate_keeps
        split: pyval.split option.split)
qed

definition with_password :: "crypto \<Rightarrow> string \<Rightarrow> string \<Rightarrow> auth_db \<Rightarrow> auth_db" where
  "with_password k a password d = d\<lparr>au_passwords := dict_set a (pw_hash k (au_drawn d) password) (au_passwords d),
     au_drawn := Suc (au_drawn d)\<rparr>"

lemma set_password_change:
  "map_of (au_passwords d) a = Some stored \<Longrightarrow> set_password k a v c keep now d = Inr d' \<Longrightarrow>
     \<exists>pw s. v = PStr pw \<and> c = PStr s \<and> pw_verify k stored s \<and> d' = revoke_all a keep now (with_password k a pw d)"
  by (auto simp: set_password_def res_bind_Inr_iff Let_def checked_password_def with_password_def split: pyval.splits)

lemma set_passwordD:
  assumes "set_password k a v c keep now d = Inr d'"
  obtains pw where "d' = with_password k a pw d \<or> d' = revoke_all a keep now (with_password k a pw d)"
proof (cases "map_of (au_passwords d) a")
  case None
  with assms that show ?thesis by (auto simp: set_password_def res_bind_Inr_iff Let_def with_password_def)
next
  case (Some stored)
  from set_password_change [OF this assms] that show ?thesis by blast
qed

lemma set_password_keeps: "set_password k a v c keep now d = Inr d' \<Longrightarrow> keeps_ended i d d'"
proof -
  assume "set_password k a v c keep now d = Inr d'"
  then obtain pw where e: "d' = with_password k a pw d \<or> d' = revoke_all a keep now (with_password k a pw d)"
    by (rule set_passwordD)
  have k: "keeps_ended i d (with_password k a pw d)" by (rule keeps_ended_frame) (simp_all add: with_password_def)
  from e show ?thesis
  proof
    assume "d' = revoke_all a keep now (with_password k a pw d)"
    with keeps_ended_trans [OF k keeps_ended_revoke_all] show ?thesis by simp
  qed (simp add: k)
qed

section \<open>Refresh tokens\<close>

lemma refreshD:
  assumes "refresh k (PStr token) now d = (d1, Inr tk)"
  obtains i row where "token_match REFRESH_PREFIX token = Some i"
    and "find (\<lambda>r. ss_id r = i) (au_sessions d) = Some row" and "ss_revoked_at row = None"
    and "now < ss_expires_at row" and "ss_refresh_hash row = sha k token" and "rotate k row now d = (d1, tk)"
  using assms that
  by (auto simp: refresh_def Let_def case_prod_unfold split: option.splits if_splits)

lemma rotated_find:
  assumes "find (\<lambda>r. ss_id r = i) (au_sessions d) = Some row" and "rotate k row now d = (d1, tk)"
  shows "find (\<lambda>r. ss_id r = i) (au_sessions d1) = Some (rotated_row k now d row)"
proof -
  have i: "ss_id row = i" using find_Some_iff [OF assms(1)] by simp
  have "au_sessions d1 = update_where (\<lambda>r. ss_id r = ss_id row) (rotated_row k now d) (au_sessions d)"
    using rotate_sessions [of k row now d] assms(2) by simp
  then show ?thesis using assms(1) i by (simp add: find_update_where rotated_row_def)
qed

text \<open>Refreshing chains: the refresh token that a refresh returned is accepted in turn, for as long
  as the session has not been idle for \<open>IDLE_TTL\<close>, and stays with the same session.\<close>

theorem refresh_chain:
  assumes r: "refresh k (PStr token) now d = (d1, Inr tk)" and later: "later < now + IDLE_TTL"
    and distinct: "sha k token \<noteq> sha k (to_refresh_token tk)"
    and secret: "secret_shape (au_secret d (Suc (Suc (au_drawn d))))"
  shows "\<exists>d2 tk2. refresh k (PStr (to_refresh_token tk)) later d1 = (d2, Inr tk2) \<and> to_session_id tk2 = to_session_id tk"
proof -
  from r obtain i row where m: "token_match REFRESH_PREFIX token = Some i"
    and f: "find (\<lambda>r. ss_id r = i) (au_sessions d) = Some row" and n: "ss_revoked_at row = None"
    and h: "ss_refresh_hash row = sha k token" and rot: "rotate k row now d = (d1, tk)"
    by (rule refreshD)
  have i: "ss_id row = i" using find_Some_iff [OF f] by simp
  have tk: "to_session_id tk = i" "to_refresh_token tk = refresh_token_at i d"
    using rotate_other(3,4) [of k row now d] rot i by auto
  have f1: "find (\<lambda>r. ss_id r = i) (au_sessions d1) = Some (rotated_row k now d row)" by (rule rotated_find [OF f rot])
  have hx: "hex_shape i" using m by (auto simp: token_match_iff)
  have m1: "token_match REFRESH_PREFIX (refresh_token_at i d) = Some i"
    unfolding refresh_token_at_def by (rule token_match_make [OF hx secret])
  have "refresh k (PStr (refresh_token_at i d)) later d1 =
      (fst (rotate k (rotated_row k now d row) later d1), Inr (snd (rotate k (rotated_row k now d row) later d1)))"
    using m1 f1 n h i later distinct tk
    by (auto simp: refresh_def rotated_row_def truthy_str_def case_prod_unfold Let_def)
  then show ?thesis using tk i by (auto simp: rotate_other rotated_row_def)
qed

lemma refresh_row:
  assumes "refresh k (PStr token) now d = (d1, Inr tk)"
  shows "\<exists>row. token_match REFRESH_PREFIX token = Some (to_session_id tk)
     \<and> find (\<lambda>r. ss_id r = to_session_id tk) (au_sessions d1) = Some row \<and> ss_revoked_at row = None
     \<and> ss_refresh_hash row = sha k (to_refresh_token tk) \<and> ss_previous_hash row = Some (sha k token)"
proof -
  from assms obtain i row where m: "token_match REFRESH_PREFIX token = Some i"
    and f: "find (\<lambda>r. ss_id r = i) (au_sessions d) = Some row" and n: "ss_revoked_at row = None"
    and h: "ss_refresh_hash row = sha k token" and rot: "rotate k row now d = (d1, tk)"
    by (rule refreshD)
  have i: "ss_id row = i" using find_Some_iff [OF f] by simp
  have "to_session_id tk = i" "to_refresh_token tk = refresh_token_at i d"
    using rotate_other(3,4) [of k row now d] rot i by auto
  with rotated_find [OF f rot] m n h i show ?thesis by (simp add: rotated_row_def)
qed

text \<open>C35. Only the immediately preceding refresh token is recognised as a replay: a token that is two
  refreshes old is refused like any unknown one, and the session stays open.\<close>

theorem older_refresh_token_ignored:
  assumes r1: "refresh k (PStr t0) n0 d = (d1, Inr tk1)"
    and r2: "refresh k (PStr (to_refresh_token tk1)) n1 d1 = (d2, Inr tk2)"
    and same: "to_session_id tk2 = to_session_id tk1"
    and distinct: "sha k t0 \<noteq> sha k (to_refresh_token tk1)" "sha k t0 \<noteq> sha k (to_refresh_token tk2)"
  shows "refresh k (PStr t0) later d2 = (d2, Inl invalid_credentials)"
proof -
  have m: "token_match REFRESH_PREFIX t0 = Some (to_session_id tk2)" using refresh_row [OF r1] same by auto
  from refresh_row [OF r2] obtain row where "find (\<lambda>r. ss_id r = to_session_id tk2) (au_sessions d2) = Some row"
    "ss_refresh_hash row = sha k (to_refresh_token tk2)" "ss_previous_hash row = Some (sha k (to_refresh_token tk1))"
    by blast
  with m distinct show ?thesis by (simp add: refresh_def)
qed

section \<open>Revocation is permanent\<close>

text \<open>The operations of the sign-in services, in any order and at any time.\<close>

inductive auth_step :: "crypto \<Rightarrow> auth_db \<Rightarrow> auth_db \<Rightarrow> bool" for k where
  sign_in_step: "auth_step k d (fst (sign_in k l pw dev src now d))"
| refresh_step: "auth_step k d (fst (refresh k v now d))"
| open_step: "auth_step k d (fst (open_session k a m dev now d))"
| revoke_step: "revoke a i now d = Inr d' \<Longrightarrow> auth_step k d d'"
| revoke_all_step: "auth_step k d (revoke_all a keep now d)"
| password_step: "set_password k a v c keep now d = Inr d' \<Longrightarrow> auth_step k d d'"
| issue_step: "issue_credential (sha k) kind scopes a ttl now d = Inr (d', ids) \<Longrightarrow> auth_step k d d'"
| revoke_credential_step: "auth_step k d (fst (revoke_credential i now d))"
| claim_step: "claim_login a v kind now d = Inr (d', login) \<Longrightarrow> auth_step k d d'"
| release_step: "auth_step k d (release_login a now d)"

lemma issue_credential_keeps:
  assumes "issue_credential H kind scopes a ttl now d = Inr (d', ids)"
  shows "keeps_ended i d d'"
proof -
  from assms obtain c where d': "d' = d\<lparr>au_drawn := Suc (Suc (au_drawn d)), au_credentials := au_credentials d @ [c]\<rparr>"
    and c: "cr_session c = None"
    by (auto simp: issue_credential_def draw_hex_def draw_secret_def insert_credential_def Let_def)
  show ?thesis using c by (auto simp: keeps_ended_def session_ended_def credentials_ended_def unused_def d')
qed

lemma revoke_credential_keeps: "keeps_ended i d (fst (revoke_credential j now d))"
  by (auto simp: revoke_credential_def keeps_ended_def session_ended_def credentials_ended_def unused_def
      elim!: in_update_whereE split: option.split)

lemma claim_login_keeps:
  assumes "claim_login a v kind now d = Inr (d', l)"
  shows "keeps_ended i d d'"
  using assms by (rule claim_loginD) (rule keeps_ended_frame, auto)

lemma auth_step_keeps: "auth_step k d d' \<Longrightarrow> keeps_ended i d d'"
proof (induction rule: auth_step.induct)
  case (revoke_step a j now d d')
  then show ?case by (auto simp: revoke_def keeps_ended_revoke)
next
  case (release_step d a now)
  show ?case by (rule keeps_ended_frame) (simp_all add: release_login_def)
qed (auto intro: sign_in_keeps refresh_keeps open_session_keeps keeps_ended_revoke_all set_password_keeps
      issue_credential_keeps revoke_credential_keeps claim_login_keeps)

lemma auth_steps_keep: "(auth_step k)\<^sup>*\<^sup>* d d' \<Longrightarrow> keeps_ended i d d'"
proof (induction rule: rtranclp_induct)
  case base
  show ?case by (simp add: keeps_ended_def)
next
  case (step e f)
  from keeps_ended_trans [OF step.IH auth_step_keeps [OF step.hyps(2)]] show ?case .
qed

text \<open>C14. A session that was ended stays ended whatever the sign-in services do afterwards: no refresh
  token of it is accepted and no access token of it authenticates a request.\<close>

theorem ended_session_stays_ended:
  assumes "(auth_step k)\<^sup>*\<^sup>* d d'" and "session_ended d i" and "unused d i"
  shows "session_ended d' i
     \<and> (\<forall>token now. token_match REFRESH_PREFIX token = Some i \<longrightarrow>
          refresh k (PStr token) now d' = (d', Inl invalid_credentials))
     \<and> (\<forall>header t p. authenticate (sha k) header t d' = Inr p \<longrightarrow> current_session d' (pr_id p) \<noteq> Some i)"
proof -
  have e: "session_ended d' i" using auth_steps_keep [OF assms(1)] assms(2,3) by (simp add: keeps_ended_def)
  have "refresh k (PStr token) now d' = (d', Inl invalid_credentials)"
    if "token_match REFRESH_PREFIX token = Some i" for token now
    using that e by (auto simp: refresh_def session_ended_def split: option.splits)
  moreover have "current_session d' (pr_id p) \<noteq> Some i" if "authenticate (sha k) header t d' = Inr p" for header t p
    using credentials_ended_no_auth [OF _ that] e by (simp add: session_ended_def)
  ultimately show ?thesis using e by blast
qed

section \<open>Replays\<close>

text \<open>The hashes of the present and the previous refresh token of a session.\<close>

definition token_hashes :: "auth_db \<Rightarrow> string \<Rightarrow> (string \<times> string option) option" where
  "token_hashes d i = map_option (\<lambda>r. (ss_refresh_hash r, ss_previous_hash r)) (find (\<lambda>r. ss_id r = i) (au_sessions d))"

text \<open>A step of the sign-in services other than an accepted refresh of the session.\<close>

definition other_step :: "crypto \<Rightarrow> string \<Rightarrow> auth_db \<Rightarrow> auth_db \<Rightarrow> bool" where
  "other_step k i d d' = (auth_step k d d' \<and> (\<nexists>v now tk. refresh k v now d = (d', Inr tk) \<and> to_session_id tk = i))"

definition keeps_hashes :: "string \<Rightarrow> auth_db \<Rightarrow> auth_db \<Rightarrow> bool" where
  "keeps_hashes i d d' = (\<forall>h. token_hashes d i = Some h \<longrightarrow> token_hashes d' i = Some h)"

lemma keeps_hashes_frame: "au_sessions d' = au_sessions d \<Longrightarrow> keeps_hashes i d d'"
  by (simp add: keeps_hashes_def token_hashes_def)

lemma keeps_hashes_trans: "keeps_hashes i a b \<Longrightarrow> keeps_hashes i b c \<Longrightarrow> keeps_hashes i a c"
  by (simp add: keeps_hashes_def)

lemma keeps_hashes_revoke: "keeps_hashes i d (revoke_session j now d)"
  by (cases "find (\<lambda>r. ss_id r = i) (au_sessions d)") (simp_all add: keeps_hashes_def token_hashes_def revoke_session_find)

lemma keeps_hashes_revoke_all: "keeps_hashes i d (revoke_all a keep now d)"
proof -
  have "keeps_hashes i d (fold (\<lambda>i. if Some i \<noteq> keep then revoke_session i now else id) js d)" for js
    by (induction js arbitrary: d) (auto intro: keeps_hashes_frame keeps_hashes_trans keeps_hashes_revoke)
  then show ?thesis by (simp add: revoke_all_def)
qed

lemma open_session_hashes: "keeps_hashes i d (fst (open_session k a m dev now d))"
  by (auto simp: keeps_hashes_def token_hashes_def open_session_eq Let_def find_append)

lemma sign_in_hashes: "keeps_hashes i d (fst (sign_in k l pw dev src now d))"
proof -
  have s: "keeps_hashes i d (fst (open_session k a ''password'' dev now ((rehash k a st ty d)\<lparr>au_attempts := at\<rparr>)))" for a st ty at
    by (rule keeps_hashes_trans [OF keeps_hashes_frame open_session_hashes]) (simp add: rehash_def)
  have "keeps_hashes i d (failed sc now d)" "keeps_hashes i d d" for sc by (rule keeps_hashes_frame, simp add: failed_def)+
  with s show ?thesis by (simp add: sign_in_def Let_def case_prod_unfold split: sum.split option.split)
qed

lemma refresh_hashes:
  assumes "refresh k v now d = (d', r)" and "\<forall>tk. r = Inr tk \<longrightarrow> to_session_id tk \<noteq> i"
  shows "keeps_hashes i d d'"
proof (cases r)
  case (Inl e)
  with assms(1) show ?thesis
    by (auto simp: refresh_def Let_def case_prod_unfold keeps_hashes_revoke keeps_hashes_frame split: pyval.splits option.splits if_splits)
next
  case (Inr tk)
  with assms(1) obtain token where v: "v = PStr token" by (cases v) (simp_all add: refresh_def)
  from assms(1) [unfolded v Inr] obtain j row where f: "find (\<lambda>r. ss_id r = j) (au_sessions d) = Some row" "rotate k row now d = (d', tk)"
    by (rule refreshD)
  have j: "ss_id row \<noteq> i" using rotate_other(3) [of k row now d] f(2) assms(2) Inr by simp
  have "find (\<lambda>r. ss_id r = i) (au_sessions (fst (rotate k row now d))) = find (\<lambda>r. ss_id r = i) (au_sessions d)"
    unfolding rotate_sessions by (rule find_update_where_other) (use j in \<open>auto simp: rotated_row_def\<close>)
  then show ?thesis using f(2) by (simp add: keeps_hashes_def token_hashes_def)
qed

lemma other_step_hashes: "other_step k i d d' \<Longrightarrow> keeps_hashes i d d'"
proof -
  assume o: "other_step k i d d'"
  then have "auth_step k d d'" by (simp add: other_step_def)
  then show ?thesis
  proof cases
    case (refresh_step v now)
    then have "refresh k v now d = (d', snd (refresh k v now d))" by simp
    moreover have "\<forall>tk. snd (refresh k v now d) = Inr tk \<longrightarrow> to_session_id tk \<noteq> i"
      using o refresh_step by (metis other_step_def prod.collapse)
    ultimately show ?thesis by (rule refresh_hashes)
  next
    case (revoke_step a j now)
    then show ?thesis by (auto simp: revoke_def keeps_hashes_revoke)
  next
    case (password_step a v c keep now)
    from password_step obtain pw where "d' = with_password k a pw d \<or> d' = revoke_all a keep now (with_password k a pw d)" by (rule set_passwordD)
    moreover have "keeps_hashes i d (with_password k a pw d)" by (rule keeps_hashes_frame) (simp add: with_password_def)
    ultimately show ?thesis using keeps_hashes_trans keeps_hashes_revoke_all by blast
  next
    case (issue_step kind scopes a ttl now ids)
    then show ?thesis by (intro keeps_hashes_frame) (auto simp: issue_credential_def draw_hex_def draw_secret_def insert_credential_def Let_def)
  next
    case (revoke_credential_step j now)
    then show ?thesis by (intro keeps_hashes_frame) (auto simp: revoke_credential_def split: option.split)
  next
    case (claim_step a v kind now login)
    then show ?thesis by (rule claim_loginD) (rule keeps_hashes_frame, auto)
  next
    case (release_step a now)
    then show ?thesis by (intro keeps_hashes_frame) (simp add: release_login_def)
  qed (simp_all add: sign_in_hashes open_session_hashes keeps_hashes_revoke_all)
qed

lemma other_steps_hashes: "(other_step k i)\<^sup>*\<^sup>* d d' \<Longrightarrow> keeps_hashes i d d'"
  by (induction rule: rtranclp_induct) (auto intro: keeps_hashes_frame keeps_hashes_trans other_step_hashes)

text \<open>C3. A refresh token is good for one use. After it has been exchanged, and whatever the sign-in services do in between
  other than refreshing the session once more, presenting it again while the session is open is refused with
  \<open>session_revoked\<close>, ends the session, and leaves no access token of the session usable.\<close>

theorem refresh_token_single_use:
  assumes r: "refresh k (PStr token) now d = (d1, Inr tk)" and between: "(other_step k (to_session_id tk))\<^sup>*\<^sup>* d1 d2"
    and row: "find (\<lambda>r. ss_id r = to_session_id tk) (au_sessions d2) = Some row" "ss_revoked_at row = None" "later < ss_expires_at row"
    and sha: "sha k token \<noteq> []" and again: "refresh k (PStr token) later d2 = (d3, result)"
  shows "result = Inl (AccessDenied ''session_revoked'' 401) \<and> session_ended d3 (to_session_id tk)
     \<and> (\<forall>H header t p. authenticate H header t d3 = Inr p \<longrightarrow> current_session d3 (pr_id p) \<noteq> Some (to_session_id tk))"
proof -
  let ?i = "to_session_id tk"
  from refresh_row [OF r] have m: "token_match REFRESH_PREFIX token = Some ?i"
    and h: "token_hashes d1 ?i = Some (sha k (to_refresh_token tk), Some (sha k token))" by (auto simp: token_hashes_def)
  have "token_hashes d2 ?i = Some (sha k (to_refresh_token tk), Some (sha k token))"
    using other_steps_hashes [OF between] h by (simp add: keeps_hashes_def)
  then have prev: "ss_previous_hash row = Some (sha k token)" using row(1) by (simp add: token_hashes_def)
  have "ss_id row = ?i" using find_Some_iff [OF row(1)] by simp
  then have d3: "d3 = revoke_session ?i later d2" "result = Inl (AccessDenied ''session_revoked'' 401)"
    using again m row prev sha by (auto simp: refresh_def truthy_str_def)
  have e: "session_ended d3 ?i" unfolding d3(1) by (rule revoke_session_ends [OF row(1)])
  then have "credentials_ended d3 ?i" by (simp add: session_ended_def)
  with e d3(2) credentials_ended_no_auth show ?thesis by blast
qed

section \<open>Passwords and sign-in\<close>

lemma revoke_session_fields [simp]:
  "au_passwords (revoke_session i now d) = au_passwords d"
  "map ss_id (au_sessions (revoke_session i now d)) = map ss_id (au_sessions d)"
  by (simp_all add: revoke_session_def map_update_where)

lemma fold_revoke_sessions:
  "au_sessions (fold (\<lambda>i. if Some i \<noteq> keep then revoke_session i now else id) is d) =
     update_where (\<lambda>r. ss_id r \<in> set is \<and> Some (ss_id r) \<noteq> keep \<and> ss_revoked_at r = None)
       (\<lambda>r. r\<lparr>ss_revoked_at := Some now\<rparr>) (au_sessions d)"
proof (induction "is" arbitrary: d)
  case Nil
  then show ?case by (simp add: update_where_def)
next
  case (Cons i js)
  show ?case
    by (cases "Some i = keep")
      (auto simp: Cons.IH revoke_session_def update_where_def intro!: map_cong)
qed

lemma fold_revoke_credentials:
  "au_credentials (fold (\<lambda>i. if Some i \<noteq> keep then revoke_session i now else id) is d) =
     update_where (\<lambda>r. (\<exists>i \<in> set is. cr_session r = Some i \<and> Some i \<noteq> keep) \<and> cr_revoked_at r = None)
       (\<lambda>r. r\<lparr>cr_revoked_at := Some now\<rparr>) (au_credentials d)"
proof (induction "is" arbitrary: d)
  case Nil
  then show ?case by (simp add: update_where_def)
next
  case (Cons i js)
  show ?case
    by (cases "Some i = keep")
      (auto simp: Cons.IH revoke_session_def update_where_def intro!: map_cong)
qed

text \<open>Changing a password needs the current one and ends every other session of the account with
  its access tokens; the kept session and the sessions of other accounts are untouched.\<close>

theorem password_change_ends_sessions:
  assumes stored: "map_of (au_passwords d) a = Some stored"
    and ok: "set_password k a v c keep now d = Inr d'" and ids: "distinct (map ss_id (au_sessions d))"
    and r: "r \<in> set (au_sessions d)"
  shows "(\<exists>s. c = PStr s \<and> pw_verify k stored s)
     \<and> (if ss_account r = a \<and> Some (ss_id r) \<noteq> keep \<and> ss_revoked_at r = None then session_ended d' (ss_id r)
        else find (\<lambda>q. ss_id q = ss_id r) (au_sessions d') = Some r)"
proof -
  from set_password_change [OF stored ok] obtain pw s where s: "c = PStr s" "pw_verify k stored s"
    and d': "d' = revoke_all a keep now (with_password k a pw d)" by blast
  define js where "js = open_sessions (with_password k a pw d) a"
  have js: "set js = ss_id ` {q \<in> set (au_sessions d). ss_account q = a \<and> ss_revoked_at q = None}"
    by (auto simp: js_def open_sessions_def with_password_def)
  have S: "au_sessions d' = update_where (\<lambda>q. ss_id q \<in> set js \<and> Some (ss_id q) \<noteq> keep \<and> ss_revoked_at q = None)
       (\<lambda>q. q\<lparr>ss_revoked_at := Some now\<rparr>) (au_sessions d)"
    unfolding d' revoke_all_def js_def [symmetric] fold_revoke_sessions by (simp add: with_password_def)
  have f: "find (\<lambda>q. ss_id q = ss_id r) (au_sessions d) = Some r"
    by (rule find_unique) (use r ids in \<open>auto dest: distinct_keyD\<close>)
  have m: "ss_id r \<in> set js \<longleftrightarrow> ss_account r = a \<and> ss_revoked_at r = None"
  proof
    assume "ss_id r \<in> set js"
    then obtain q where "q \<in> set (au_sessions d)" "ss_id q = ss_id r" "ss_account q = a" "ss_revoked_at q = None"
      unfolding js by auto
    with distinct_keyD [OF ids _ r] show "ss_account r = a \<and> ss_revoked_at r = None" by blast
  qed (use r js in auto)
  have F: "find (\<lambda>q. ss_id q = ss_id r) (au_sessions d') =
      Some (if ss_account r = a \<and> Some (ss_id r) \<noteq> keep \<and> ss_revoked_at r = None then r\<lparr>ss_revoked_at := Some now\<rparr> else r)"
    by (auto simp: S find_update_where f m)
  have "credentials_ended d' (ss_id r)" if "ss_account r = a" "Some (ss_id r) \<noteq> keep" "ss_revoked_at r = None"
    using that m by (auto simp: credentials_ended_def d' revoke_all_def js_def [symmetric] fold_revoke_credentials
        elim!: in_update_whereE)
  with F s show ?thesis by (auto simp: session_ended_def)
qed

lemma sign_in_limited:
  assumes "failures d (''login:'' @ sign_in_key login) now \<ge> LOGIN_FAILURES"
  shows "sign_in k login pw dev src now d = (d, Inl rate_limited)"
proof -
  have "failure_limit (''login:'' @ s) = LOGIN_FAILURES" for s by (simp add: failure_limit_def)
  then have "limited d [''login:'' @ sign_in_key login, source_scope src] now = Inl rate_limited"
    using assms by (auto simp: limited_def guard_def)
  then show ?thesis by (simp add: sign_in_def Let_def)
qed

text \<open>A run of sign-ins for one login, each given by its time, source and password.\<close>

fun sign_ins :: "crypto \<Rightarrow> pyval \<Rightarrow> (instant \<times> string option \<times> pyval) list \<Rightarrow> auth_db \<Rightarrow> auth_db \<times> tokens tx list" where
  "sign_ins k login [] d = (d, [])"
| "sign_ins k login ((t, src, pw) # as) d =
     (let (d1, r) = sign_in k login pw None src t d; (d2, rs) = sign_ins k login as d1 in (d2, r # rs))"

definition sign_in_failed :: "tokens tx" where
  "sign_in_failed = Inl (AccessDenied ''sign_in_failed'' 401)"

lemma sign_in_failedD:
  assumes "sign_in k login pw dev src t d = (d1, sign_in_failed)"
  shows "d1 = failed [''login:'' @ sign_in_key login, source_scope src] t d"
  using assms
  by (auto simp: sign_in_def Let_def sign_in_failed_def limited_def guard_def rate_limited_def case_prod_unfold
      split: option.splits if_splits)

lemma failures_failed:
  assumes "t \<le> now" and "now - WINDOW < t"
  shows "Suc (failures d scope now) \<le> failures (failed (scope # scopes) t d) scope now"
proof -
  have "filter (\<lambda>a. (fst a = scope \<and> now - WINDOW < snd a) \<and> t - WINDOW < snd a) (au_attempts d)
      = filter (\<lambda>a. fst a = scope \<and> now - WINDOW < snd a) (au_attempts d)"
    using assms(1) by (intro filter_cong) auto
  then show ?thesis using assms by (simp add: failures_def failed_def not_le conj_ac WINDOW_def minute_def second_def)
qed

lemma failed_run_counts:
  assumes "\<forall>a \<in> set as. fst a \<le> now \<and> now - WINDOW < fst a"
    and "sign_ins k login as d = (d', rs)" and "\<forall>r \<in> set rs. r = sign_in_failed"
  shows "failures d (''login:'' @ sign_in_key login) now + length as \<le> failures d' (''login:'' @ sign_in_key login) now"
  using assms
proof (induction as arbitrary: d rs)
  case Nil
  then show ?case by simp
next
  case (Cons a as)
  obtain t src pw where a: "a = (t, src, pw)" by (cases a) auto
  obtain d1 r where s1: "sign_in k login pw None src t d = (d1, r)" by fastforce
  obtain rs' where s2: "sign_ins k login as d1 = (d', rs')" and rs: "rs = r # rs'"
    using Cons.prems(2) s1 by (auto simp: a case_prod_unfold Let_def prod_eq_iff)
  have r: "r = sign_in_failed" using Cons.prems(3) rs by simp
  have "Suc (failures d (''login:'' @ sign_in_key login) now) \<le> failures d1 (''login:'' @ sign_in_key login) now"
    unfolding sign_in_failedD [OF s1 [unfolded r]] by (rule failures_failed) (use Cons.prems(1) in \<open>simp_all add: a\<close>)
  moreover have "failures d1 (''login:'' @ sign_in_key login) now + length as
      \<le> failures d' (''login:'' @ sign_in_key login) now"
    using Cons.IH [OF _ s2] Cons.prems(1,3) rs by simp
  ultimately show ?case by simp
qed

text \<open>C28. Guessing is limited: after \<open>LOGIN_FAILURES\<close> refused sign-ins for a login within \<open>WINDOW\<close>, from
  whatever sources, every further sign-in for that login in the window is refused with status 429 and
  changes nothing, the right password included.\<close>

theorem sign_in_rate_limit:
  assumes "\<forall>a \<in> set as. fst a \<le> now \<and> now - WINDOW < fst a"
    and "sign_ins k login as d = (d', rs)" and "\<forall>r \<in> set rs. r = sign_in_failed"
    and "LOGIN_FAILURES \<le> length as"
  shows "sign_in k login pw dev src now d' = (d', Inl (AccessDenied ''sign_in_rate_limited'' 429))"
proof -
  have "LOGIN_FAILURES \<le> failures d' (''login:'' @ sign_in_key login) now"
    using failed_run_counts [OF assms(1-3)] assms(4) by linarith
  from sign_in_limited [OF this] show ?thesis by (simp add: rate_limited_def)
qed

definition typed_password :: "pyval \<Rightarrow> string" where
  "typed_password v = (case v of PStr s \<Rightarrow> s | _ \<Rightarrow> [])"

lemma sign_inD:
  assumes "sign_in k login pw dev src now d = (d', Inr tk)"
  obtains a stored e where "password_of_login d (sign_in_key login) = Some (a, stored)"
    and "pw_verify k stored (typed_password pw)" and "open_session k a ''password'' dev now e = (d', tk)"
    and "au_hex e = au_hex d" and "au_secret e = au_secret d" and "au_credentials e = au_credentials d"
    and "au_bindings e = au_bindings d" and "au_drawn d \<le> au_drawn e"
proof -
  let ?a = "fst (the (password_of_login d (sign_in_key login)))"
  let ?st = "snd (the (password_of_login d (sign_in_key login)))"
  let ?d1 = "rehash k ?a ?st (typed_password pw) d"
  let ?e = "?d1\<lparr>au_attempts := filter (\<lambda>a. fst a \<noteq> ''login:'' @ sign_in_key login) (au_attempts ?d1)\<rparr>"
  have *: "password_of_login d (sign_in_key login) = Some (?a, ?st) \<and> pw_verify k ?st (typed_password pw)
      \<and> open_session k ?a ''password'' dev now ?e = (d', tk)"
    using assms unfolding typed_password_def [symmetric]
    by (auto simp: sign_in_def Let_def typed_password_def [symmetric] case_prod_unfold split: sum.splits option.splits if_splits)
  have "au_hex ?e = au_hex d" "au_secret ?e = au_secret d" "au_credentials ?e = au_credentials d"
    "au_bindings ?e = au_bindings d" "au_drawn d \<le> au_drawn ?e"
    by (simp_all add: rehash_def)
  with * that show ?thesis by blast
qed

lemma finite_PERMISSIONS: "finite PERMISSIONS" "PERMISSIONS \<noteq> {}"
  by (simp_all add: PERMISSIONS_def SELF_PERMISSIONS_def APPROVED_PERMISSIONS_def ADMIN_PERMISSIONS_def ROLE_PERMISSIONS_def)

lemma access_token_authenticates:
  assumes o: "open_session k a m dev now e = (d', tk)" and "a \<noteq> []" and t: "t < now + ACCESS_TTL"
    and shapes: "\<forall>n. hex_shape (au_hex e n) \<and> secret_shape (au_secret e n)"
    and fresh: "\<forall>n \<ge> au_drawn e. (\<forall>c \<in> set (au_credentials e). cr_id c \<noteq> au_hex e n)
                  \<and> (\<forall>b \<in> set (au_bindings e). kb_credential b \<noteq> au_hex e n)"
  shows "\<exists>p. authenticate (sha k) (Some (''Bearer '' @ to_access_token tk)) t d' = Inr p
           \<and> pr_account_id p = Some a \<and> current_session d' (pr_id p) = Some (to_session_id tk)"
proof -
  define e1 where "e1 = e\<lparr>au_drawn := Suc (au_drawn e)\<rparr>"
  let ?i = "au_hex e (Suc (au_drawn e))" and ?s = "au_secret e (Suc (Suc (au_drawn e)))"
  let ?c = "access_row k a (au_hex e (au_drawn e)) now e1"
  have eff: "au_credentials d' = au_credentials e @ [?c]" "au_bindings d' = au_bindings e"
    "to_access_token tk = make_token TOKEN_PREFIX ?i ?s" "to_session_id tk = au_hex e (au_drawn e)"
    using o by (auto simp: open_session_eq new_tokens_eq Let_def e1_def)
  have c: "cr_id ?c = ?i" "cr_secret_hash ?c = sha k (make_token TOKEN_PREFIX ?i ?s)" "cr_account ?c = Some a"
    "cr_session ?c = Some (au_hex e (au_drawn e))" by (simp_all add: access_row_def e1_def)
  have none: "\<forall>c \<in> set (au_credentials e). cr_id c \<noteq> ?i" "\<forall>b \<in> set (au_bindings e). kb_credential b \<noteq> ?i"
    using fresh by auto
  have f: "find (\<lambda>r. cr_id r = ?i) (au_credentials d') = Some ?c"
    using none(1) c(1) by (simp add: eff find_append find_None_iff' [THEN iffD2])
  have "binding_ok d' ?c" using none(2) c(1) by (simp add: binding_ok_def eff find_None_iff' [THEN iffD2])
  then have v: "credential_valid t d' ?c ACCOUNT"
    using assms(2) t finite_PERMISSIONS
    by (simp add: credential_valid_def access_row_def allowed_scopes_def truthy_str_def)
  have "authenticate (sha k) (Some (''Bearer '' @ to_access_token tk)) t d' =
      Inr \<lparr>pr_id = ?i, pr_kind = ACCOUNT, pr_scopes = set (cr_scopes ?c), pr_account_id = cr_account ?c\<rparr>"
    unfolding authenticate_ok_iff using f v c eff shapes by blast
  then show ?thesis using f c eff by (simp add: current_session_def)
qed

text \<open>C29. A sign-in that succeeds was for a login currently held by an approved account that is not
  being deleted, with its password; the session it opens belongs to that account, and its access token
  authenticates requests of that account until \<open>ACCESS_TTL\<close> has passed.\<close>

theorem sign_in_opens_session:
  assumes ok: "sign_in k login pw dev src now d = (d', Inr tk)"
    and shapes: "\<forall>n. hex_shape (au_hex d n) \<and> secret_shape (au_secret d n)"
    and fresh: "\<forall>n \<ge> au_drawn d. (\<forall>c \<in> set (au_credentials d). cr_id c \<noteq> au_hex d n)
                  \<and> (\<forall>b \<in> set (au_bindings d). kb_credential b \<noteq> au_hex d n)"
    and t: "t < now + ACCESS_TTL" and ids: "\<forall>a \<in> set (au_accounts d). acc_id a \<noteq> []"
  shows "\<exists>account_id stored. password_of_login d (sign_in_key login) = Some (account_id, stored)
     \<and> pw_verify k stored (typed_password pw) \<and> active_account d account_id
     \<and> (\<exists>p. authenticate (sha k) (Some (''Bearer '' @ to_access_token tk)) t d' = Inr p
           \<and> pr_account_id p = Some account_id \<and> current_session d' (pr_id p) = Some (to_session_id tk))"
proof -
  obtain a stored e where p: "password_of_login d (sign_in_key login) = Some (a, stored)"
    and v: "pw_verify k stored (typed_password pw)" and o: "open_session k a ''password'' dev now e = (d', tk)"
    and e: "au_hex e = au_hex d" "au_secret e = au_secret d" "au_credentials e = au_credentials d"
      "au_bindings e = au_bindings d" "au_drawn d \<le> au_drawn e"
    using ok by (rule sign_inD)
  have act: "active_account d a" using p by (auto simp: password_of_login_def split: if_splits option.splits)
  then have "a \<noteq> []" using ids by (auto simp: active_account_def)
  from access_token_authenticates [OF o this t] shapes fresh e p v act show ?thesis by auto
qed

section \<open>Witnesses\<close>

definition sample_crypto :: crypto where
  "sample_crypto = \<lparr>sha = (\<lambda>s. s), pw_verify = (\<lambda>h s. h = s), pw_hash = (\<lambda>n s. s), pw_needs_rehash = (\<lambda>h. False)\<rparr>"

definition sample_hex :: "nat \<Rightarrow> string" where
  "sample_hex n = replicate 31 CHR ''0'' @ [if n = 0 then CHR ''a'' else if n = 1 then CHR ''b'' else CHR ''c'']"

definition sample_secret :: "nat \<Rightarrow> string" where
  "sample_secret n = replicate 42 CHR ''x'' @ [if n = 2 then CHR ''2'' else if n = 3 then CHR ''3'' else if n = 6 then CHR ''6'' else CHR ''4'']"

definition signed_out :: auth_db where
  "signed_out = sample_auth\<lparr>au_passwords := [(''a1'', ''correct horse'')], au_hex := sample_hex, au_secret := sample_secret\<rparr>"

definition signed_in :: "auth_db \<times> tokens tx" where
  "signed_in = sign_in sample_crypto (PStr ''alice'') (PStr ''correct horse'') None None 0 signed_out"

definition refreshed :: "auth_db \<times> tokens tx" where
  "refreshed = refresh sample_crypto (PStr (to_refresh_token (projr (snd signed_in)))) 1 (fst signed_in)"

lemma pair_ok: "is_ok (snd p) \<Longrightarrow> p = (fst p, Inr (projr (snd p)))"
  by (cases p) (auto dest: is_ok_projr)

lemma sample_shapes: "\<forall>n. hex_shape (au_hex signed_out n) \<and> secret_shape (au_secret signed_out n)"
  by (auto simp: signed_out_def sample_hex_def sample_secret_def hex_shape_def secret_shape_def str_simps urlsafe_char_def list_all_iff)

theorem sign_in_opens_session_witness:
  "\<exists>p. authenticate (sha sample_crypto) (Some (''Bearer '' @ to_access_token (projr (snd signed_in)))) minute (fst signed_in)
     = Inr p \<and> pr_account_id p = Some ''a1''"
proof -
  have ok: "is_ok (snd signed_in)" by code_simp
  have pl: "password_of_login signed_out (sign_in_key (PStr ''alice'')) = Some (''a1'', ''correct horse'')" by code_simp
  show ?thesis
    using sign_in_opens_session [OF pair_ok [OF ok, unfolded signed_in_def] sample_shapes, of minute] pl
    by (auto simp: signed_in_def signed_out_def sample_auth_def ACCESS_TTL_def minute_def second_def)
qed

lemma signed_in_ok: "signed_in = (fst signed_in, Inr (projr (snd signed_in)))"
  by (rule pair_ok) code_simp

lemma refreshed_ok:
  "refresh sample_crypto (PStr (to_refresh_token (projr (snd signed_in)))) 1 (fst signed_in)
     = (fst refreshed, Inr (projr (snd refreshed)))"
  unfolding refreshed_def [symmetric] by (rule pair_ok) code_simp

definition replayed :: "auth_db \<times> tokens tx" where
  "replayed = refresh sample_crypto (PStr (to_refresh_token (projr (snd signed_in)))) 2 (fst refreshed)"

theorem refresh_token_single_use_witness:
  "snd replayed = Inl (AccessDenied ''session_revoked'' 401) \<and> session_ended (fst replayed) (to_session_id (projr (snd refreshed)))"
proof -
  let ?i = "to_session_id (projr (snd refreshed))"
  define row where "row = find (\<lambda>r. ss_id r = ?i) (au_sessions (fst refreshed))"
  have "row \<noteq> None" "ss_revoked_at (the row) = None" "2 < ss_expires_at (the row)" unfolding row_def by code_simp+
  moreover have "sha sample_crypto (to_refresh_token (projr (snd signed_in))) \<noteq> []" by code_simp
  moreover have "refresh sample_crypto (PStr (to_refresh_token (projr (snd signed_in)))) 2 (fst refreshed)
      = (fst replayed, snd replayed)" by (simp add: replayed_def)
  ultimately show ?thesis using refresh_token_single_use [OF refreshed_ok rtranclp.rtrancl_refl] unfolding row_def by fastforce
qed

theorem refresh_chain_witness:
  "\<exists>d2 tk2. refresh sample_crypto (PStr (to_refresh_token (projr (snd refreshed)))) 2 (fst refreshed) = (d2, Inr tk2)
     \<and> to_session_id tk2 = to_session_id (projr (snd refreshed))"
  by (rule refresh_chain [OF refreshed_ok]) code_simp+

lemma replayed_unused: "unused (fst replayed) (sample_hex 0)"
proof -
  have "au_drawn (fst replayed) = 7" by code_simp
  moreover have "au_hex (fst replayed) = sample_hex" 
    by (simp add: replayed_def refreshed_def signed_in_def refresh_hex sign_in_hex signed_out_def)
  ultimately show ?thesis by (simp add: unused_def sample_hex_def)
qed

theorem ended_session_stays_ended_witness:
  "session_ended (fst (sign_in sample_crypto (PStr ''alice'') (PStr ''correct horse'') None None 3 (fst replayed))) (sample_hex 0)"
proof -
  have "session_ended (fst replayed) (sample_hex 0)" by code_simp
  moreover have "(auth_step sample_crypto)\<^sup>*\<^sup>* (fst replayed)
      (fst (sign_in sample_crypto (PStr ''alice'') (PStr ''correct horse'') None None 3 (fst replayed)))"
    by (rule r_into_rtranclp, rule sign_in_step)
  ultimately show ?thesis using ended_session_stays_ended replayed_unused by blast
qed

theorem password_change_ends_sessions_witness:
  "session_ended (projr (set_password sample_crypto ''a1'' (PStr ''a new passphrase'') (PStr ''correct horse'') None 5 (fst signed_in)))
     (sample_hex 0)"
proof -
  let ?d = "fst signed_in"
  have ok: "set_password sample_crypto ''a1'' (PStr ''a new passphrase'') (PStr ''correct horse'') None 5 ?d
      = Inr (projr (set_password sample_crypto ''a1'' (PStr ''a new passphrase'') (PStr ''correct horse'') None 5 ?d))"
    by (rule is_ok_projr) code_simp
  have pw: "map_of (au_passwords ?d) ''a1'' = Some ''correct horse''" by code_simp
  have "\<exists>r \<in> set (au_sessions ?d). ss_account r = ''a1'' \<and> ss_revoked_at r = None \<and> ss_id r = sample_hex 0" by code_simp
  then obtain r where r: "r \<in> set (au_sessions ?d)" "ss_account r = ''a1''" "ss_revoked_at r = None" "ss_id r = sample_hex 0"
    by blast
  have dist: "distinct (map ss_id (au_sessions ?d))" by code_simp
  show ?thesis using password_change_ends_sessions [OF pw ok dist r(1)] r by simp
qed

definition guesses :: "(instant \<times> string option \<times> pyval) list" where
  "guesses = map (\<lambda>n. (int n, None, PStr ''guess'')) [0..<5]"

theorem sign_in_rate_limit_witness:
  "snd (sign_in sample_crypto (PStr ''alice'') (PStr ''correct horse'') None None 9
     (fst (sign_ins sample_crypto (PStr ''alice'') guesses signed_out))) = Inl (AccessDenied ''sign_in_rate_limited'' 429)"
proof -
  let ?r = "sign_ins sample_crypto (PStr ''alice'') guesses signed_out"
  have w: "\<forall>a \<in> set guesses. fst a \<le> 9 \<and> 9 - WINDOW < fst a" by code_simp
  have r: "?r = (fst ?r, snd ?r)" by simp
  have "snd ?r = replicate 5 sign_in_failed" by code_simp
  then have f: "\<forall>x \<in> set (snd ?r). x = sign_in_failed" by simp
  have l: "LOGIN_FAILURES \<le> length guesses" by code_simp
  show ?thesis by (simp only: sign_in_rate_limit [OF w r f l] snd_conv)
qed

definition one_session :: auth_db where
  "one_session = signed_out\<lparr>au_drawn := 1, au_sessions := [\<lparr>ss_id = sample_hex 0, ss_account = ''a1'', ss_method = ''password'',
     ss_device = ''laptop'', ss_refresh_hash = make_token REFRESH_PREFIX (sample_hex 0) (sample_secret 0),
     ss_previous_hash = None, ss_created_at = 0, ss_used_at = 0, ss_expires_at = IDLE_TTL, ss_revoked_at = None\<rparr>]\<rparr>"

definition first_refresh :: "auth_db \<times> tokens tx" where
  "first_refresh = refresh sample_crypto (PStr (make_token REFRESH_PREFIX (sample_hex 0) (sample_secret 0))) 1 one_session"

definition second_refresh :: "auth_db \<times> tokens tx" where
  "second_refresh = refresh sample_crypto (PStr (to_refresh_token (projr (snd first_refresh)))) 2 (fst first_refresh)"

theorem older_refresh_token_ignored_witness:
  "refresh sample_crypto (PStr (make_token REFRESH_PREFIX (sample_hex 0) (sample_secret 0))) 3 (fst second_refresh)
     = (fst second_refresh, Inl invalid_credentials)"
proof (rule older_refresh_token_ignored)
  show "refresh sample_crypto (PStr (make_token REFRESH_PREFIX (sample_hex 0) (sample_secret 0))) 1 one_session
      = (fst first_refresh, Inr (projr (snd first_refresh)))"
    unfolding first_refresh_def [symmetric] by (rule pair_ok) code_simp
  show "refresh sample_crypto (PStr (to_refresh_token (projr (snd first_refresh)))) 2 (fst first_refresh)
      = (fst second_refresh, Inr (projr (snd second_refresh)))"
    unfolding second_refresh_def [symmetric] by (rule pair_ok) code_simp
qed code_simp+

end
