(* ===== verification/Client_Keys.thy ===== *)
theory Client_Keys
  imports Credentials Logins
begin

text \<open>
  \<^verbatim>\<open>app/backend/client_keys.py\<close>: requests signed with a client's own Ed25519 key, and the nonces that keep a request from
  being accepted twice. The cryptography is a parameter, the record \<open>ed25519\<close>: \<open>ed_key\<close> is the base64url text of the
  raw public key that a value of 43 characters decodes to, if it is one; \<open>ed_verify\<close> is the check of a signature, in
  base64url, over a message under a stored public key; \<open>ed_sha\<close> is the hexadecimal SHA-256 of a body.

  \<open>ClientKeys.authenticate\<close> refuses an account that is no longer staff after its transaction, so that it returns the
  database together with its result. The difference of two times is taken in whole microseconds here.
\<close>

section \<open>The header\<close>

record ed25519 =
  ed_key :: "string \<Rightarrow> string option"
  ed_verify :: "string \<Rightarrow> string \<Rightarrow> string \<Rightarrow> bool"
  ed_sha :: "string \<Rightarrow> string"

definition SCHEME :: string where "SCHEME = ''NP-Signature ''"
definition SKEW :: int where "SKEW = 60 * second"
definition KEEP_NONCES :: int where "KEEP_NONCES = 3 * minute"
definition TOUCH :: int where "TOUCH = minute"
definition CLIENT_KINDS :: "string list" where "CLIENT_KINDS = [''workstation'', ''bot'']"

definition upper_char :: "char \<Rightarrow> char" where
  "upper_char c = (if ascii_lower c then char_of (of_char c - 32 :: nat) else c)"

fun join_lines :: "string list \<Rightarrow> string" where
  "join_lines [] = []"
| "join_lines [l] = l"
| "join_lines (l # ls) = l @ CHR 0x0A # join_lines ls"

text \<open>The signed text. HTTP methods are ASCII.\<close>

definition message :: "ed25519 \<Rightarrow> string \<Rightarrow> string \<Rightarrow> string \<Rightarrow> string \<Rightarrow> string \<Rightarrow> string option \<Rightarrow> string" where
  "message ed request_method target body timestamp nonce delegated = join_lines [''np-sig-v1'', map upper_char request_method, target, ed_sha ed body,
     (case delegated of None \<Rightarrow> [] | Some u \<Rightarrow> u), timestamp, nonce]"

definition signed :: "string option \<Rightarrow> bool" where
  "signed authorization = (case authorization of None \<Rightarrow> False | Some s \<Rightarrow> starts_with SCHEME s)"

text \<open>\<open>\s*([a-z]+)=([A-Za-z0-9_-]+)\s*\<close>, matched in full.\<close>

definition parse_field :: "string \<Rightarrow> (string \<times> string) option" where
  "parse_field part = (case partition_at (CHR ''='') (strip part) of
     (k, Some v) \<Rightarrow> if k \<noteq> [] \<and> list_all ascii_lower k \<and> v \<noteq> [] \<and> list_all urlsafe_char v then Some (k, v) else None
   | _ \<Rightarrow> None)"

fun parse_fields :: "string list \<Rightarrow> (string \<times> string) list \<Rightarrow> (string \<times> string) list option" where
  "parse_fields [] fs = Some fs"
| "parse_fields (part # parts) fs = (case parse_field part of
     None \<Rightarrow> None
   | Some (k, v) \<Rightarrow> if k \<in> fst ` set fs then None else parse_fields parts (fs @ [(k, v)]))"

record signature_fields =
  sf_key :: string
  sf_ts :: string
  sf_nonce :: string
  sf_sig :: string

definition fields_of :: "(string \<times> string) list \<Rightarrow> signature_fields" where
  "fields_of fs = (let get = (\<lambda>k. case map_of fs k of Some v \<Rightarrow> v | None \<Rightarrow> [])
     in \<lparr>sf_key = get ''key'', sf_ts = get ''ts'', sf_nonce = get ''nonce'', sf_sig = get ''sig''\<rparr>)"

definition parse_header :: "string option \<Rightarrow> signature_fields option" where
  "parse_header authorization = (case authorization of
     None \<Rightarrow> None
   | Some s \<Rightarrow>
       if \<not> starts_with SCHEME s then None
       else (case parse_fields (split_on (CHR '','') (drop (length SCHEME) s)) [] of
               None \<Rightarrow> None
             | Some fs \<Rightarrow>
                 (let f = fields_of fs
                  in if fst ` set fs = {''key'', ''ts'', ''nonce'', ''sig''} \<and> length (sf_key f) = 32 \<and> list_all lower_hex_digit (sf_key f)
                       \<and> list_all ascii_digit (sf_ts f) \<and> length (sf_ts f) \<le> 12 \<and> 16 \<le> length (sf_nonce f) \<and> length (sf_nonce f) \<le> 64
                     then Some f else None)))"

section \<open>Keys\<close>

definition public_key :: "ed25519 \<Rightarrow> pyval \<Rightarrow> string tx" where
  "public_key ed v = (case (case v of PStr s \<Rightarrow> if length s = 43 then ed_key ed s else None | _ \<Rightarrow> None) of
     None \<Rightarrow> Inl (AccessDenied ''client_key_invalid'' 422) | Some key \<Rightarrow> Inr key)"

definition kind_of :: "string option \<Rightarrow> auth_db \<Rightarrow> string option" where
  "kind_of authorization d = (case parse_header authorization of
     None \<Rightarrow> None
   | Some f \<Rightarrow> map_option ck_kind (find (\<lambda>k. ck_id k = sf_key f \<and> ck_revoked_at k = None) (au_client_keys d)))"

definition register_key :: "ed25519 \<Rightarrow> string \<Rightarrow> pyval \<Rightarrow> string \<Rightarrow> string option \<Rightarrow> instant \<Rightarrow> auth_db \<Rightarrow> (auth_db \<times> string) tx" where
  "register_key ed kind v name account_id now d =
     guard (kind \<in> set CLIENT_KINDS \<and> (kind = ''workstation'') = truthy_str account_id) (ValueError ''invalid client key'')
     (res_bind (public_key ed v) (\<lambda>key.
      guard (key \<notin> ck_public_key ` set (au_client_keys d)) (AccessDenied ''client_key_exists'' 409)
      (let (i, d1) = draw_hex d
       in guard (i \<notin> ck_id ` set (au_client_keys d)) IntegrityError
         (Inr (d1\<lparr>au_client_keys := au_client_keys d1 @ [\<lparr>ck_id = i, ck_kind = kind, ck_public_key = key, ck_account = account_id,
            ck_name = take 64 name, ck_created_at = now, ck_last_used_at = None, ck_revoked_at = None\<rparr>]\<rparr>, i)))))"

definition revoke_where :: "(client_key_row \<Rightarrow> bool) \<Rightarrow> instant \<Rightarrow> auth_db \<Rightarrow> auth_db" where
  "revoke_where P now d = d\<lparr>au_client_keys := update_where (\<lambda>k. P k \<and> ck_revoked_at k = None) (\<lambda>k. k\<lparr>ck_revoked_at := Some now\<rparr>) (au_client_keys d)\<rparr>"

definition revoke_key :: "string \<Rightarrow> string option \<Rightarrow> instant \<Rightarrow> auth_db \<Rightarrow> auth_db tx" where
  "revoke_key key_id account_id now d =
     (let P = (\<lambda>k. ck_id k = key_id \<and> (account_id = None \<or> ck_account k = account_id))
      in guard (\<exists>k \<in> set (au_client_keys d). P k \<and> ck_revoked_at k = None) (AccessDenied ''resource_not_found'' 404) (Inr (revoke_where P now d)))"

definition revoke_all_keys :: "string \<Rightarrow> instant \<Rightarrow> auth_db \<Rightarrow> auth_db" where
  "revoke_all_keys account_id now d = revoke_where (\<lambda>k. ck_account k = Some account_id) now d"

section \<open>Signed requests\<close>

record request =
  rq_method :: string
  rq_target :: string
  rq_body :: string
  rq_delegated :: "string option"

definition forget_nonces :: "instant \<Rightarrow> auth_db \<Rightarrow> auth_db" where
  "forget_nonces now d = d\<lparr>au_nonces := filter (\<lambda>n. \<not> snd (snd n) < now - KEEP_NONCES) (au_nonces d)\<rparr>"

definition touch_key :: "client_key_row \<Rightarrow> instant \<Rightarrow> auth_db \<Rightarrow> auth_db" where
  "touch_key k now d =
     (if (case ck_last_used_at k of None \<Rightarrow> True | Some t \<Rightarrow> t \<le> now - TOUCH)
      then d\<lparr>au_client_keys := update_where (\<lambda>q. ck_id q = ck_id k) (\<lambda>q. q\<lparr>ck_last_used_at := Some now\<rparr>) (au_client_keys d)\<rparr> else d)"

definition staff_account :: "auth_db \<Rightarrow> string option \<Rightarrow> bool" where
  "staff_account d account_id = (case find (\<lambda>a. Some (acc_id a) = account_id) (au_accounts d) of
     None \<Rightarrow> False | Some a \<Rightarrow> acc_role a = ''admin'' \<and> acc_status a = ''approved'')"

definition key_principal :: "auth_db \<Rightarrow> client_key_row \<Rightarrow> principal tx" where
  "key_principal d k =
     (if ck_kind k = ''bot'' then Inr \<lparr>pr_id = ck_id k, pr_kind = ADAPTER, pr_scopes = ADAPTER_SCOPES, pr_account_id = None\<rparr>
      else guard (staff_account d (ck_account k)) invalid_credentials
        (Inr \<lparr>pr_id = ck_id k, pr_kind = ACCOUNT, pr_scopes = PERMISSIONS, pr_account_id = ck_account k\<rparr>))"

text \<open>The checks before the transaction: the header, its time, the key and the signature.\<close>

definition verified_key :: "ed25519 \<Rightarrow> string option \<Rightarrow> request \<Rightarrow> instant \<Rightarrow> auth_db \<Rightarrow> (signature_fields \<times> client_key_row) tx" where
  "verified_key ed authorization r now d = (case parse_header authorization of
     None \<Rightarrow> Inl invalid_credentials
   | Some f \<Rightarrow>
       guard (\<bar>now - int_of_digits (sf_ts f) * second\<bar> \<le> SKEW) (AccessDenied ''request_time_invalid'' 401)
       (case find (\<lambda>k. ck_id k = sf_key f) (au_client_keys d) of
          None \<Rightarrow> Inl invalid_credentials
        | Some k \<Rightarrow>
            guard (ck_revoked_at k = None) invalid_credentials
            (guard (ed_verify ed (ck_public_key k) (sf_sig f)
                (message ed (rq_method r) (rq_target r) (rq_body r) (sf_ts f) (sf_nonce f) (rq_delegated r))) invalid_credentials
              (Inr (f, k)))))"

definition authenticate_signed :: "ed25519 \<Rightarrow> string option \<Rightarrow> request \<Rightarrow> instant \<Rightarrow> auth_db \<Rightarrow> auth_db \<times> principal tx" where
  "authenticate_signed ed authorization r now d = (case verified_key ed authorization r now d of
     Inl e \<Rightarrow> (d, Inl e)
   | Inr (f, k) \<Rightarrow>
       (let d1 = forget_nonces now d
        in if \<exists>n \<in> set (au_nonces d1). fst n = ck_id k \<and> fst (snd n) = sf_nonce f then (d, Inl (AccessDenied ''request_replayed'' 401))
           else let d2 = touch_key k now (d1\<lparr>au_nonces := au_nonces d1 @ [(ck_id k, sf_nonce f, now)]\<rparr>)
                in (d2, key_principal d2 k)))"

section \<open>A signed request counts once\<close>

text \<open>What happens to the keys and nonces in the course of time, at times that never go back: requests of clients, and
  keys registered and revoked. A state is the time of the last step and the database.\<close>

inductive key_step :: "ed25519 \<Rightarrow> instant \<times> auth_db \<Rightarrow> instant \<times> auth_db \<Rightarrow> bool" for ed where
  signed_request: "t \<le> now \<Longrightarrow> key_step ed (t, d) (now, fst (authenticate_signed ed authorization r now d))"
| registered: "t \<le> now \<Longrightarrow> register_key ed kind v name account_id now d = Inr (e, i) \<Longrightarrow> key_step ed (t, d) (now, e)"
| revoked: "t \<le> now \<Longrightarrow> revoke_key key_id account_id now d = Inr e \<Longrightarrow> key_step ed (t, d) (now, e)"
| revoked_all: "t \<le> now \<Longrightarrow> key_step ed (t, d) (now, revoke_all_keys account_id now d)"

text \<open>A nonce of a key was seen at a time, and is still known while a request that carries it could be in time.\<close>

definition remembers :: "string \<Rightarrow> string \<Rightarrow> int \<Rightarrow> instant \<times> auth_db \<Rightarrow> bool" where
  "remembers key nonce ts s = (fst s \<le> ts * second + SKEW \<longrightarrow>
     (\<exists>seen. (key, nonce, seen) \<in> set (au_nonces (snd s)) \<and> ts * second - SKEW \<le> seen))"

lemma register_nonces: "register_key ed kind v name account_id now d = Inr (e, i) \<Longrightarrow> au_nonces e = au_nonces d"
  by (auto simp: register_key_def res_bind_Inr_iff draw_hex_def Let_def)

lemma revoke_nonces: "revoke_key key_id account_id now d = Inr e \<Longrightarrow> au_nonces e = au_nonces d"
  by (auto simp: revoke_key_def revoke_where_def Let_def)

lemma touch_key_nonces [simp]: "au_nonces (touch_key k now d) = au_nonces d"
  by (simp add: touch_key_def)

lemma authenticate_nonces:
  "au_nonces (fst (authenticate_signed ed h r now d)) = au_nonces d
   \<or> (\<exists>n. au_nonces (fst (authenticate_signed ed h r now d)) = au_nonces (forget_nonces now d) @ [n])"
  by (auto simp: authenticate_signed_def Let_def split: sum.splits)

lemma forget_keeps:
  assumes "(key, nonce, seen) \<in> set (au_nonces d)" and "ts * second - SKEW \<le> seen" and "now \<le> ts * second + SKEW"
  shows "(key, nonce, seen) \<in> set (au_nonces (forget_nonces now d))"
  using assms by (simp add: forget_nonces_def KEEP_NONCES_def SKEW_def minute_def second_def)

lemma key_step_remembers: "key_step ed s s' \<Longrightarrow> remembers key nonce ts s \<Longrightarrow> remembers key nonce ts s'"
proof (induction rule: key_step.induct)
  case (signed_request t now d authorization r)
  show ?case
  proof (cases "now \<le> ts * second + SKEW")
    case True
    with signed_request obtain seen where seen: "(key, nonce, seen) \<in> set (au_nonces d)" "ts * second - SKEW \<le> seen"
      by (auto simp: remembers_def)
    with forget_keeps [OF seen True] authenticate_nonces [of ed authorization r now d] show ?thesis by (auto simp: remembers_def)
  qed (simp add: remembers_def)
qed (auto simp: remembers_def register_nonces revoke_nonces revoke_all_keys_def revoke_where_def)

lemma key_steps_remember: "(key_step ed)\<^sup>*\<^sup>* s s' \<Longrightarrow> remembers key nonce ts s \<Longrightarrow> remembers key nonce ts s'"
  by (induction rule: rtranclp_induct) (auto intro: key_step_remembers)

lemma verified_keyD:
  assumes "verified_key ed h r now d = Inr (f, k)"
  shows "parse_header h = Some f" "\<bar>now - int_of_digits (sf_ts f) * second\<bar> \<le> SKEW" "k \<in> set (au_client_keys d)" "ck_id k = sf_key f"
    "ck_revoked_at k = None" "ed_verify ed (ck_public_key k) (sf_sig f)
       (message ed (rq_method r) (rq_target r) (rq_body r) (sf_ts f) (sf_nonce f) (rq_delegated r))"
  using assms by (auto simp: verified_key_def split: option.splits dest: find_Some_iff)

lemma accepted_remembers:
  assumes "authenticate_signed ed h r now d = (d1, Inr p)" and "parse_header h = Some f"
  shows "remembers (sf_key f) (sf_nonce f) (int_of_digits (sf_ts f)) (now, d1)"
proof -
  obtain f' k where v: "verified_key ed h r now d = Inr (f', k)" using assms(1)
    by (cases "verified_key ed h r now d") (auto simp: authenticate_signed_def)
  note k = verified_keyD [OF v]
  have "f' = f" using k(1) assms(2) by simp
  with assms(1) v k show ?thesis by (auto simp: authenticate_signed_def remembers_def Let_def split: if_splits)
qed

text \<open>C8. A signed request is accepted at most once. Once a request has been accepted, the same header is refused at every
  later time, with whatever method, target and body, whatever other requests, registrations and revocations came in
  between: while its time is still near, its nonce is remembered, and after that its time refuses it.\<close>

theorem signed_request_once:
  assumes "authenticate_signed ed h r now d = (d1, Inr p)" and "(key_step ed)\<^sup>*\<^sup>* (now, d1) (later, e)"
  shows "\<exists>err. authenticate_signed ed h r' later e = (e, Inl err)"
proof (cases "verified_key ed h r' later e")
  case (Inl err)
  then show ?thesis by (simp add: authenticate_signed_def)
next
  case (Inr fk)
  obtain f k where fk: "fk = (f, k)" by (cases fk)
  note k = verified_keyD [OF Inr [unfolded fk]]
  have "remembers (sf_key f) (sf_nonce f) (int_of_digits (sf_ts f)) (later, e)"
    using key_steps_remember [OF assms(2)] accepted_remembers [OF assms(1) k(1)] by blast
  moreover have "later \<le> int_of_digits (sf_ts f) * second + SKEW" using k(2) by simp
  ultimately obtain seen where "(sf_key f, sf_nonce f, seen) \<in> set (au_nonces e)" "int_of_digits (sf_ts f) * second - SKEW \<le> seen"
    by (auto simp: remembers_def)
  with forget_keeps [OF this] k have "(ck_id k, sf_nonce f, seen) \<in> set (au_nonces (forget_nonces later e))" by simp
  then show ?thesis using Inr fk by (force simp: authenticate_signed_def Let_def)
qed

text \<open>C39. What an accepted request proves. Its key is registered and not revoked, its signature is one over exactly this
  method, target, body, delegated user, time and nonce, its time is within a minute, and the principal acts as the
  Telegram adapter for a key of a bot, and otherwise as the account of the key, which is an approved administrator.\<close>

theorem signed_request_sound:
  assumes "authenticate_signed ed h r now d = (d1, Inr p)"
  shows "\<exists>f k. parse_header h = Some f \<and> k \<in> set (au_client_keys d) \<and> ck_id k = sf_key f \<and> ck_revoked_at k = None
    \<and> \<bar>now - int_of_digits (sf_ts f) * second\<bar> \<le> SKEW
    \<and> ed_verify ed (ck_public_key k) (sf_sig f) (message ed (rq_method r) (rq_target r) (rq_body r) (sf_ts f) (sf_nonce f) (rq_delegated r))
    \<and> pr_id p = ck_id k \<and> (if ck_kind k = ''bot'' then pr_kind p = ADAPTER \<and> pr_account_id p = None
       else pr_kind p = ACCOUNT \<and> pr_account_id p = ck_account k
         \<and> (\<exists>a \<in> set (au_accounts d). Some (acc_id a) = ck_account k \<and> acc_role a = ''admin'' \<and> acc_status a = ''approved''))"
proof -
  obtain f k where v: "verified_key ed h r now d = Inr (f, k)" using assms
    by (cases "verified_key ed h r now d") (auto simp: authenticate_signed_def)
  obtain d2 where d2: "key_principal d2 k = Inr p" "au_accounts d2 = au_accounts d"
    using assms v by (auto simp: authenticate_signed_def Let_def touch_key_def forget_nonces_def split: if_splits)
  then have "pr_id p = ck_id k \<and> (if ck_kind k = ''bot'' then pr_kind p = ADAPTER \<and> pr_account_id p = None
       else pr_kind p = ACCOUNT \<and> pr_account_id p = ck_account k
         \<and> (\<exists>a \<in> set (au_accounts d). Some (acc_id a) = ck_account k \<and> acc_role a = ''admin'' \<and> acc_status a = ''approved''))"
    by (auto simp: key_principal_def staff_account_def split: if_splits option.splits dest: find_Some_iff)
  with verified_keyD [OF v] show ?thesis by blast
qed

section \<open>Witnesses\<close>

text \<open>A signature here is the length of the text that is signed.\<close>

definition sample_ed :: ed25519 where
  "sample_ed = \<lparr>ed_key = (\<lambda>s. Some s), ed_verify = (\<lambda>key s m. s = nat_str (length m)), ed_sha = (\<lambda>b. ''00'')\<rparr>"

definition sample_header :: string where
  "sample_header = SCHEME @ ''key='' @ replicate 32 CHR ''a'' @ '', ts=100, nonce='' @ replicate 16 CHR ''n'' @ '', sig=41''"

definition sample_request :: request where
  "sample_request = \<lparr>rq_method = ''get'', rq_target = ''/a'', rq_body = [], rq_delegated = None\<rparr>"

definition keyed_auth :: auth_db where
  "keyed_auth = sample_auth\<lparr>au_client_keys := [\<lparr>ck_id = replicate 32 CHR ''a'', ck_kind = ''bot'', ck_public_key = ''k'', ck_account = None, ck_name = ''n'',
     ck_created_at = 0, ck_last_used_at = None, ck_revoked_at = None\<rparr>]\<rparr>"

definition signed_once :: "auth_db \<times> principal tx" where
  "signed_once = authenticate_signed sample_ed (Some sample_header) sample_request (90 * second) keyed_auth"

lemma signed_once_ok: "signed_once = (fst signed_once, Inr (projr (snd signed_once)))"
proof -
  have "is_ok (snd signed_once)" by code_simp
  then show ?thesis by (metis is_ok_projr prod.collapse)
qed

theorem signed_request_once_witness:
  "\<exists>err. authenticate_signed sample_ed (Some sample_header) sample_request (90 * second) (fst signed_once) = (fst signed_once, Inl err)"
  by (rule signed_request_once [OF signed_once_ok [unfolded signed_once_def] rtranclp.rtrancl_refl, folded signed_once_def])

theorem signed_request_sound_witness: "pr_kind (projr (snd signed_once)) = ADAPTER"
proof -
  have "\<forall>k \<in> set (au_client_keys keyed_auth). ck_kind k = ''bot''" by code_simp
  with signed_request_sound [OF signed_once_ok [unfolded signed_once_def], folded signed_once_def] show ?thesis by fastforce
qed

end
