(* ===== verification/Vpn_Policies.thy ===== *)
theory Vpn_Policies
  imports Maintenance_Gate Authorization
begin

text \<open>
  \<^verbatim>\<open>app/backend/vpn_policies.py\<close>: the registry of policy keys, the resolution of effective values over
  installation, tariff, profile and device, and the command that changes a subject's values. The two
  readers of \<^verbatim>\<open>app/backend/tariffs.py\<close> that the resolution calls are here as well.

  The host's time zone database is the argument \<open>zones\<close>, the digest of a command's canonical JSON text the
  argument \<open>fp\<close>.
\<close>

named_theorems policy_defs \<open>definitions of the policy registry, for evaluation\<close>

section \<open>Registry\<close>

datatype scope = Global | Node | NodeProtocol

datatype validator = Integer int int | Choice "string list" | TimeZone

record policy_key =
  pk_name :: string
  pk_subjects :: "subject_kind list"
  pk_scopes :: "scope list"
  pk_validate :: validator
  pk_default :: pyval
  pk_protocols :: "protocol list"
  pk_setting :: "string option"

definition MODES :: "string list" where "MODES = [''off'', ''observe'', ''enforce'']"

text \<open>\<open>integer\<close>, \<open>choice\<close> and \<open>time_zone\<close>: whether the value is accepted, which returns it unchanged.\<close>

definition accepts :: "(string \<Rightarrow> bool) \<Rightarrow> validator \<Rightarrow> pyval \<Rightarrow> bool" where
  "accepts zones v value = (case v of
     Integer minimum maximum \<Rightarrow> (case value of PInt n \<Rightarrow> minimum \<le> n \<and> n \<le> maximum | _ \<Rightarrow> False)
   | Choice values \<Rightarrow> (case value of PStr s \<Rightarrow> s \<in> set values | _ \<Rightarrow> False)
   | TimeZone \<Rightarrow> (case value of
       PStr s \<Rightarrow> 1 \<le> length s \<and> length s \<le> 64 \<and> (s = ''UTC'' \<or> zones s) | _ \<Rightarrow> False))"

definition BOTH :: "protocol list" where "BOTH = [Awg, Xray]"

definition mk_key ::
  "string \<Rightarrow> subject_kind list \<Rightarrow> scope list \<Rightarrow> validator \<Rightarrow> pyval \<Rightarrow> protocol list \<Rightarrow> string option \<Rightarrow> policy_key" where
  "mk_key n su sc v de pr se = \<lparr>pk_name = n, pk_subjects = su, pk_scopes = sc, pk_validate = v, pk_default = de,
     pk_protocols = pr, pk_setting = se\<rparr>"

abbreviation all_subjects :: "subject_kind list" where
  "all_subjects \<equiv> [Installation, ProfileSubject, DeviceSubject]"

abbreviation profile_subjects :: "subject_kind list" where
  "profile_subjects \<equiv> [Installation, ProfileSubject]"

definition REGISTRY :: "policy_key list" where
  "REGISTRY =
    [mk_key ''devices.max'' profile_subjects [Global] (Integer 1 1000) PNone BOTH None,
     mk_key ''connections.mode'' all_subjects [Global, Node] (Choice MODES) (PStr ''off'') [Xray] None,
     mk_key ''connections.max_sources'' all_subjects [Global, Node] (Integer 1 100) (PInt 1) [Xray] None,
     mk_key ''connections.window_seconds'' [Installation] [Global] (Integer 30 3600) (PInt 120) [Xray] None,
     mk_key ''connections.cooldown_seconds'' [Installation] [Global] (Integer 0 86400) (PInt 30) [Xray] None,
     mk_key ''quota.bytes'' profile_subjects [Global] (Integer 0 (10 ^ 15)) PNone BOTH None,
     mk_key ''quota.reset'' profile_subjects [Global]
       (Choice [''calendar_month'', ''monthly_anchor'', ''interval'', ''none'']) (PStr ''calendar_month'') BOTH None,
     mk_key ''quota.interval_days'' profile_subjects [Global] (Integer 1 366) (PInt 30) BOTH None,
     mk_key ''quota.on_exhausted'' profile_subjects [Global] (Choice [''freeze'', ''notify'', ''throttle''])
       (PStr ''freeze'') BOTH None,
     mk_key ''quota.throttle_kbit'' profile_subjects [Global] (Integer 64 100000000) (PInt 1000) BOTH None,
     mk_key ''quota.timezone'' [Installation] [Global] TimeZone (PStr ''UTC'') BOTH None,
     mk_key ''speed.up_kbit'' all_subjects [Global, Node] (Integer 0 100000000) PNone BOTH None,
     mk_key ''speed.down_kbit'' all_subjects [Global, Node] (Integer 0 100000000) PNone BOTH None,
     mk_key ''xray.bittorrent'' [Installation] [Global, Node] (Choice [''allow'', ''block'']) (PStr ''allow'') [Xray]
       (Some ''xray_bittorrent'')]"

definition registered :: "string \<Rightarrow> policy_key option" where
  "registered name = find (\<lambda>k. pk_name k = name) REGISTRY"

section \<open>Tariff layer\<close>

text \<open>\<open>tariffs.policy_keys\<close> and \<open>tariffs.profile_values\<close>.\<close>

definition tariff_policy_keys :: "string list" where
  "tariff_policy_keys =
     sort (map pk_name (filter (\<lambda>k. ProfileSubject \<in> set (pk_subjects k) \<and> Global \<in> set (pk_scopes k)) REGISTRY))"

definition profile_tariff :: "db \<Rightarrow> string \<Rightarrow> tariff_row option" where
  "profile_tariff d profile_id = (case find (\<lambda>a. pt_profile a = profile_id) (profile_tariffs d) of
     None \<Rightarrow> None | Some a \<Rightarrow> find (\<lambda>t. tf_id t = pt_tariff a) (tariffs d))"

definition profile_values :: "db \<Rightarrow> string \<Rightarrow> (string \<times> pyval) list" where
  "profile_values d profile_id = (case profile_tariff d profile_id of None \<Rightarrow> [] | Some t \<Rightarrow> tf_policies t)"

section \<open>Resolution\<close>

definition row_scope :: "string option \<Rightarrow> protocol option \<Rightarrow> scope" where
  "row_scope node_key protocol =
     (if protocol \<noteq> None then NodeProtocol else if node_key \<noteq> None then Node else Global)"

definition scope_rank :: "scope \<Rightarrow> int" where
  "scope_rank s = (case s of Global \<Rightarrow> 0 | Node \<Rightarrow> 1 | NodeProtocol \<Rightarrow> 2)"

definition coalesce :: "string option \<Rightarrow> string" where
  "coalesce v = (case v of None \<Rightarrow> [] | Some s \<Rightarrow> s)"

definition protocol_name :: "protocol \<Rightarrow> string" where
  "protocol_name p = (case p of Awg \<Rightarrow> ''awg'' | Xray \<Rightarrow> ''xray'')"

definition subject_profile :: "subject_kind \<Rightarrow> string option \<Rightarrow> string option" where
  "subject_profile kind i = (if kind = ProfileSubject then i else None)"

definition subject_device :: "subject_kind \<Rightarrow> string option \<Rightarrow> string option" where
  "subject_device kind i = (if kind = DeviceSubject then i else None)"

definition of_subject :: "subject_kind \<Rightarrow> string option \<Rightarrow> policy_row \<Rightarrow> bool" where
  "of_subject kind i r = (vp_subject r = kind \<and> coalesce (vp_profile r) = coalesce (subject_profile kind i)
     \<and> coalesce (vp_device r) = coalesce (subject_device kind i))"

definition subject_rows :: "db \<Rightarrow> subject_kind \<Rightarrow> string option \<Rightarrow> policy_row list" where
  "subject_rows d kind i =
     order_by (\<lambda>r. (vp_key r, coalesce (vp_node r), coalesce (map_option protocol_name (vp_protocol r))))
       (filter (of_subject kind i) (policies d))"

record target =
  tg_profile :: "string option"
  tg_device :: "string option"
  tg_node :: "string option"
  tg_protocol :: "protocol option"

definition no_target :: target where
  "no_target = \<lparr>tg_profile = None, tg_device = None, tg_node = None, tg_protocol = None\<rparr>"

datatype layer = OwnLayer subject_kind "string option" | TariffLayer string

text \<open>The order of the best value found so far for each key, and the values: the dicts \<open>best\<close> and
  \<open>result\<close> of the source.\<close>

type_synonym resolution = "(string \<times> int \<times> int) list \<times> (string \<times> pyval) list"

definition row_applies :: "target \<Rightarrow> policy_row \<Rightarrow> bool" where
  "row_applies tg r = ((vp_node r = None \<or> vp_node r = tg_node tg) \<and> (vp_protocol r = None \<or> vp_protocol r = tg_protocol tg))"

definition best_order :: "(string \<times> int \<times> int) list \<Rightarrow> string \<Rightarrow> int \<times> int" where
  "best_order best name = (case map_of best name of None \<Rightarrow> (-1, -1) | Some b \<Rightarrow> b)"

definition apply_row :: "target \<Rightarrow> int \<Rightarrow> policy_row \<Rightarrow> resolution \<Rightarrow> resolution" where
  "apply_row tg subject_rank r st =
     (if map_of (snd st) (vp_key r) \<noteq> None \<and> row_applies tg r
        \<and> (subject_rank, scope_rank (row_scope (vp_node r) (vp_protocol r))) \<ge> best_order (fst st) (vp_key r)
      then (dict_set (vp_key r) (subject_rank, scope_rank (row_scope (vp_node r) (vp_protocol r))) (fst st),
            dict_set (vp_key r) (vp_value r) (snd st))
      else st)"

definition apply_tariff :: "int \<Rightarrow> string \<times> pyval \<Rightarrow> resolution \<Rightarrow> resolution" where
  "apply_tariff subject_rank nv st =
     (if map_of (snd st) (fst nv) \<noteq> None
      then (dict_set (fst nv) (subject_rank, 0) (fst st), dict_set (fst nv) (snd nv) (snd st)) else st)"

definition apply_layer :: "db \<Rightarrow> target \<Rightarrow> int \<times> layer \<Rightarrow> resolution \<Rightarrow> resolution" where
  "apply_layer d tg rl st = (case snd rl of
     TariffLayer profile_id \<Rightarrow> fold (apply_tariff (fst rl)) (profile_values d profile_id) st
   | OwnLayer kind i \<Rightarrow> fold (apply_row tg (fst rl)) (subject_rows d kind i) st)"

definition layers :: "target \<Rightarrow> layer list" where
  "layers tg = [OwnLayer Installation None]
     @ (case tg_profile tg of None \<Rightarrow> [] | Some p \<Rightarrow> [TariffLayer p, OwnLayer ProfileSubject (Some p)])
     @ (case tg_device tg of None \<Rightarrow> [] | Some v \<Rightarrow> [OwnLayer DeviceSubject (Some v)])"

definition ranked_layers :: "target \<Rightarrow> (int \<times> layer) list" where
  "ranked_layers tg = zip (map int [0..<length (layers tg)]) (layers tg)"

text \<open>The profile of a device target.\<close>

definition resolve_target :: "db \<Rightarrow> target \<Rightarrow> target tx" where
  "resolve_target d tg =
     guard (\<not> (tg_protocol tg \<noteq> None \<and> tg_node tg = None)) (ValueError ''protocol scope requires a node'')
     (case tg_device tg of
        None \<Rightarrow> Inr tg
      | Some i \<Rightarrow> (case find (\<lambda>v. dv_id v = i) (devices d) of
          None \<Rightarrow> Inl (ValueError ''device does not belong to profile'')
        | Some v \<Rightarrow> guard (tg_profile tg = None \<or> tg_profile tg = Some (dv_profile v))
            (ValueError ''device does not belong to profile'') (Inr (tg\<lparr>tg_profile := Some (dv_profile v)\<rparr>))))"

definition effective :: "db \<Rightarrow> target \<Rightarrow> string list option \<Rightarrow> (string \<times> pyval) list tx" where
  "effective d tg keys =
     res_bind (resolve_target d tg) (\<lambda>tg'.
     (let names = sort (case keys of None \<Rightarrow> map pk_name REGISTRY | Some ks \<Rightarrow> ks) in
      guard (\<forall>name \<in> set names. registered name \<noteq> None) (ValueError ''unknown policy key'')
      (Inr (snd (fold (apply_layer d tg') (ranked_layers tg')
        ([], map (\<lambda>name. (name, case registered name of None \<Rightarrow> PNone | Some k \<Rightarrow> pk_default k)) (remdups names)))))))"

section \<open>Node settings and member limits\<close>

definition value_of :: "(string \<times> pyval) list \<Rightarrow> string \<Rightarrow> pyval tx" where
  "value_of values name = (case map_of values name of None \<Rightarrow> Inl (KeyError name) | Some v \<Rightarrow> Inr v)"

text \<open>The settings of one registered key: a value per protocol of the node that differs from the default.\<close>

definition key_settings :: "db \<Rightarrow> string \<Rightarrow> protocol list \<Rightarrow> policy_key \<Rightarrow> (string \<times> pyval) list \<Rightarrow> (string \<times> pyval) list tx" where
  "key_settings d node_key protocols spec values = (case pk_setting spec of
     None \<Rightarrow> Inr values
   | Some setting \<Rightarrow>
       res_fold (\<lambda>protocol values.
         res_bind (effective d \<lparr>tg_profile = None, tg_device = None, tg_node = Some node_key, tg_protocol = Some protocol\<rparr>
                     (Some [pk_name spec])) (\<lambda>resolved.
         res_bind (value_of resolved (pk_name spec)) (\<lambda>value.
           Inr (if value \<noteq> pk_default spec then dict_set setting value values else values))))
         (filter (\<lambda>p. p \<in> set (pk_protocols spec) \<and> p \<in> set protocols) BOTH) values)"

definition runtime_settings :: "db \<Rightarrow> string \<Rightarrow> protocol list \<Rightarrow> (string \<times> pyval) list tx" where
  "runtime_settings d node_key protocols = res_fold (key_settings d node_key protocols) REGISTRY []"

definition overridden_nodes :: "db \<Rightarrow> policy_key \<Rightarrow> string option \<Rightarrow> string list" where
  "overridden_nodes d spec node_key =
     (if node_key \<noteq> None then []
      else map (\<lambda>r. coalesce (vp_node r)) (filter (\<lambda>r. vp_subject r = Installation \<and> vp_key r = pk_name spec
             \<and> vp_node r \<noteq> None \<and> vp_protocol r = None) (policies d)))"

definition mark_nodes :: "policy_key \<Rightarrow> string option \<Rightarrow> db \<Rightarrow> db" where
  "mark_nodes spec node_key d = d\<lparr>nodes :=
     update_where (\<lambda>n. (node_key = None \<or> node_key = Some (nd_key n)) \<and> nd_key n \<notin> set (overridden_nodes d spec node_key)
         \<and> (\<exists>p \<in> set (pk_protocols spec). p \<in> set (nd_protocols n)))
       (\<lambda>n. n\<lparr>nd_desired_revision := nd_desired_revision n + 1\<rparr>) (nodes d)\<rparr>"

definition MEMBER_KEYS :: "string list" where
  "MEMBER_KEYS = [''devices.max'', ''quota.bytes'', ''quota.reset'', ''quota.interval_days'', ''quota.on_exhausted'',
     ''speed.up_kbit'', ''speed.down_kbit'', ''connections.mode'', ''connections.max_sources'']"

definition global_row :: "policy_row \<Rightarrow> bool" where
  "global_row r = (vp_node r = None \<and> vp_protocol r = None)"

definition member_limits :: "db \<Rightarrow> string \<Rightarrow> (string \<times> pyval \<times> bool) list tx" where
  "member_limits d profile_id =
     res_bind (effective d (no_target\<lparr>tg_profile := Some profile_id\<rparr>) (Some MEMBER_KEYS)) (\<lambda>values.
       res_map (\<lambda>name. res_bind (value_of values name) (\<lambda>v.
           Inr (name, v, name \<in> set (map vp_key (filter global_row (subject_rows d ProfileSubject (Some profile_id)))))))
         MEMBER_KEYS)"

section \<open>Commands\<close>

definition authorize_subject :: "actor \<Rightarrow> subject_kind \<Rightarrow> unit tx" where
  "authorize_subject actor kind =
     require_permission actor (if kind = Installation then ''settings.manage'' else ''profiles.manage'')"

definition lock_subject :: "db \<Rightarrow> subject_kind \<Rightarrow> string option \<Rightarrow> unit tx" where
  "lock_subject d kind i = (case kind of
     Installation \<Rightarrow> guard (i = None) (AccessDenied ''invalid_input'' 422) (Inr ())
   | ProfileSubject \<Rightarrow> (case i of
       None \<Rightarrow> Inl (AccessDenied ''invalid_input'' 422)
     | Some p \<Rightarrow> guard ((\<exists>r \<in> set (profiles d). pf_id r = p) \<and> p \<notin> set (profile_deletions d))
         (AccessDenied ''resource_not_found'' 404) (Inr ()))
   | DeviceSubject \<Rightarrow> (case i of
       None \<Rightarrow> Inl (AccessDenied ''invalid_input'' 422)
     | Some v \<Rightarrow> guard (\<exists>r \<in> set (devices d). dv_id r = v \<and> dv_status r = DevActive)
         (AccessDenied ''resource_not_found'' 404) (Inr ())))"

definition subject_target :: "subject_kind \<Rightarrow> string option \<Rightarrow> target" where
  "subject_target kind i = no_target\<lparr>tg_profile := subject_profile kind i, tg_device := subject_device kind i\<rparr>"

definition subject_keys :: "subject_kind \<Rightarrow> string list" where
  "subject_keys kind = sort (map pk_name (filter (\<lambda>k. kind \<in> set (pk_subjects k) \<and> Global \<in> set (pk_scopes k)) REGISTRY))"

text \<open>\<open>_keys\<close>: a dict comprehension over the rows keeps the last row of a key.\<close>

definition own_global :: "db \<Rightarrow> subject_kind \<Rightarrow> string option \<Rightarrow> string \<Rightarrow> policy_row option" where
  "own_global d kind i name = find (\<lambda>r. vp_key r = name) (rev (filter global_row (subject_rows d kind i)))"

definition key_views :: "db \<Rightarrow> subject_kind \<Rightarrow> string option \<Rightarrow> key_view list tx" where
  "key_views d kind i =
     res_bind (if subject_keys kind = [] then Inr []
               else effective d (subject_target kind i) (Some (subject_keys kind))) (\<lambda>resolved.
       res_map (\<lambda>name. res_bind (value_of resolved name) (\<lambda>v.
         let own = own_global d kind i name in
         Inr \<lparr>kv_key = name, kv_value = (case own of None \<Rightarrow> PNone | Some r \<Rightarrow> vp_value r),
              kv_revision = (case own of None \<Rightarrow> 0 | Some r \<Rightarrow> vp_revision r),
              kv_default = (case registered name of None \<Rightarrow> PNone | Some k \<Rightarrow> pk_default k), kv_effective = v,
              kv_tariff = (if kind = ProfileSubject then Some (case map_of (profile_values d (coalesce i)) name of
                              None \<Rightarrow> PNone | Some w \<Rightarrow> w) else None)\<rparr>))
         (subject_keys kind))"

definition view_of :: "db \<Rightarrow> subject_kind \<Rightarrow> string option \<Rightarrow> policy_view tx" where
  "view_of d kind i = res_bind (key_views d kind i) (\<lambda>keys.
     Inr \<lparr>pv_subject = kind, pv_subject_id = i, pv_keys = keys,
          pv_values = filter (\<lambda>r. registered (vp_key r) \<noteq> None) (subject_rows d kind i)\<rparr>)"

definition policies_get :: "actor \<Rightarrow> subject_kind \<Rightarrow> string option \<Rightarrow> db \<Rightarrow> policy_view tx" where
  "policies_get actor kind i d =
     res_bind (authorize_subject actor kind) (\<lambda>_.
     guard (kind = ProfileSubject \<longrightarrow> (\<exists>r \<in> set (profiles d). Some (pf_id r) = i)) (AccessDenied ''resource_not_found'' 404)
     (guard (kind = DeviceSubject \<longrightarrow> (\<exists>r \<in> set (devices d). Some (dv_id r) = i)) (AccessDenied ''resource_not_found'' 404)
       (view_of d kind i)))"

record policy_change =
  ch_key :: string
  ch_node :: "string option"
  ch_protocol :: "protocol option"
  ch_value :: "pyval option"
  ch_revision :: int

definition hashable :: "pyval \<Rightarrow> bool" where
  "hashable v = (case v of PList _ \<Rightarrow> False | PDict _ \<Rightarrow> False | _ \<Rightarrow> True)"

definition dict_get :: "string \<Rightarrow> (string \<times> pyval) list \<Rightarrow> pyval" where
  "dict_get k c = (case map_of c k of None \<Rightarrow> PNone | Some v \<Rightarrow> v)"

abbreviation invalid_input :: error where
  "invalid_input \<equiv> AccessDenied ''invalid_input'' 422"

text \<open>The protocol of a change: a member of the key's protocols; an unhashable value raises.\<close>

definition change_protocol :: "policy_key \<Rightarrow> string option \<Rightarrow> pyval \<Rightarrow> protocol option tx" where
  "change_protocol spec node_key v = (case v of
     PNone \<Rightarrow> Inr None
   | _ \<Rightarrow> guard (node_key \<noteq> None) invalid_input
       (guard (hashable v) TypeError
       (case find (\<lambda>p. v = PStr (protocol_name p)) (pk_protocols spec) of
          None \<Rightarrow> Inl invalid_input | Some p \<Rightarrow> Inr (Some p))))"

definition change_node :: "pyval \<Rightarrow> string option tx" where
  "change_node v = (case v of PNone \<Rightarrow> Inr None | PStr s \<Rightarrow> Inr (Some s) | _ \<Rightarrow> Inl invalid_input)"

definition checked_change ::
  "(string \<Rightarrow> bool) \<Rightarrow> db \<Rightarrow> subject_kind \<Rightarrow> policy_key \<Rightarrow> int \<Rightarrow> (string \<times> pyval) list \<Rightarrow> policy_change tx" where
  "checked_change zones d kind spec revision c =
     guard (kind \<in> set (pk_subjects spec) \<and> 0 \<le> revision) invalid_input
     (guard (pk_setting spec = None \<or> kind = Installation) invalid_input
     (res_bind (change_node (dict_get ''node_key'' c)) (\<lambda>node_key.
      res_bind (change_protocol spec node_key (dict_get ''protocol'' c)) (\<lambda>protocol.
      guard (row_scope node_key protocol \<in> set (pk_scopes spec)) invalid_input
      (guard (case node_key of None \<Rightarrow> True | Some k \<Rightarrow> \<exists>n \<in> set (nodes d). nd_key n = k)
        (AccessDenied ''resource_not_found'' 404)
      (let value = (case dict_get ''value'' c of PNone \<Rightarrow> None | v \<Rightarrow> Some v) in
       guard (case value of None \<Rightarrow> True | Some v \<Rightarrow> accepts zones (pk_validate spec) v)
         (AccessDenied ''invalid_policy_value'' 422)
         (Inr \<lparr>ch_key = pk_name spec, ch_node = node_key, ch_protocol = protocol, ch_value = value,
               ch_revision = revision\<rparr>)))))))"

definition parse_change :: "(string \<Rightarrow> bool) \<Rightarrow> db \<Rightarrow> subject_kind \<Rightarrow> pyval \<Rightarrow> policy_change tx" where
  "parse_change zones d kind change = (case change of
     PDict c \<Rightarrow>
       guard (fst ` set c \<subseteq> {''key'', ''node_key'', ''protocol'', ''value'', ''revision''}
              \<and> {''key'', ''revision''} \<subseteq> fst ` set c) invalid_input
       (guard (hashable (dict_get ''key'' c)) TypeError
       (case (dict_get ''key'' c, dict_get ''revision'' c) of
          (PStr key, PInt revision) \<Rightarrow>
            (case registered key of None \<Rightarrow> Inl invalid_input
             | Some spec \<Rightarrow> checked_change zones d kind spec revision c)
        | _ \<Rightarrow> Inl invalid_input))
   | _ \<Rightarrow> Inl invalid_input)"

definition change_target :: "policy_change \<Rightarrow> string \<times> string option \<times> protocol option" where
  "change_target c = (ch_key c, ch_node c, ch_protocol c)"

text \<open>The row a change addresses.\<close>

definition addressed :: "subject_kind \<Rightarrow> string option \<Rightarrow> policy_change \<Rightarrow> policy_row \<Rightarrow> bool" where
  "addressed kind i c r = (of_subject kind i r \<and> coalesce (vp_node r) = coalesce (ch_node c)
     \<and> coalesce (map_option protocol_name (vp_protocol r)) = coalesce (map_option protocol_name (ch_protocol c))
     \<and> vp_key r = ch_key c)"

definition apply_change :: "subject_kind \<Rightarrow> string option \<Rightarrow> instant \<Rightarrow> policy_change \<Rightarrow> db \<Rightarrow> db tx" where
  "apply_change kind i now c d0 =
     (let row = find (addressed kind i c) (policies d0);
          d = (case registered (ch_key c) of
                 None \<Rightarrow> d0 | Some spec \<Rightarrow> if pk_setting spec \<noteq> None then mark_nodes spec (ch_node c) d0 else d0)
      in guard ((case row of None \<Rightarrow> 0 | Some r \<Rightarrow> vp_revision r) = ch_revision c) (AccessDenied ''revision_conflict'' 412)
        (Inr (case ch_value c of
           None \<Rightarrow> (case row of
              None \<Rightarrow> d
            | Some r \<Rightarrow> d\<lparr>policies := filter (\<lambda>q. vp_id q \<noteq> vp_id r) (policies d)\<rparr>)
         | Some v \<Rightarrow> (case row of
              Some r \<Rightarrow> d\<lparr>policies := update_where (\<lambda>q. vp_id q = vp_id r)
                 (\<lambda>q. q\<lparr>vp_value := v, vp_revision := vp_revision q + 1, vp_updated_at := now\<rparr>) (policies d)\<rparr>
            | None \<Rightarrow> (let (new_id, d1) = draw d in
                d1\<lparr>policies := policies d1 @ [\<lparr>vp_id = new_id, vp_subject = kind, vp_profile = subject_profile kind i,
                  vp_device = subject_device kind i, vp_node = ch_node c, vp_protocol = ch_protocol c, vp_key = ch_key c,
                  vp_value = v, vp_revision = 1, vp_updated_at = now\<rparr>]\<rparr>)))))"

type_synonym fingerprint = "subject_kind \<times> string option \<times> pyval list \<Rightarrow> string"

definition is_command :: "actor \<Rightarrow> string \<Rightarrow> policy_command_row \<Rightarrow> bool" where
  "is_command actor key c = (pc_principal c = pr_id (actor_principal actor)
     \<and> pc_actor c = ac_id (actor_account actor) \<and> pc_key c = key)"

definition apply_changes ::
  "(string \<Rightarrow> bool) \<Rightarrow> subject_kind \<Rightarrow> string option \<Rightarrow> pyval list \<Rightarrow> instant \<Rightarrow> db \<Rightarrow> db tx" where
  "apply_changes zones kind i changes now d =
     res_bind (lock_subject d kind i) (\<lambda>_.
     res_bind (res_map (parse_change zones d kind) changes) (\<lambda>parsed.
     guard (distinct (map change_target parsed)) invalid_input
       (res_fold (apply_change kind i now) parsed d)))"

definition policies_set ::
  "(string \<Rightarrow> bool) \<Rightarrow> fingerprint \<Rightarrow> actor \<Rightarrow> pyval \<Rightarrow> subject_kind \<Rightarrow> string option \<Rightarrow> pyval \<Rightarrow> instant \<Rightarrow> db
   \<Rightarrow> (db \<times> policy_view) tx" where
  "policies_set zones fp actor command_key kind i changes now d0 =
     (case (case command_key of PStr s \<Rightarrow> uuid_str s | _ \<Rightarrow> None) of
        None \<Rightarrow> Inl (AccessDenied ''invalid_idempotency_key'' 422)
      | Some key \<Rightarrow>
     res_bind (authorize_subject actor kind) (\<lambda>_.
     (case changes of
        PList cs \<Rightarrow>
          guard (1 \<le> length cs \<and> length cs \<le> 50) invalid_input
          (res_bind (admit False d0) (\<lambda>d.
          (case find (is_command actor key) (policy_commands d) of
             Some c \<Rightarrow> guard (pc_fingerprint c = fp (kind, i, cs)) (AccessDenied ''idempotency_conflict'' 409)
                         (Inr (d, pc_result c))
           | None \<Rightarrow>
               res_bind (apply_changes zones kind i cs now d) (\<lambda>d1.
               res_bind (view_of d1 kind i) (\<lambda>result.
                 Inr (d1\<lparr>policy_commands := policy_commands d1 @ [\<lparr>pc_principal = pr_id (actor_principal actor),
                        pc_actor = ac_id (actor_account actor), pc_key = key, pc_fingerprint = fp (kind, i, cs),
                        pc_result = result\<rparr>]\<rparr>, result))))))
      | _ \<Rightarrow> Inl invalid_input)))"

text \<open>A device's policies are reached through its profile.\<close>

definition own_device :: "actor \<Rightarrow> string \<Rightarrow> string \<Rightarrow> db \<Rightarrow> unit tx" where
  "own_device actor profile_id device_id d =
     res_bind (authorize_subject actor DeviceSubject) (\<lambda>_.
     guard (\<exists>r \<in> set (devices d). dv_id r = device_id \<and> dv_profile r = profile_id)
       (AccessDenied ''resource_not_found'' 404) (Inr ()))"

definition policies_get_device :: "actor \<Rightarrow> string \<Rightarrow> string \<Rightarrow> db \<Rightarrow> policy_view tx" where
  "policies_get_device actor profile_id device_id d =
     res_bind (own_device actor profile_id device_id d) (\<lambda>_. policies_get actor DeviceSubject (Some device_id) d)"

definition policies_set_device ::
  "(string \<Rightarrow> bool) \<Rightarrow> fingerprint \<Rightarrow> actor \<Rightarrow> pyval \<Rightarrow> string \<Rightarrow> string \<Rightarrow> pyval \<Rightarrow> instant \<Rightarrow> db
   \<Rightarrow> (db \<times> policy_view) tx" where
  "policies_set_device zones fp actor command_key profile_id device_id changes now d =
     res_bind (own_device actor profile_id device_id d) (\<lambda>_.
       policies_set zones fp actor command_key DeviceSubject (Some device_id) changes now d)"

section \<open>The resolution against its specification\<close>

text \<open>The first value present.\<close>

fun first_some :: "'a option list \<Rightarrow> 'a option" where
  "first_some [] = None"
| "first_some (x # xs) = (case x of None \<Rightarrow> first_some xs | Some v \<Rightarrow> Some v)"

text \<open>The subject's own value of a key at one scope, for a target.\<close>

definition own_value :: "db \<Rightarrow> target \<Rightarrow> subject_kind \<Rightarrow> string option \<Rightarrow> string \<Rightarrow> scope \<Rightarrow> pyval option" where
  "own_value d tg kind i name sc = map_option vp_value
     (find (\<lambda>r. of_subject kind i r \<and> vp_key r = name \<and> row_applies tg r \<and> row_scope (vp_node r) (vp_protocol r) = sc)
       (policies d))"

text \<open>What one layer says of a key: its most specific value.\<close>

definition layer_value :: "db \<Rightarrow> target \<Rightarrow> string \<Rightarrow> layer \<Rightarrow> pyval option" where
  "layer_value d tg name l = (case l of
     TariffLayer profile_id \<Rightarrow> map_of (profile_values d profile_id) name
   | OwnLayer kind i \<Rightarrow> first_some (map (own_value d tg kind i name) [NodeProtocol, Node, Global]))"

text \<open>The promise of the module's header, subject by subject: device over profile over tariff over installation over default,
  and for each subject its value for the node and protocol over the one for the node over the global one.\<close>

definition own_values :: "db \<Rightarrow> target \<Rightarrow> string \<Rightarrow> subject_kind \<Rightarrow> string option \<Rightarrow> pyval option list" where
  "own_values d tg name kind i = [own_value d tg kind i name NodeProtocol, own_value d tg kind i name Node, own_value d tg kind i name Global]"

definition resolved_value :: "db \<Rightarrow> target \<Rightarrow> string \<Rightarrow> pyval" where
  "resolved_value d tg name = (case first_some (
       (case tg_device tg of None \<Rightarrow> [] | Some v \<Rightarrow> own_values d tg name DeviceSubject (Some v))
       @ (case tg_profile tg of None \<Rightarrow> [] | Some p \<Rightarrow> own_values d tg name ProfileSubject (Some p) @ [map_of (profile_values d p) name])
       @ own_values d tg name Installation None) of
     Some v \<Rightarrow> v
   | None \<Rightarrow> (case registered name of None \<Rightarrow> PNone | Some k \<Rightarrow> pk_default k))"

text \<open>The table's unique index and its check that a protocol value names a node; a tariff's values are a
  JSON object.\<close>

definition policies_wf :: "db \<Rightarrow> bool" where
  "policies_wf d =
     ((\<forall>r \<in> set (policies d). \<forall>q \<in> set (policies d).
        vp_subject r = vp_subject q \<and> coalesce (vp_profile r) = coalesce (vp_profile q)
        \<and> coalesce (vp_device r) = coalesce (vp_device q) \<and> vp_key r = vp_key q \<and> vp_node r = vp_node q
        \<and> vp_protocol r = vp_protocol q \<longrightarrow> r = q)
      \<and> (\<forall>r \<in> set (policies d). vp_protocol r \<noteq> None \<longrightarrow> vp_node r \<noteq> None)
      \<and> (\<forall>t \<in> set (tariffs d). distinct (map fst (tf_policies t))))"

definition row_rank :: "policy_row \<Rightarrow> int" where
  "row_rank r = scope_rank (row_scope (vp_node r) (vp_protocol r))"

definition relevant :: "target \<Rightarrow> string \<Rightarrow> policy_row \<Rightarrow> bool" where
  "relevant tg n r = (vp_key r = n \<and> row_applies tg r)"

lemma apply_row_other:
  "\<not> relevant tg n r \<Longrightarrow> best_order (fst (apply_row tg k r st)) n = best_order (fst st) n
     \<and> map_of (snd (apply_row tg k r st)) n = map_of (snd st) n"
  by (auto simp: apply_row_def relevant_def best_order_def)

lemma apply_row_relevant:
  "relevant tg n r \<Longrightarrow> map_of (snd st) n \<noteq> None \<Longrightarrow>
     best_order (fst (apply_row tg k r st)) n = (if best_order (fst st) n \<le> (k, row_rank r) then (k, row_rank r) else best_order (fst st) n)
     \<and> map_of (snd (apply_row tg k r st)) n = (if best_order (fst st) n \<le> (k, row_rank r) then Some (vp_value r) else map_of (snd st) n)"
  by (auto simp: apply_row_def relevant_def best_order_def row_rank_def)

lemma apply_row_present: "map_of (snd st) n \<noteq> None \<Longrightarrow> map_of (snd (apply_row tg k r st)) n \<noteq> None"
  by (auto simp: apply_row_def)

lemma fold_rows_present: "map_of (snd st) n \<noteq> None \<Longrightarrow> map_of (snd (fold (apply_row tg k) rs st)) n \<noteq> None"
proof (induction rs arbitrary: st)
  case (Cons r rs)
  from Cons.IH [OF apply_row_present [OF Cons.prems]] show ?case by simp
qed simp

lemma fold_rows_none:
  "\<forall>r \<in> set rs. \<not> relevant tg n r \<Longrightarrow> best_order (fst (fold (apply_row tg k) rs st)) n = best_order (fst st) n
     \<and> map_of (snd (fold (apply_row tg k) rs st)) n = map_of (snd st) n"
  by (induction rs arbitrary: st) (simp_all add: apply_row_other)

text \<open>Rows of one layer that apply at the same scope agree.\<close>

definition agree :: "target \<Rightarrow> string \<Rightarrow> policy_row set \<Rightarrow> bool" where
  "agree tg n S = (\<forall>q \<in> S. \<forall>q' \<in> S. relevant tg n q \<and> relevant tg n q' \<and> row_rank q = row_rank q' \<longrightarrow> vp_value q = vp_value q')"

lemma agree_mono: "agree tg n T \<Longrightarrow> S \<subseteq> T \<Longrightarrow> agree tg n S"
  unfolding agree_def by blast

lemma agreeD: "agree tg n S \<Longrightarrow> q \<in> S \<Longrightarrow> q' \<in> S \<Longrightarrow> relevant tg n q \<Longrightarrow> relevant tg n q' \<Longrightarrow> row_rank q = row_rank q'
  \<Longrightarrow> vp_value q = vp_value q'"
  unfolding agree_def by blast

text \<open>A layer's rows leave the most specific of the applicable ones.\<close>

lemma fold_rows_max:
  assumes "map_of (snd st) n \<noteq> None" and "fst (best_order (fst st) n) < k"
    and "agree tg n (set rs)"
    and "r \<in> set rs" and "relevant tg n r" and "\<forall>q \<in> set rs. relevant tg n q \<longrightarrow> row_rank q \<le> row_rank r"
  shows "best_order (fst (fold (apply_row tg k) rs st)) n = (k, row_rank r)
     \<and> map_of (snd (fold (apply_row tg k) rs st)) n = Some (vp_value r)"
  using assms(3-)
proof (induction rs arbitrary: r rule: rev_induct)
  case Nil
  then show ?case by simp
next
  case (snoc x rs)
  let ?s = "fold (apply_row tg k) rs st"
  have pres: "map_of (snd ?s) n \<noteq> None" using fold_rows_present [OF assms(1)] .
  have step: "fold (apply_row tg k) (rs @ [x]) st = apply_row tg k x ?s" by simp
  have same: "agree tg n (set rs)" by (rule agree_mono [OF snoc.prems(1)]) auto
  show ?case
  proof (cases "\<exists>q \<in> set rs. relevant tg n q \<and> (\<forall>p \<in> set rs. relevant tg n p \<longrightarrow> row_rank p \<le> row_rank q)")
    case True
    then obtain q where q0: "q \<in> set rs" "relevant tg n q \<and> (\<forall>p \<in> set rs. relevant tg n p \<longrightarrow> row_rank p \<le> row_rank q)"
      by (rule bexE)
    note q = q0(1) conjunct1 [OF q0(2)] conjunct2 [OF q0(2)]
    have ih: "best_order (fst ?s) n = (k, row_rank q)" "map_of (snd ?s) n = Some (vp_value q)"
      using snoc.IH [OF same q] by auto
    have qr: "row_rank q \<le> row_rank r" using snoc.prems(4) q by simp
    show ?thesis
    proof (cases "relevant tg n x")
      case rx: True
      show ?thesis
      proof (cases "r = x")
        case True
        then show ?thesis using apply_row_relevant [OF rx pres, of k] ih qr by (simp add: step)
      next
        case False
        with snoc.prems(2) have "r \<in> set rs" by simp
        then have e: "row_rank r = row_rank q" using q snoc.prems(3) qr by force
        then have v: "vp_value r = vp_value q" using agreeD [OF same \<open>r \<in> set rs\<close> q(1) snoc.prems(3) q(2)] by simp
        have "row_rank x \<le> row_rank r" using snoc.prems(4) rx by simp
        moreover have "vp_value x = vp_value r" if "row_rank x = row_rank r"
          using agreeD [OF snoc.prems(1) _ snoc.prems(2) rx snoc.prems(3) that] by simp
        ultimately show ?thesis using apply_row_relevant [OF rx pres, of k] ih e v by (auto simp: step)
      qed
    next
      case False
      with snoc.prems(2,3) have "r \<in> set rs" by auto
      then have e: "row_rank r = row_rank q" using q snoc.prems(3) qr by force
      then have v: "vp_value r = vp_value q" using agreeD [OF same \<open>r \<in> set rs\<close> q(1) snoc.prems(3) q(2)] by simp
      show ?thesis using apply_row_other [OF False, of k ?s] ih e v by (simp add: step)
    qed
  next
    case False
    have none: "\<forall>q \<in> set rs. \<not> relevant tg n q"
    proof (rule ccontr)
      assume "\<not> ?thesis"
      then have ne: "finite (row_rank ` {q \<in> set rs. relevant tg n q})" "row_rank ` {q \<in> set rs. relevant tg n q} \<noteq> {}" by auto
      from Max_in [OF ne] obtain q where "q \<in> set rs" "relevant tg n q" "row_rank q = Max (row_rank ` {q \<in> set rs. relevant tg n q})"
        by auto
      with Max_ge [OF ne(1)] False show False by force
    qed
    with snoc.prems(2,3) have rx: "r = x" by auto
    have "best_order (fst ?s) n = best_order (fst st) n" using fold_rows_none [OF none] by simp
    then have "best_order (fst ?s) n \<le> (k, row_rank r)" using assms(2) by (cases "best_order (fst st) n") simp
    with apply_row_relevant [OF snoc.prems(3)[unfolded rx] pres, of k] show ?thesis by (simp add: step rx)
  qed
qed

lemma row_rank_eq: "row_rank r = row_rank q \<Longrightarrow> row_scope (vp_node r) (vp_protocol r) = row_scope (vp_node q) (vp_protocol q)"
  by (simp add: row_rank_def scope_rank_def split: scope.splits)

lemma same_scope_same_row:
  assumes wf: "policies_wf d" and m: "q \<in> set (subject_rows d kind i)" "q' \<in> set (subject_rows d kind i)"
    and rel: "relevant tg n q" "relevant tg n q'" and rk: "row_rank q = row_rank q'"
  shows "q = q'"
proof -
  have p: "q \<in> set (policies d)" "q' \<in> set (policies d)" "of_subject kind i q" "of_subject kind i q'"
    using m by (auto simp: subject_rows_def)
  have nn: "vp_protocol q \<noteq> None \<longrightarrow> vp_node q \<noteq> None" "vp_protocol q' \<noteq> None \<longrightarrow> vp_node q' \<noteq> None"
    using wf p unfolding policies_wf_def by blast+
  have "vp_node q = vp_node q' \<and> vp_protocol q = vp_protocol q'"
    using rel row_rank_eq [OF rk] nn
    by (auto simp: relevant_def row_applies_def row_scope_def split: if_splits)
  moreover have "vp_subject q = vp_subject q'" "coalesce (vp_profile q) = coalesce (vp_profile q')"
    "coalesce (vp_device q) = coalesce (vp_device q')" "vp_key q = vp_key q'"
    using p rel by (simp_all add: of_subject_def relevant_def)
  ultimately show ?thesis using wf p unfolding policies_wf_def by blast
qed

lemma subject_rows_agree: "policies_wf d \<Longrightarrow> agree tg n (set (subject_rows d kind i))"
  unfolding agree_def using same_scope_same_row by blast

lemma own_valueD:
  assumes "own_value d tg kind i n sc = Some v"
  shows "\<exists>r \<in> set (subject_rows d kind i). relevant tg n r \<and> row_rank r = scope_rank sc \<and> vp_value r = v"
proof -
  from assms obtain r where "find (\<lambda>r. of_subject kind i r \<and> vp_key r = n \<and> row_applies tg r
      \<and> row_scope (vp_node r) (vp_protocol r) = sc) (policies d) = Some r" "vp_value r = v"
    by (auto simp: own_value_def)
  with find_Some_iff [OF this(1)] show ?thesis by (auto simp: subject_rows_def relevant_def row_rank_def)
qed

lemma own_value_None:
  assumes "own_value d tg kind i n sc = None" and "r \<in> set (subject_rows d kind i)" and "relevant tg n r"
  shows "row_scope (vp_node r) (vp_protocol r) \<noteq> sc"
  using assms by (auto simp: own_value_def find_None_iff' subject_rows_def relevant_def)

lemma row_rank_le: "row_rank r \<le> 2" "row_scope (vp_node r) (vp_protocol r) \<noteq> NodeProtocol \<Longrightarrow> row_rank r \<le> 1"
  "row_scope (vp_node r) (vp_protocol r) \<notin> {NodeProtocol, Node} \<Longrightarrow> row_rank r \<le> 0"
  by (auto simp: row_rank_def scope_rank_def split: scope.split)

text \<open>The most specific row of an own layer has the layer's value.\<close>

lemma own_layer_max:
  assumes "layer_value d tg n (OwnLayer kind i) = Some v"
  obtains r where "r \<in> set (subject_rows d kind i)" and "relevant tg n r" and "vp_value r = v"
    and "\<forall>q \<in> set (subject_rows d kind i). relevant tg n q \<longrightarrow> row_rank q \<le> row_rank r"
proof -
  consider (np) "own_value d tg kind i n NodeProtocol = Some v"
    | (nd) "own_value d tg kind i n NodeProtocol = None" "own_value d tg kind i n Node = Some v"
    | (gl) "own_value d tg kind i n NodeProtocol = None" "own_value d tg kind i n Node = None"
        "own_value d tg kind i n Global = Some v"
    using assms by (auto simp: layer_value_def split: option.splits)
  then show ?thesis
  proof cases
    case np
    from own_valueD [OF this] that row_rank_le(1) show ?thesis by (fastforce simp: scope_rank_def)
  next
    case nd
    have "row_rank q \<le> 1" if "q \<in> set (subject_rows d kind i)" "relevant tg n q" for q
      using own_value_None [OF nd(1) that] row_rank_le(2) by blast
    with own_valueD [OF nd(2)] that show ?thesis by (fastforce simp: scope_rank_def)
  next
    case gl
    have "row_rank q \<le> 0" if "q \<in> set (subject_rows d kind i)" "relevant tg n q" for q
      using own_value_None [OF gl(1) that] own_value_None [OF gl(2) that] row_rank_le(3) by blast
    with own_valueD [OF gl(3)] that show ?thesis by (fastforce simp: scope_rank_def)
  qed
qed

lemma own_layer_none:
  assumes "layer_value d tg n (OwnLayer kind i) = None"
  shows "\<forall>r \<in> set (subject_rows d kind i). \<not> relevant tg n r"
proof
  fix r assume r: "r \<in> set (subject_rows d kind i)"
  have none: "own_value d tg kind i n NodeProtocol = None" "own_value d tg kind i n Node = None"
    "own_value d tg kind i n Global = None"
    using assms by (auto simp: layer_value_def split: option.splits)
  show "\<not> relevant tg n r"
  proof
    assume a: "relevant tg n r"
    show False using own_value_None [OF none(1) r a] own_value_None [OF none(2) r a] own_value_None [OF none(3) r a]
      by (cases "row_scope (vp_node r) (vp_protocol r)") auto
  qed
qed

lemma fold_tariff:
  assumes "map_of (snd st) n \<noteq> None" and "distinct (map fst nvs)"
  shows "map_of (snd (fold (apply_tariff k) nvs st)) n = (case map_of nvs n of Some v \<Rightarrow> Some v | None \<Rightarrow> map_of (snd st) n)
     \<and> best_order (fst (fold (apply_tariff k) nvs st)) n = (case map_of nvs n of Some v \<Rightarrow> (k, 0) | None \<Rightarrow> best_order (fst st) n)"
  using assms
proof (induction nvs arbitrary: st)
  case Nil
  then show ?case by simp
next
  case (Cons nv nvs)
  have p: "map_of (snd (apply_tariff k nv st)) n \<noteq> None" using Cons.prems(1) by (auto simp: apply_tariff_def)
  have notin: "map_of nvs (fst nv) = None" using Cons.prems(2) by (auto simp: map_of_eq_None_iff)
  show ?case
  proof (cases "fst nv = n")
    case True
    then show ?thesis using Cons.IH [OF p] Cons.prems notin
      by (cases nv) (auto simp: apply_tariff_def best_order_def)
  next
    case False
    then show ?thesis using Cons.IH [OF p] Cons.prems
      by (cases nv) (auto simp: apply_tariff_def best_order_def split: option.split)
  qed
qed

text \<open>One layer: its value replaces what the layers before it left, and nothing else does.\<close>

lemma apply_layer_value:
  assumes wf: "policies_wf d" and pres: "map_of (snd st) n \<noteq> None" and b: "fst (best_order (fst st) n) < k"
  shows "map_of (snd (apply_layer d tg (k, l) st)) n
       = (case layer_value d tg n l of Some v \<Rightarrow> Some v | None \<Rightarrow> map_of (snd st) n)
     \<and> fst (best_order (fst (apply_layer d tg (k, l) st)) n) < k + 1"
proof (cases l)
  case (TariffLayer p)
  have "distinct (map fst (profile_values d p))"
    using wf by (auto simp: policies_wf_def profile_values_def profile_tariff_def dest!: find_Some_iff split: option.splits)
  from fold_tariff [OF pres this, of k] b show ?thesis
    by (auto simp: TariffLayer apply_layer_def layer_value_def split: option.split)
next
  case (OwnLayer kind i)
  show ?thesis
  proof (cases "layer_value d tg n l")
    case None
    from fold_rows_none [OF own_layer_none [OF None [unfolded OwnLayer]], of k st] b None show ?thesis
      by (simp add: OwnLayer apply_layer_def)
  next
    case (Some v)
    obtain r where "r \<in> set (subject_rows d kind i)" "relevant tg n r" "vp_value r = v"
      "\<forall>q \<in> set (subject_rows d kind i). relevant tg n q \<longrightarrow> row_rank q \<le> row_rank r"
      using Some [unfolded OwnLayer] by (rule own_layer_max)
    with fold_rows_max [OF pres b subject_rows_agree [OF wf], of r] Some show ?thesis
      by (simp add: OwnLayer apply_layer_def)
  qed
qed

lemma fold_layers_value:
  assumes wf: "policies_wf d" and "map_of (snd st) n \<noteq> None" and "fst (best_order (fst st) n) < int m"
  shows "map_of (snd (fold (apply_layer d tg) (zip (map int [m..<m + length ls]) ls) st)) n
     = (case first_some (map (layer_value d tg n) (rev ls)) of Some v \<Rightarrow> Some v | None \<Rightarrow> map_of (snd st) n)"
  using assms(2,3)
proof (induction ls arbitrary: st m)
  case Nil
  then show ?case by simp
next
  case (Cons l ls)
  let ?s = "apply_layer d tg (int m, l) st"
  have s: "map_of (snd ?s) n = (case layer_value d tg n l of Some v \<Rightarrow> Some v | None \<Rightarrow> map_of (snd st) n)"
    "fst (best_order (fst ?s) n) < int (Suc m)"
    using apply_layer_value [OF wf Cons.prems, of tg l] by auto
  have p: "map_of (snd ?s) n \<noteq> None" using s(1) Cons.prems(1) by (auto split: option.split)
  have z: "zip (map int [m..<m + length (l # ls)]) (l # ls) = (int m, l) # zip (map int [Suc m..<Suc m + length ls]) ls"
    by (simp add: upt_conv_Cons del: upt_Suc)
  have f: "first_some (xs @ [x]) = (case first_some xs of Some v \<Rightarrow> Some v | None \<Rightarrow> x)" for xs and x :: "pyval option"
    by (induction xs) (auto split: option.split)
  show ?case unfolding z using Cons.IH [OF p s(2)] s(1) by (simp add: f split: option.split)
qed

lemma registered_known: "registered name \<noteq> None \<longleftrightarrow> name \<in> pk_name ` set REGISTRY"
  unfolding registered_def by (auto simp: find_None_iff')

lemma first_some_append: "first_some (xs @ ys) = (case first_some xs of None \<Rightarrow> first_some ys | Some v \<Rightarrow> Some v)"
  by (induction xs) (auto split: option.split)

lemma resolved_value_layers:
  "resolved_value d tg name = (case first_some (map (layer_value d tg name) (rev (layers tg))) of
     Some v \<Rightarrow> v
   | None \<Rightarrow> (case registered name of None \<Rightarrow> PNone | Some k \<Rightarrow> pk_default k))"
proof -
  have "first_some (map (layer_value d tg name) (rev (layers tg))) = first_some (
       (case tg_device tg of None \<Rightarrow> [] | Some v \<Rightarrow> own_values d tg name DeviceSubject (Some v))
       @ (case tg_profile tg of None \<Rightarrow> [] | Some p \<Rightarrow> own_values d tg name ProfileSubject (Some p) @ [map_of (profile_values d p) name])
       @ own_values d tg name Installation None)"
    by (cases "tg_device tg"; cases "tg_profile tg") (simp_all add: layers_def layer_value_def own_values_def first_some_append split: option.split)
  then show ?thesis by (simp add: resolved_value_def)
qed

lemma effective_value:
  assumes wf: "policies_wf d" and t: "resolve_target d tg = Inr tg'" and e: "effective d tg keys = Inr values"
    and n: "n \<in> set (case keys of None \<Rightarrow> map pk_name REGISTRY | Some ks \<Rightarrow> ks)"
  shows "map_of values n = Some (resolved_value d tg' n)"
proof -
  let ?names = "sort (case keys of None \<Rightarrow> map pk_name REGISTRY | Some ks \<Rightarrow> ks)"
  let ?def = "\<lambda>name. case registered name of None \<Rightarrow> PNone | Some k \<Rightarrow> pk_default k"
  let ?st = "([], map (\<lambda>name. (name, ?def name)) (remdups ?names)) :: resolution"
  have v: "values = snd (fold (apply_layer d tg') (zip (map int [0..<0 + length (layers tg')]) (layers tg')) ?st)"
    using e t by (simp add: effective_def ranked_layers_def Let_def)
  have "n \<in> set (remdups ?names)" using n by simp
  then have i: "map_of (snd ?st) n = Some (?def n)"
    by (simp add: map_of_map_keys [symmetric] map_of_eq_Some_iff comp_def image_iff)
  have b: "fst (best_order (fst ?st) n) < int 0" by (simp add: best_order_def)
  from fold_layers_value [OF wf _ b, of tg' "layers tg'"] i
  show ?thesis unfolding v resolved_value_layers by (simp split: option.split)
qed

text \<open>C6. Effective values are exactly what the layers promise: for every requested key the value is the
  device's own, else the profile's own, else its tariff's, else the installation's, else the default; within
  a subject the node and protocol value wins over the node value over the global one.\<close>

theorem effective_resolves:
  assumes "policies_wf d" and "resolve_target d tg = Inr tg'" and "effective d tg keys = Inr values"
    and "n \<in> set (case keys of None \<Rightarrow> map pk_name REGISTRY | Some ks \<Rightarrow> ks)"
  shows "map_of values n = Some (resolved_value d tg' n)"
  using assms by (rule effective_value)

section \<open>What a change does\<close>

text \<open>The columns of the unique index \<open>backend_vpn_policies_target\<close>.\<close>

definition row_address :: "policy_row \<Rightarrow> subject_kind \<times> string \<times> string \<times> string \<times> string \<times> string" where
  "row_address r = (vp_subject r, coalesce (vp_profile r), coalesce (vp_device r), coalesce (vp_node r),
     coalesce (map_option protocol_name (vp_protocol r)), vp_key r)"

definition change_address :: "subject_kind \<Rightarrow> string option \<Rightarrow> policy_change \<Rightarrow> subject_kind \<times> string \<times> string \<times> string \<times> string \<times> string" where
  "change_address kind i c = (kind, coalesce (subject_profile kind i), coalesce (subject_device kind i),
     coalesce (ch_node c), coalesce (map_option protocol_name (ch_protocol c)), ch_key c)"

lemma addressed_iff: "addressed kind i c r \<longleftrightarrow> row_address r = change_address kind i c"
  by (auto simp: addressed_def of_subject_def row_address_def change_address_def)

text \<open>A row that the registry allows.\<close>

definition row_valid :: "(string \<Rightarrow> bool) \<Rightarrow> policy_row \<Rightarrow> bool" where
  "row_valid zones r = (case registered (vp_key r) of
     None \<Rightarrow> False
   | Some k \<Rightarrow> vp_subject r \<in> set (pk_subjects k) \<and> row_scope (vp_node r) (vp_protocol r) \<in> set (pk_scopes k)
       \<and> accepts zones (pk_validate k) (vp_value r) \<and> (vp_protocol r = None \<or> vp_node r \<noteq> None))"

definition policy_inv :: "(string \<Rightarrow> bool) \<Rightarrow> db \<Rightarrow> bool" where
  "policy_inv zones d = (distinct (map row_address (policies d)) \<and> distinct (map vp_id (policies d))
     \<and> list_all (row_valid zones) (policies d))"

text \<open>The identifiers still to be drawn are new.\<close>

definition fresh_ids :: "db \<Rightarrow> bool" where
  "fresh_ids d = (inj (rng d) \<and> (\<forall>n \<ge> drawn d. rng d n \<notin> vp_id ` set (policies d)))"

definition change_ok :: "(string \<Rightarrow> bool) \<Rightarrow> subject_kind \<Rightarrow> policy_change \<Rightarrow> bool" where
  "change_ok zones kind c = (case registered (ch_key c) of
     None \<Rightarrow> False
   | Some k \<Rightarrow> kind \<in> set (pk_subjects k) \<and> row_scope (ch_node c) (ch_protocol c) \<in> set (pk_scopes k)
       \<and> (case ch_value c of None \<Rightarrow> True | Some v \<Rightarrow> accepts zones (pk_validate k) v)
       \<and> (ch_protocol c = None \<or> ch_node c \<noteq> None))"

lemma change_protocol_node: "change_protocol spec node v = Inr p \<Longrightarrow> p = None \<or> node \<noteq> None"
  by (auto simp: change_protocol_def split: pyval.splits option.splits)

lemma registered_name: "registered n = Some k \<Longrightarrow> pk_name k = n"
  using find_Some_iff by (fastforce simp: registered_def)

lemma parse_change_ok:
  assumes "parse_change zones d kind v = Inr c"
  shows "change_ok zones kind c"
proof -
  from assms obtain cs key revision spec where spec: "registered key = Some spec"
    and c: "checked_change zones d kind spec revision cs = Inr c"
    by (auto simp: parse_change_def split: pyval.splits option.splits)
  have "registered (pk_name spec) = Some spec" using spec registered_name [OF spec] by simp
  with c show ?thesis
    by (auto simp: checked_change_def res_bind_Inr_iff change_ok_def Let_def dest: change_protocol_node)
qed

text \<open>The three ways a change leaves the table.\<close>

definition new_row :: "subject_kind \<Rightarrow> string option \<Rightarrow> instant \<Rightarrow> policy_change \<Rightarrow> string \<Rightarrow> pyval \<Rightarrow> policy_row" where
  "new_row kind i now c new_id v = \<lparr>vp_id = new_id, vp_subject = kind, vp_profile = subject_profile kind i,
     vp_device = subject_device kind i, vp_node = ch_node c, vp_protocol = ch_protocol c, vp_key = ch_key c,
     vp_value = v, vp_revision = 1, vp_updated_at = now\<rparr>"

definition touched_row :: "instant \<Rightarrow> pyval \<Rightarrow> policy_row \<Rightarrow> policy_row" where
  "touched_row now v q = q\<lparr>vp_value := v, vp_revision := vp_revision q + 1, vp_updated_at := now\<rparr>"

lemma mark_nodes_fields [simp]:
  "policies (mark_nodes spec node d) = policies d" "rng (mark_nodes spec node d) = rng d"
  "drawn (mark_nodes spec node d) = drawn d"
  by (simp_all add: mark_nodes_def)

lemma apply_changeD:
  assumes "apply_change kind i now c d = Inr d'"
  obtains (removed) r where "find (addressed kind i c) (policies d) = Some r" "ch_value c = None"
      "policies d' = filter (\<lambda>q. vp_id q \<noteq> vp_id r) (policies d)" "drawn d' = drawn d" "rng d' = rng d"
      "ch_revision c = vp_revision r"
  | (absent) "find (addressed kind i c) (policies d) = None" "ch_value c = None" "policies d' = policies d"
      "drawn d' = drawn d" "rng d' = rng d" "ch_revision c = 0"
  | (updated) r v where "find (addressed kind i c) (policies d) = Some r" "ch_value c = Some v"
      "policies d' = update_where (\<lambda>q. vp_id q = vp_id r) (touched_row now v) (policies d)" "drawn d' = drawn d"
      "rng d' = rng d" "ch_revision c = vp_revision r"
  | (inserted) v where "find (addressed kind i c) (policies d) = None" "ch_value c = Some v"
      "policies d' = policies d @ [new_row kind i now c (rng d (drawn d)) v]" "drawn d' = Suc (drawn d)"
      "rng d' = rng d" "ch_revision c = 0"
proof -
  define e where "e = (case registered (ch_key c) of
    None \<Rightarrow> d | Some spec \<Rightarrow> if pk_setting spec \<noteq> None then mark_nodes spec (ch_node c) d else d)"
  have e: "policies e = policies d" "drawn e = drawn d" "rng e = rng d"
    by (simp_all add: e_def split: option.split)
  show ?thesis
  proof (cases "find (addressed kind i c) (policies d)"; cases "ch_value c")
    assume a: "find (addressed kind i c) (policies d) = None" "ch_value c = None"
    show ?thesis by (rule absent) (use assms e a in \<open>auto simp: apply_change_def e_def [symmetric]\<close>)
  next
    fix v assume a: "find (addressed kind i c) (policies d) = None" "ch_value c = Some v"
    show ?thesis
      by (rule inserted) (use assms e a in \<open>auto simp: apply_change_def e_def [symmetric] draw_def new_row_def\<close>)
  next
    fix r assume a: "find (addressed kind i c) (policies d) = Some r" "ch_value c = None"
    show ?thesis by (rule removed) (use assms e a in \<open>auto simp: apply_change_def e_def [symmetric]\<close>)
  next
    fix r v assume a: "find (addressed kind i c) (policies d) = Some r" "ch_value c = Some v"
    show ?thesis
      by (rule updated) (use assms e a in \<open>auto simp: apply_change_def e_def [symmetric] touched_row_def [abs_def]\<close>)
  qed
qed

lemma touched_row_fields [simp]:
  "row_address (touched_row now v q) = row_address q" "vp_id (touched_row now v q) = vp_id q"
  "vp_value (touched_row now v q) = v" "vp_revision (touched_row now v q) = vp_revision q + 1"
  by (simp_all add: touched_row_def row_address_def)

lemma new_row_fields [simp]:
  "row_address (new_row kind i now c n v) = change_address kind i c" "vp_id (new_row kind i now c n v) = n"
  "vp_value (new_row kind i now c n v) = v" "vp_revision (new_row kind i now c n v) = 1"
  by (simp_all add: new_row_def row_address_def change_address_def)

lemma id_iff_address:
  assumes "policy_inv zones d" and "find (addressed kind i c) (policies d) = Some r" and "q \<in> set (policies d)"
  shows "vp_id q = vp_id r \<longleftrightarrow> addressed kind i c q"
proof -
  have r: "r \<in> set (policies d)" "addressed kind i c r" using find_Some_iff [OF assms(2)] by auto
  have "vp_id q = vp_id r \<longleftrightarrow> q = r"
    using assms(1,3) r(1) unfolding policy_inv_def by (blast dest: distinct_keyD)
  also have "\<dots> \<longleftrightarrow> row_address q = row_address r"
    using assms(1,3) r(1) unfolding policy_inv_def by (blast dest: distinct_keyD)
  finally show ?thesis using r(2) by (simp add: addressed_iff)
qed

lemma apply_change_inv:
  assumes inv: "policy_inv zones d" and fresh: "fresh_ids d" and ok: "change_ok zones kind c"
    and a: "apply_change kind i now c d = Inr d'"
  shows "policy_inv zones d' \<and> fresh_ids d'"
  using a
proof (cases rule: apply_changeD)
  case (removed r)
  then show ?thesis using inv fresh
    by (auto simp: policy_inv_def fresh_ids_def distinct_map_filter list_all_iff)
next
  case absent
  then show ?thesis using inv fresh by (simp add: policy_inv_def fresh_ids_def)
next
  case (updated r v)
  have "row_valid zones (touched_row now v q)" if "q \<in> set (policies d)" "vp_id q = vp_id r" for q
  proof -
    have "addressed kind i c q" using id_iff_address [OF inv updated(1) that(1)] that(2) by simp
    then have k: "vp_key q = ch_key c" by (simp add: addressed_def)
    have "row_valid zones q" using inv that(1) by (auto simp: policy_inv_def list_all_iff)
    with ok updated(2) k show ?thesis by (auto simp: row_valid_def change_ok_def touched_row_def split: option.splits)
  qed
  then have "list_all (row_valid zones) (policies d')"
    using inv by (auto simp: updated(3) list_all_iff policy_inv_def elim!: in_update_whereE)
  moreover have "map row_address (policies d') = map row_address (policies d)"
    "map vp_id (policies d') = map vp_id (policies d)"
    by (simp_all add: updated(3) map_update_where)
  moreover from this(2) have "vp_id ` set (policies d') = vp_id ` set (policies d)" by (metis set_map)
  ultimately show ?thesis using inv fresh by (simp add: policy_inv_def fresh_ids_def updated(4,5))
next
  case (inserted v)
  have "row_valid zones (new_row kind i now c n v)" for n
    using ok inserted(2) by (auto simp: row_valid_def change_ok_def new_row_def split: option.splits)
  moreover have "change_address kind i c \<notin> row_address ` set (policies d)"
    using inserted(1) by (auto simp: find_None_iff' addressed_iff)
  moreover have "rng d (drawn d) \<notin> vp_id ` set (policies d)" using fresh by (simp add: fresh_ids_def)
  moreover have "fresh_ids d'"
    using fresh by (auto simp: fresh_ids_def inserted(3-5) dest: injD)
  ultimately show ?thesis using inv by (simp add: policy_inv_def inserted(3))
qed

text \<open>One accepted change of a subject's values: the row it addresses then holds the value with the
  next revision, or is gone when the value is null; the revision asked for was the row's; every other row
  is as it was.\<close>

theorem apply_change_effect:
  assumes inv: "policy_inv zones d" and a: "apply_change kind i now c d = Inr d'"
  shows "(case find (addressed kind i c) (policies d) of None \<Rightarrow> 0 | Some r \<Rightarrow> vp_revision r) = ch_revision c
     \<and> (case ch_value c of
          None \<Rightarrow> find (addressed kind i c) (policies d') = None
        | Some v \<Rightarrow> (case find (addressed kind i c) (policies d') of
            None \<Rightarrow> False | Some r \<Rightarrow> vp_value r = v \<and> vp_revision r = ch_revision c + 1))
     \<and> filter (\<lambda>q. \<not> addressed kind i c q) (policies d') = filter (\<lambda>q. \<not> addressed kind i c q) (policies d)"
  using a
proof (cases rule: apply_changeD)
  case (removed r)
  have k: "vp_id q \<noteq> vp_id r \<longleftrightarrow> \<not> addressed kind i c q" if "q \<in> set (policies d)" for q
    using id_iff_address [OF inv removed(1) that] by simp
  have "policies d' = filter (\<lambda>q. \<not> addressed kind i c q) (policies d)"
    unfolding removed(3) by (rule filter_cong [OF refl k])
  with removed(1,2,6) show ?thesis by (simp add: find_None_iff')
next
  case absent
  then show ?thesis by simp
next
  case (updated r v)
  have m: "policies d' = update_where (addressed kind i c) (touched_row now v) (policies d)"
    unfolding updated(3) update_where_def by (rule map_cong) (auto simp: id_iff_address [OF inv updated(1)])
  have "filter (\<lambda>q. \<not> addressed kind i c q) (update_where (addressed kind i c) (touched_row now v) t)
      = filter (\<lambda>q. \<not> addressed kind i c q) t" for t
    by (induction t) (auto simp: update_where_def addressed_iff)
  moreover have "find (addressed kind i c) (policies d') = Some (touched_row now v r)"
    unfolding m using updated(1) find_Some_iff [OF updated(1)] by (simp add: find_update_where addressed_iff)
  ultimately show ?thesis using updated(1,2,6) m by simp
next
  case (inserted v)
  have "addressed kind i c (new_row kind i now c n v)" for n by (simp add: addressed_iff)
  then show ?thesis using inserted by (simp add: find_append)
qed

lemma apply_changes_inv:
  assumes "policy_inv zones d" and "fresh_ids d" and "apply_changes zones kind i cs now d = Inr d'"
  shows "policy_inv zones d' \<and> fresh_ids d'"
proof -
  from assms(3) obtain parsed where p: "res_map (parse_change zones d kind) cs = Inr parsed"
    and f: "res_fold (apply_change kind i now) parsed d = Inr d'"
    by (auto simp: apply_changes_def res_bind_Inr_iff)
  have ok: "change_ok zones kind c" if c: "c \<in> set parsed" for c
  proof -
    from c obtain n where "n < length parsed" "c = parsed ! n" by (auto simp: in_set_conv_nth)
    with p have "parse_change zones d kind (cs ! n) = Inr c" by (auto simp: res_map_Inr_iff list_all2_conv_all_nth)
    then show ?thesis by (rule parse_change_ok)
  qed
  show ?thesis
    by (rule res_fold_invariant [OF f, of "\<lambda>d. policy_inv zones d \<and> fresh_ids d"])
      (use assms apply_change_inv ok in blast)+
qed

lemma policies_setD:
  assumes "policies_set zones fp actor (PStr s) kind i changes now d = Inr (d', view)"
  obtains (replay) key cs c where "uuid_str s = Some key" "changes = PList cs" "is_ok (authorize_subject actor kind)"
      "1 \<le> length cs" "length cs \<le> 50"
      "find (is_command actor key) (policy_commands d) = Some c" "pc_fingerprint c = fp (kind, i, cs)"
      "d' = d\<lparr>account_guard := account_guard d + 1\<rparr>" "view = pc_result c"
  | (applied) key cs e where "uuid_str s = Some key" "changes = PList cs" "is_ok (authorize_subject actor kind)"
      "1 \<le> length cs" "length cs \<le> 50"
      "find (is_command actor key) (policy_commands d) = None"
      "apply_changes zones kind i cs now (d\<lparr>account_guard := account_guard d + 1\<rparr>) = Inr e" "view_of e kind i = Inr view"
      "d' = e\<lparr>policy_commands := policy_commands e @ [\<lparr>pc_principal = pr_id (actor_principal actor),
                        pc_actor = ac_id (actor_account actor), pc_key = key, pc_fingerprint = fp (kind, i, cs),
                        pc_result = view\<rparr>]\<rparr>"
proof -
  from assms obtain key where k: "uuid_str s = Some key" by (cases "uuid_str s") (auto simp: policies_set_def)
  from assms k obtain cs where cs: "changes = PList cs" by (auto simp: policies_set_def res_bind_Inr_iff split: pyval.splits)
  let ?d = "d\<lparr>account_guard := account_guard d + 1\<rparr>"
  have au: "is_ok (authorize_subject actor kind)" and len: "1 \<le> length cs" "length cs \<le> 50"
    and body: "(case find (is_command actor key) (policy_commands ?d) of
             Some c \<Rightarrow> guard (pc_fingerprint c = fp (kind, i, cs)) (AccessDenied ''idempotency_conflict'' 409)
                         (Inr (?d, pc_result c))
           | None \<Rightarrow>
               res_bind (apply_changes zones kind i cs now ?d) (\<lambda>d1.
               res_bind (view_of d1 kind i) (\<lambda>result.
                 Inr (d1\<lparr>policy_commands := policy_commands d1 @ [\<lparr>pc_principal = pr_id (actor_principal actor),
                        pc_actor = ac_id (actor_account actor), pc_key = key, pc_fingerprint = fp (kind, i, cs),
                        pc_result = result\<rparr>]\<rparr>, result)))) = Inr (d', view)"
    using assms k cs by (auto simp: policies_set_def res_bind_Inr_iff dest!: admit_Inr)
  show ?thesis
  proof (cases "find (is_command actor key) (policy_commands d)")
    case None
    with body show ?thesis by (auto simp: res_bind_Inr_iff intro: applied [OF k cs au len None])
  next
    case (Some c)
    with body show ?thesis by (auto intro: replay [OF k cs au len Some])
  qed
qed

text \<open>C30. Accepted policy commands keep the table valid: addresses and identifiers unique, every row one
  that the registry allows for its subject and scope, with a value its validator accepts.\<close>

theorem policies_set_inv:
  assumes inv: "policy_inv zones d" and fresh: "fresh_ids d"
    and s: "policies_set zones fp actor (PStr s) kind i changes now d = Inr (d', view)"
  shows "policy_inv zones d' \<and> fresh_ids d'"
  using s
proof (cases rule: policies_setD)
  case (replay key cs c)
  then show ?thesis using inv fresh by (simp add: policy_inv_def fresh_ids_def)
next
  case (applied key cs e)
  have "policy_inv zones (d\<lparr>account_guard := account_guard d + 1\<rparr>)" "fresh_ids (d\<lparr>account_guard := account_guard d + 1\<rparr>)"
    using inv fresh by (simp_all add: policy_inv_def fresh_ids_def)
  from apply_changes_inv [OF this applied(7)] show ?thesis by (simp add: applied(9) policy_inv_def fresh_ids_def)
qed

lemma apply_change_commands: "apply_change kind i now c d = Inr d' \<Longrightarrow> policy_commands d' = policy_commands d"
  by (auto simp: apply_change_def Let_def draw_def mark_nodes_def split: option.splits if_splits)

lemma apply_changes_commands:
  assumes "apply_changes zones kind i cs now d = Inr d'"
  shows "policy_commands d' = policy_commands d"
proof -
  from assms obtain parsed where f: "res_fold (apply_change kind i now) parsed d = Inr d'"
    by (auto simp: apply_changes_def res_bind_Inr_iff)
  show ?thesis
    by (rule res_fold_invariant [OF f, of "\<lambda>e. policy_commands e = policy_commands d"])
      (auto dest: apply_change_commands)
qed

lemma policies_set_again:
  assumes "uuid_str s = Some key" "is_ok (authorize_subject actor kind)" "1 \<le> length cs" "length cs \<le> 50"
    and "admit False d = Inr e" and "find (is_command actor key) (policy_commands d) = Some c"
    and "pc_fingerprint c = fp (kind, i, cs)"
  shows "policies_set zones fp actor (PStr s) kind i (PList cs) now d = Inr (e, pc_result c)"
proof -
  have "policy_commands e = policy_commands d" using admit_Inr [OF assms(5)] by simp
  with assms show ?thesis by (auto simp: policies_set_def is_ok_iff)
qed

text \<open>Policy commands are idempotent: repeating an accepted command under its key, in any spelling,
  returns the first answer and changes no policy; under the same key other changes are refused.\<close>

theorem policies_set_replay:
  assumes s: "policies_set zones fp actor (PStr s) kind i (PList cs) now d = Inr (d', view)"
    and key: "uuid_str s' = uuid_str s" and adm: "admit False d' = Inr e"
  shows "policies_set zones fp actor (PStr s') kind i (PList cs) later d' = Inr (e, view)
     \<and> policies e = policies d'
     \<and> (fp (kind, i, cs') = fp (kind, i, cs) \<or> cs' = [] \<or> 50 < length cs' \<or>
        policies_set zones fp actor (PStr s') kind i (PList cs') later d' = Inl (AccessDenied ''idempotency_conflict'' 409))"
proof -
  have e: "policies e = policies d'" "policy_commands e = policy_commands d'" using admit_Inr [OF adm] by simp_all
  obtain k c where k: "uuid_str s = Some k" "is_ok (authorize_subject actor kind)" "1 \<le> length cs" "length cs \<le> 50"
    and c: "find (is_command actor k) (policy_commands d') = Some c" "pc_fingerprint c = fp (kind, i, cs)" "pc_result c = view"
    using s
  proof (cases rule: policies_setD)
    case (replay key cs' c)
    with that show ?thesis by auto
  next
    case (applied key cs' f)
    have "policy_commands f = policy_commands d" using apply_changes_commands [OF applied(7)] by simp
    moreover have "is_command actor key \<lparr>pc_principal = pr_id (actor_principal actor),
                        pc_actor = ac_id (actor_account actor), pc_key = key, pc_fingerprint = x, pc_result = view\<rparr>" for x
      by (simp add: is_command_def)
    ultimately show ?thesis using applied that by (simp add: find_append)
  qed
  have "policies_set zones fp actor (PStr s') kind i (PList cs') later d' = Inl (AccessDenied ''idempotency_conflict'' 409)"
    if "fp (kind, i, cs') \<noteq> fp (kind, i, cs)" "cs' \<noteq> []" "length cs' \<le> 50"
  proof -
    have "1 \<le> length cs'" using that(2) by (cases cs') simp_all
    with that k c key adm e(2) show ?thesis by (auto simp: policies_set_def is_ok_iff guard_def)
  qed
  moreover have "policies_set zones fp actor (PStr s') kind i (PList cs) later d' = Inr (e, view)"
    unfolding c(3) [symmetric]
    by (rule policies_set_again [where c = c]) (use k c key adm in simp_all)
  ultimately show ?thesis using e(1) by fastforce
qed

section \<open>Witnesses\<close>

definition policy_actor :: actor where
  "policy_actor = sample_owner\<lparr>actor_principal :=
     (actor_principal sample_owner)\<lparr>pr_scopes := {''settings.manage'', ''profiles.manage''}\<rparr>\<rparr>"

definition policy_db :: db where
  "policy_db = empty_db\<lparr>
     profiles := [\<lparr>pf_id = ''p1'', pf_runtime_name = ''p1'', pf_display_name = ''P'', pf_owner = None, pf_frozen = False,
        pf_expires_at = None, pf_created_at = None, pf_desired_revision = 1\<rparr>],
     policies := [\<lparr>vp_id = ''v0'', vp_subject = Installation, vp_profile = None, vp_device = None, vp_node = None,
        vp_protocol = None, vp_key = ''speed.up_kbit'', vp_value = PInt 500, vp_revision = 1, vp_updated_at = 0\<rparr>]\<rparr>"

definition sample_changes :: "pyval list" where
  "sample_changes = [PDict [(''key'', PStr ''speed.up_kbit''), (''value'', PInt 900), (''revision'', PInt 0)]]"

definition sample_command :: string where
  "sample_command = ''12345678-1234-5678-1234-567812345678''"

definition sample_set :: "(db \<times> policy_view) tx" where
  "sample_set = policies_set (\<lambda>z. False) (\<lambda>x. []) policy_actor (PStr sample_command) ProfileSubject (Some ''p1'')
     (PList sample_changes) 5 policy_db"

lemma sample_set_ok: "sample_set = Inr (fst (projr sample_set), snd (projr sample_set))"
proof -
  have "is_ok sample_set" by code_simp
  from is_ok_projr [OF this] show ?thesis by simp
qed

lemma policy_db_inv: "policy_inv (\<lambda>z. False) policy_db" by code_simp

lemma policy_db_fresh: "fresh_ids policy_db"
proof -
  have "m = n" if "replicate m CHR ''i'' = replicate n CHR ''i''" for m n
    using arg_cong [OF that, of length] by simp
  moreover have "replicate n CHR ''i'' \<noteq> ''v0''" for n
    by (cases n) simp_all
  ultimately show ?thesis by (auto simp: fresh_ids_def policy_db_def empty_db_def inj_def)
qed

definition sample_change :: policy_change where
  "sample_change = \<lparr>ch_key = ''speed.up_kbit'', ch_node = None, ch_protocol = None, ch_value = Some (PInt 900), ch_revision = 0\<rparr>"

theorem apply_change_effect_witness:
  "\<exists>d' r. apply_change ProfileSubject (Some ''p1'') 5 sample_change policy_db = Inr d'
     \<and> find (addressed ProfileSubject (Some ''p1'') sample_change) (policies d') = Some r \<and> vp_value r = PInt 900"
proof -
  let ?m = "apply_change ProfileSubject (Some ''p1'') 5 sample_change policy_db"
  have ok: "?m = Inr (projr ?m)" by (rule is_ok_projr) code_simp
  from apply_change_effect [OF policy_db_inv ok] have
    "\<exists>r. find (addressed ProfileSubject (Some ''p1'') sample_change) (policies (projr ?m)) = Some r \<and> vp_value r = PInt 900"
    by (auto simp: sample_change_def split: option.splits)
  with ok show ?thesis by blast
qed

theorem policies_set_inv_witness: "policy_inv (\<lambda>z. False) (fst (projr sample_set))"
  using policies_set_inv [OF policy_db_inv policy_db_fresh sample_set_ok [unfolded sample_set_def]]
  by (simp add: sample_set_def)

theorem policies_set_replay_witness:
  "\<exists>e. policies_set (\<lambda>z. False) (\<lambda>x. []) policy_actor (PStr sample_command) ProfileSubject (Some ''p1'')
     (PList sample_changes) 9 (fst (projr sample_set)) = Inr (e, snd (projr sample_set))"
proof -
  let ?a = "admit False (fst (projr sample_set))"
  have "?a = Inr (projr ?a)" by (rule is_ok_projr) code_simp
  from policies_set_replay [OF sample_set_ok [unfolded sample_set_def] refl this [unfolded sample_set_def]] show ?thesis
    unfolding sample_set_def by blast
qed

theorem effective_resolves_witness:
  "\<exists>values. effective policy_db (no_target\<lparr>tg_profile := Some ''p1''\<rparr>) (Some [''speed.up_kbit'']) = Inr values
     \<and> map_of values ''speed.up_kbit'' = Some (PInt 500)"
proof -
  let ?t = "no_target\<lparr>tg_profile := Some ''p1''\<rparr>" and ?k = "Some [''speed.up_kbit'']"
  have wf: "policies_wf policy_db" by code_simp
  have t: "resolve_target policy_db ?t = Inr ?t" by (simp add: resolve_target_def no_target_def)
  have e: "effective policy_db ?t ?k = Inr (projr (effective policy_db ?t ?k))" by (rule is_ok_projr) code_simp
  have "resolved_value policy_db ?t ''speed.up_kbit'' = PInt 500" by code_simp
  with effective_resolves [OF wf t e, of "''speed.up_kbit''"] e show ?thesis by auto
qed

end
