(* ===== verification/Localized.thy ===== *)
theory Localized
  imports Schema
begin

text \<open>
  \<^verbatim>\<open>app/backend/localized.py\<close>: texts in several languages, their checked form, and the text a person reads.
\<close>

section \<open>Operations\<close>

definition LANGUAGES :: "string list" where "LANGUAGES = [''en'', ''ru'']"
definition DEFAULT_LANGUAGE :: string where "DEFAULT_LANGUAGE = ''en''"

definition language :: "string option \<Rightarrow> string" where
  "language value =
     (let v = hd (split_on CHR ''-'' (map (\<lambda>c. if c = CHR ''_'' then CHR ''-'' else c)
                (lower (case value of None \<Rightarrow> [] | Some s \<Rightarrow> s))))
      in if v \<in> set LANGUAGES then v else DEFAULT_LANGUAGE)"

definition plain :: "string \<Rightarrow> string \<Rightarrow> localized_text" where
  "plain text source = \<lparr>lt_source = source, lt_texts = [(source, text)], lt_fallback = []\<rparr>"

definition refuse_text :: error where
  "refuse_text = AccessDenied ''invalid_localized_text'' 422"

text \<open>A value that Python's \<open>or\<close> keeps.\<close>

definition truthy :: "pyval \<Rightarrow> bool" where
  "truthy v = (case v of PNone \<Rightarrow> False | PBool b \<Rightarrow> b | PInt n \<Rightarrow> n \<noteq> 0 | PStr s \<Rightarrow> s \<noteq> [] | PList l \<Rightarrow> l \<noteq> []
     | PDict c \<Rightarrow> c \<noteq> [])"

definition py_get :: "string \<Rightarrow> (string \<times> pyval) list \<Rightarrow> pyval" where
  "py_get k c = (case map_of c k of None \<Rightarrow> PNone | Some v \<Rightarrow> v)"

definition check_text :: "nat \<Rightarrow> bool \<Rightarrow> string \<times> pyval \<Rightarrow> (string \<times> string) list \<Rightarrow> (string \<times> string) list tx" where
  "check_text max_length multiline nt result = (case snd nt of
     PStr raw \<Rightarrow>
       guard (fst nt \<in> set LANGUAGES) refuse_text
       (let text = strip raw in
        guard (length text \<le> max_length \<and> (multiline \<or> CHR 0x0A \<notin> set text)) refuse_text
          (Inr (if text \<noteq> [] then dict_set (fst nt) text result else result)))
   | _ \<Rightarrow> Inl refuse_text)"

text \<open>A fallback names a language without a text and points at one that has its own. A target that is no
  string is no key; one that cannot be hashed raises.\<close>

definition check_fallback ::
  "string \<Rightarrow> (string \<times> string) list \<Rightarrow> string \<times> pyval \<Rightarrow> (string \<times> string) list \<Rightarrow> (string \<times> string) list tx" where
  "check_fallback source result nt chosen =
     guard (fst nt \<in> set LANGUAGES \<and> map_of result (fst nt) = None) refuse_text
     (case snd nt of
        PStr target \<Rightarrow> guard (map_of result target \<noteq> None) refuse_text
          (Inr (if target \<noteq> source then dict_set (fst nt) target chosen else chosen))
      | PList _ \<Rightarrow> Inl TypeError
      | PDict _ \<Rightarrow> Inl TypeError
      | _ \<Rightarrow> Inl refuse_text)"

text \<open>The texts in the order of the languages.\<close>

definition ordered_texts :: "(string \<times> string) list \<Rightarrow> (string \<times> string) list" where
  "ordered_texts result = concat (map (\<lambda>name. case map_of result name of None \<Rightarrow> [] | Some t \<Rightarrow> [(name, t)]) LANGUAGES)"

definition checked_text :: "nat \<Rightarrow> bool \<Rightarrow> pyval \<Rightarrow> localized_text tx" where
  "checked_text max_length multiline value = (case value of
     PDict c \<Rightarrow>
       guard (fst ` set c \<subseteq> {''source'', ''texts'', ''fallback''}) refuse_text
       (case (py_get ''source'' c, py_get ''texts'' c,
              if truthy (py_get ''fallback'' c) then py_get ''fallback'' c else PDict []) of
          (PStr source, PDict texts, PDict fallback) \<Rightarrow>
            guard (source \<in> set LANGUAGES) refuse_text
            (res_bind (res_fold (check_text max_length multiline) texts []) (\<lambda>result.
             guard (map_of result source \<noteq> None) refuse_text
             (res_bind (res_fold (check_fallback source result) fallback []) (\<lambda>chosen.
              Inr \<lparr>lt_source = source,
                   lt_texts = ordered_texts result,
                   lt_fallback = sort_key fst chosen\<rparr>))))
        | _ \<Rightarrow> Inl refuse_text)
   | _ \<Rightarrow> Inl refuse_text)"

text \<open>The language whose text is shown.\<close>

definition shown_language :: "localized_text \<Rightarrow> string \<Rightarrow> string" where
  "shown_language value wanted =
     (if map_of (lt_texts value) wanted \<noteq> None then wanted
      else case map_of (lt_fallback value) wanted of None \<Rightarrow> lt_source value | Some t \<Rightarrow> t)"

definition resolve_text :: "localized_text \<Rightarrow> string option \<Rightarrow> string tx" where
  "resolve_text value wanted = (case map_of (lt_texts value) (shown_language value (language wanted)) of
     None \<Rightarrow> Inl (KeyError (shown_language value (language wanted))) | Some t \<Rightarrow> Inr t)"

definition public_text :: "localized_text \<Rightarrow> localized_text \<times> (string \<times> string) list" where
  "public_text value = (value, map (\<lambda>name. (name, shown_language value name)) LANGUAGES)"

text \<open>The stored form as JSON.\<close>

definition text_json :: "localized_text \<Rightarrow> pyval" where
  "text_json v = PDict [(''fallback'', PDict (map (\<lambda>(n, t). (n, PStr t)) (lt_fallback v))),
     (''source'', PStr (lt_source v)), (''texts'', PDict (map (\<lambda>(n, t). (n, PStr t)) (lt_texts v)))]"

section \<open>Well-formed texts\<close>

definition text_ok :: "nat \<Rightarrow> bool \<Rightarrow> string \<Rightarrow> string \<Rightarrow> bool" where
  "text_ok max_length multiline n t = (n \<in> set LANGUAGES \<and> t \<noteq> [] \<and> length t \<le> max_length
     \<and> (multiline \<or> CHR 0x0A \<notin> set t) \<and> strip t = t)"

definition fallback_ok :: "string \<Rightarrow> (string \<times> string) list \<Rightarrow> string \<Rightarrow> string \<Rightarrow> bool" where
  "fallback_ok source texts n t =
     (n \<in> set LANGUAGES \<and> map_of texts n = None \<and> map_of texts t \<noteq> None \<and> t \<noteq> source)"

definition text_wf :: "nat \<Rightarrow> bool \<Rightarrow> localized_text \<Rightarrow> bool" where
  "text_wf max_length multiline v =
     (lt_source v \<in> set LANGUAGES \<and> map_of (lt_texts v) (lt_source v) \<noteq> None
      \<and> (\<forall>(n, t) \<in> set (lt_texts v). text_ok max_length multiline n t)
      \<and> (\<forall>(n, t) \<in> set (lt_fallback v). fallback_ok (lt_source v) (lt_texts v) n t))"

definition texts_ok :: "nat \<Rightarrow> bool \<Rightarrow> (string \<times> string) list \<Rightarrow> bool" where
  "texts_ok max_length multiline result = (\<forall>n t. map_of result n = Some t \<longrightarrow> text_ok max_length multiline n t)"

lemma dropWhile_idem: "dropWhile p (dropWhile p s) = dropWhile p s"
  by (induction s) auto

lemma hd_dropWhile_rev: "dropWhile p s = s \<Longrightarrow> dropWhile p (rev (dropWhile p (rev s))) = rev (dropWhile p (rev s))"
proof (cases "rev (dropWhile p (rev s))")
  case (Cons x xs)
  assume s: "dropWhile p s = s"
  obtain ys where ys: "rev s = ys @ dropWhile p (rev s)" by (metis takeWhile_dropWhile_id)
  then have "s = rev (dropWhile p (rev s)) @ rev ys" by (metis rev_append rev_rev_ident)
  with Cons have "s = x # (xs @ rev ys)" by simp
  with s have "\<not> p x" by (auto split: if_splits) (metis dropWhile_idem hd_dropWhile list.distinct(1) list.sel(1))
  with Cons show ?thesis by simp
next
  case Nil
  show ?thesis unfolding Nil by simp
qed

lemma strip_idem: "strip (strip s) = strip s"
proof -
  have l: "dropWhile py_space (dropWhile py_space s) = dropWhile py_space s" by (rule dropWhile_idem)
  from hd_dropWhile_rev [OF this] show ?thesis
    by (simp add: strip_def rstrip_def lstrip_def dropWhile_idem)
qed

lemma check_text_ok:
  assumes "check_text m ml nt result = Inr r" and "texts_ok m ml result"
  shows "texts_ok m ml r"
proof -
  from assms(1) obtain raw where raw: "snd nt = PStr raw" "fst nt \<in> set LANGUAGES"
    "length (strip raw) \<le> m \<and> (ml \<or> CHR 0x0A \<notin> set (strip raw))"
    "r = (if strip raw \<noteq> [] then dict_set (fst nt) (strip raw) result else result)"
    by (auto simp: check_text_def Let_def split: pyval.splits)
  have "strip raw \<noteq> [] \<Longrightarrow> text_ok m ml (fst nt) (strip raw)" using raw(2,3) by (simp add: text_ok_def strip_idem)
  with assms(2) show ?thesis by (simp add: texts_ok_def raw(4))
qed

lemma check_fallback_ok:
  assumes "check_fallback source result nt chosen = Inr c"
    and "\<forall>(n, t) \<in> set chosen. fallback_ok source result n t"
  shows "\<forall>(n, t) \<in> set c. fallback_ok source result n t"
proof -
  have sub: "set (dict_set k v d) \<subseteq> insert (k, v) (set d)" for k v and d :: "(string \<times> string) list"
    by (induction k v d rule: dict_set.induct) auto
  from assms obtain t where t: "snd nt = PStr t" "fst nt \<in> set LANGUAGES" "map_of result (fst nt) = None"
    "map_of result t \<noteq> None" "c = (if t \<noteq> source then dict_set (fst nt) t chosen else chosen)"
    by (auto simp: check_fallback_def split: pyval.splits)
  then have "set c \<subseteq> (if t \<noteq> source then insert (fst nt, t) (set chosen) else set chosen)" using sub by auto
  moreover have "t \<noteq> source \<Longrightarrow> fallback_ok source result (fst nt) t" using t by (simp add: fallback_ok_def)
  ultimately show ?thesis using assms(2) by (auto split: if_splits)
qed

lemma map_of_ordered: "n \<in> set LANGUAGES \<Longrightarrow> map_of (ordered_texts result) n = map_of result n"
  by (auto simp: ordered_texts_def LANGUAGES_def split: option.split)

lemma ordered_texts_mem: "(n, t) \<in> set (ordered_texts result) \<longleftrightarrow> n \<in> set LANGUAGES \<and> map_of result n = Some t"
  by (auto simp: ordered_texts_def split: option.splits)

lemma checked_textD:
  assumes "checked_text m ml value = Inr v"
  obtains result chosen where "texts_ok m ml result" and "lt_source v \<in> set LANGUAGES"
    and "map_of result (lt_source v) \<noteq> None" and "lt_texts v = ordered_texts result" and "lt_fallback v = sort_key fst chosen"
    and "\<forall>(n, t) \<in> set chosen. fallback_ok (lt_source v) result n t"
proof -
  from assms obtain texts fallback source result chosen where
      src: "source \<in> set LANGUAGES" "map_of result source \<noteq> None"
    and rt: "res_fold (check_text m ml) texts [] = Inr result"
    and rf: "res_fold (check_fallback source result) fallback [] = Inr chosen"
    and v: "v = \<lparr>lt_source = source, lt_texts = ordered_texts result, lt_fallback = sort_key fst chosen\<rparr>"
    by (auto simp: checked_text_def res_bind_Inr_iff split: pyval.splits) blast
  have "texts_ok m ml result"
    by (rule res_fold_invariant [OF rt]) (simp add: texts_ok_def, erule check_text_ok)
  moreover have "\<forall>(n, t) \<in> set chosen. fallback_ok source result n t"
    by (rule res_fold_invariant [OF rf, of "\<lambda>c. \<forall>(n, t) \<in> set c. fallback_ok source result n t"]) (simp, erule check_fallback_ok)
  ultimately show ?thesis using that [of result chosen] src v by simp
qed

lemma checked_text_wf:
  assumes "checked_text m ml value = Inr v"
  shows "text_wf m ml v"
proof -
  obtain result chosen where r: "texts_ok m ml result" "lt_source v \<in> set LANGUAGES"
    "map_of result (lt_source v) \<noteq> None" "lt_texts v = ordered_texts result" "lt_fallback v = sort_key fst chosen"
    "\<forall>(n, t) \<in> set chosen. fallback_ok (lt_source v) result n t"
    using assms by (rule checked_textD)
  have lang: "map_of result t \<noteq> None \<Longrightarrow> t \<in> set LANGUAGES" for t using r(1) by (auto simp: texts_ok_def text_ok_def)
  have fb: "fallback_ok (lt_source v) (ordered_texts result) n t" if "fallback_ok (lt_source v) result n t" for n t
    using that lang by (auto simp: fallback_ok_def map_of_ordered)
  have "\<forall>(n, t) \<in> set (ordered_texts result). text_ok m ml n t" using r(1) by (auto simp: ordered_texts_mem texts_ok_def)
  moreover have "\<forall>(n, t) \<in> set (sort_key fst chosen). fallback_ok (lt_source v) (ordered_texts result) n t" using r(6) fb by auto
  ultimately show ?thesis using r(2,3) by (simp add: text_wf_def r(4,5) map_of_ordered)
qed

section \<open>Properties\<close>

text \<open>A text that passed \<open>checked\<close> can be read in every language: \<open>resolve\<close> never fails on it, and what
  it returns is one of the texts the administrator wrote, not empty and within the length limit.\<close>

theorem checked_text_resolves:
  assumes "checked_text m ml value = Inr v"
  shows "\<exists>n t. resolve_text v wanted = Inr t \<and> (n, t) \<in> set (lt_texts v) \<and> t \<noteq> [] \<and> length t \<le> m"
proof -
  have wf: "text_wf m ml v" by (rule checked_text_wf [OF assms])
  have "map_of (lt_texts v) (shown_language v (language wanted)) \<noteq> None"
  proof (cases "map_of (lt_fallback v) (language wanted)")
    case (Some u)
    with map_of_SomeD [OF Some] wf have "fallback_ok (lt_source v) (lt_texts v) (language wanted) u"
      by (auto simp: text_wf_def)
    with Some show ?thesis by (simp add: shown_language_def fallback_ok_def)
  qed (use wf in \<open>simp add: shown_language_def text_wf_def\<close>)
  then obtain t where t: "map_of (lt_texts v) (shown_language v (language wanted)) = Some t" by auto
  then have "(shown_language v (language wanted), t) \<in> set (lt_texts v)" by (rule map_of_SomeD)
  moreover from this wf have "text_ok m ml (shown_language v (language wanted)) t" by (auto simp: text_wf_def)
  ultimately show ?thesis using t by (auto simp: resolve_text_def text_ok_def)
qed

lemma fallback_empty:
  assumes "text_wf m ml v"
  shows "lt_fallback v = []"
proof (rule ccontr)
  assume "lt_fallback v \<noteq> []"
  then obtain n t where nt: "(n, t) \<in> set (lt_fallback v)" by (cases "lt_fallback v") auto
  with assms have f: "fallback_ok (lt_source v) (lt_texts v) n t" by (auto simp: text_wf_def)
  have "t \<in> set LANGUAGES"
    using f assms by (auto simp: fallback_ok_def text_wf_def text_ok_def dest!: map_of_SomeD)
  then show False using f assms by (auto simp: fallback_ok_def text_wf_def LANGUAGES_def)
qed

lemma res_fold_texts:
  assumes "\<forall>(n, t) \<in> set ts. text_ok m ml n t" and "distinct (map fst (acc @ ts))"
  shows "res_fold (check_text m ml) (map (\<lambda>(n, t). (n, PStr t)) ts) acc = Inr (acc @ ts)"
  using assms
proof (induction ts arbitrary: acc)
  case Nil
  then show ?case by simp
next
  case (Cons nt ts)
  obtain n t where nt: "nt = (n, t)" by fastforce
  have app: "n \<notin> fst ` set acc \<Longrightarrow> dict_set n t acc = acc @ [(n, t)]" for acc :: "(string \<times> string) list"
    by (induction acc) auto
  have "check_text m ml (n, PStr t) acc = Inr (acc @ [(n, t)])"
    using Cons.prems app [of acc] by (auto simp: nt check_text_def text_ok_def)
  with Cons.IH [of "acc @ [nt]"] Cons.prems show ?case by (simp add: nt)
qed

lemma distinct_ordered: "distinct (map fst (ordered_texts result))"
  by (auto simp: ordered_texts_def LANGUAGES_def split: option.split)

lemma ordered_idem: "ordered_texts (ordered_texts result) = ordered_texts result"
  by (auto simp: ordered_texts_def LANGUAGES_def split: option.split)

text \<open>The stored form is a fixed point: checking the JSON of a checked text returns it unchanged, so an
  editor can send back what it was given.\<close>

theorem checked_text_roundtrip:
  assumes "checked_text m ml value = Inr v"
  shows "checked_text m ml (text_json v) = Inr v"
proof -
  have wf: "text_wf m ml v" by (rule checked_text_wf [OF assms])
  obtain result where o: "lt_texts v = ordered_texts result" using assms by (rule checked_textD)
  have fb: "lt_fallback v = []" by (rule fallback_empty [OF wf])
  have "\<forall>(n, t) \<in> set (lt_texts v). text_ok m ml n t" using wf by (simp add: text_wf_def)
  then have "res_fold (check_text m ml) (map (\<lambda>(n, t). (n, PStr t)) (lt_texts v)) [] = Inr (lt_texts v)"
    using res_fold_texts [of "lt_texts v" m ml "[]"] distinct_ordered by (simp add: o)
  moreover have "ordered_texts (lt_texts v) = lt_texts v" by (simp add: o ordered_idem)
  ultimately show ?thesis using wf fb
    by (cases v) (simp add: checked_text_def text_json_def py_get_def truthy_def text_wf_def)
qed

definition sample_text :: pyval where
  "sample_text = PDict [(''source'', PStr ''ru''), (''texts'', PDict [(''ru'', PStr ''  Tarif ''), (''en'', PStr '''')])]"

theorem checked_text_resolves_witness:
  "\<exists>t. resolve_text (projr (checked_text 64 False sample_text)) (Some ''en-US'') = Inr t \<and> length t \<le> 64"
proof -
  have "checked_text 64 False sample_text = Inr (projr (checked_text 64 False sample_text))"
    by (rule is_ok_projr) code_simp
  from checked_text_resolves [OF this] show ?thesis by blast
qed

theorem checked_text_roundtrip_witness:
  "checked_text 64 False (text_json (plain ''Tarif'' ''ru'')) = Inr (plain ''Tarif'' ''ru'')"
proof -
  have "checked_text 64 False sample_text = Inr (plain ''Tarif'' ''ru'')" by code_simp
  from checked_text_roundtrip [OF this] show ?thesis .
qed

end
