(* ===== verification/Grant_Policies.thy ===== *)
theory Grant_Policies
  imports Vpn_Policies Localized
begin

text \<open>
  \<^verbatim>\<open>app/backend/grant_policies.py\<close>: regions, access policies of profiles and the grants they give, with the
  check of explicit grants of \<^verbatim>\<open>app/backend/profile_commands.py\<close>. The normal form of a region's title,
  \<open>unicodedata.normalize\<close> and \<open>casefold\<close>, is the argument \<open>canon\<close>. A set of grants is a list without regard to
  order; \<open>grant_list\<close> is its stored order.
\<close>

type_synonym grant_target = "string \<times> protocol"

section \<open>Checked policies\<close>

definition target_key :: "grant_target \<Rightarrow> string \<times> string" where
  "target_key g = (fst g, protocol_name (snd g))"

definition grant_list :: "grant_target list \<Rightarrow> grant_target list" where
  "grant_list gs = sort_key target_key (remdups gs)"

definition parse_protocol :: "pyval \<Rightarrow> protocol option" where
  "parse_protocol v = (if v = PStr ''awg'' then Some Awg else if v = PStr ''xray'' then Some Xray else None)"

text \<open>A dict with exactly the keys \<open>node_key\<close> and \<open>protocol\<close>, a string and a protocol.\<close>

definition parse_target :: "pyval \<Rightarrow> grant_target option" where
  "parse_target v = (case v of
     PDict c \<Rightarrow> (if fst ` set c = {''node_key'', ''protocol''} then
        (case (py_get ''node_key'' c, parse_protocol (py_get ''protocol'' c)) of
           (PStr n, Some p) \<Rightarrow> Some (n, p) | _ \<Rightarrow> None) else None)
   | _ \<Rightarrow> None)"

definition find_node :: "db \<Rightarrow> string \<Rightarrow> node_row option" where
  "find_node d key = find (\<lambda>n. nd_key n = key) (nodes d)"

definition check_grant :: "db \<Rightarrow> pyval \<Rightarrow> grant_target list \<Rightarrow> grant_target list tx" where
  "check_grant d v seen = (case parse_target v of
     None \<Rightarrow> Inl invalid_input
   | Some (n, p) \<Rightarrow>
       guard ((n, p) \<notin> set seen) invalid_input
       (guard (case find_node d n of None \<Rightarrow> False | Some r \<Rightarrow> nd_enabled r \<and> p \<in> set (nd_protocols r))
         (AccessDenied ''grant_target_unavailable'' 422) (Inr (seen @ [(n, p)]))))"

definition validate_grants :: "db \<Rightarrow> pyval \<Rightarrow> grant_target list tx" where
  "validate_grants d v = (case v of
     PList gs \<Rightarrow> guard (length gs \<le> 100) invalid_input (res_fold (check_grant d) gs [])
   | _ \<Rightarrow> Inl invalid_input)"

definition parse_protocols :: "pyval \<Rightarrow> protocol list option" where
  "parse_protocols v = (case v of
     PList ps \<Rightarrow> (if ps \<noteq> [] \<and> length ps \<le> 2 \<and> list_all (\<lambda>p. parse_protocol p \<noteq> None) ps
         \<and> distinct (map (\<lambda>p. the (parse_protocol p)) ps)
       then Some (sort_key protocol_name (map (\<lambda>p. the (parse_protocol p)) ps)) else None)
   | _ \<Rightarrow> None)"

definition rule_region :: "db \<Rightarrow> pyval \<Rightarrow> pyval \<Rightarrow> string option tx" where
  "rule_region d scope region_id =
     (if scope = PStr ''all'' then guard (region_id = PNone) invalid_input (Inr None)
      else if scope = PStr ''region'' then
        (case region_id of
           PStr i \<Rightarrow> guard (\<exists>r \<in> set (regions d). rg_id r = i) (AccessDenied ''region_not_found'' 422) (Inr (Some i))
         | _ \<Rightarrow> Inl (AccessDenied ''region_not_found'' 422))
      else Inl invalid_input)"

definition check_rule :: "db \<Rightarrow> pyval \<Rightarrow> access_rule list \<Rightarrow> access_rule list tx" where
  "check_rule d v done = (case v of
     PDict c \<Rightarrow>
       guard (fst ` set c = {''scope'', ''region_id'', ''protocols''}) invalid_input
       (res_bind (rule_region d (py_get ''scope'' c) (py_get ''region_id'' c)) (\<lambda>region.
        (case parse_protocols (py_get ''protocols'' c) of
           None \<Rightarrow> Inl invalid_input
         | Some ps \<Rightarrow> guard (region \<notin> set (map ru_region done)) invalid_input
             (Inr (done @ [\<lparr>ru_region = region, ru_protocols = ps\<rparr>])))))
   | _ \<Rightarrow> Inl invalid_input)"

definition check_exclusion :: "db \<Rightarrow> pyval \<Rightarrow> grant_target list \<Rightarrow> grant_target list tx" where
  "check_exclusion d v excluded = (case parse_target v of
     None \<Rightarrow> Inl invalid_input
   | Some (n, p) \<Rightarrow> guard ((n, p) \<notin> set excluded \<and> find_node d n \<noteq> None) invalid_input (Inr (excluded @ [(n, p)])))"

definition check_list :: "(pyval \<Rightarrow> 'a list \<Rightarrow> 'a list tx) \<Rightarrow> pyval \<Rightarrow> 'a list tx" where
  "check_list f v = (case v of
     PList vs \<Rightarrow> guard (length vs \<le> 100) invalid_input (res_fold f vs []) | _ \<Rightarrow> Inl invalid_input)"

text \<open>The order of the rules: by scope, \<open>'all'\<close> first, then by region.\<close>

definition rule_key :: "access_rule \<Rightarrow> string \<times> string" where
  "rule_key r = (case ru_region r of None \<Rightarrow> (''all'', []) | Some i \<Rightarrow> (''region'', i))"

definition validate_policy :: "db \<Rightarrow> pyval \<Rightarrow> access_policy tx" where
  "validate_policy d values = (case values of
     PDict c \<Rightarrow>
       guard (fst ` set c = {''explicit_grants'', ''rules'', ''exclusions''}) invalid_input
       (res_bind (validate_grants d (py_get ''explicit_grants'' c)) (\<lambda>explicit.
        res_bind (check_list (check_rule d) (py_get ''rules'' c)) (\<lambda>rules.
        res_bind (check_list (check_exclusion d) (py_get ''exclusions'' c)) (\<lambda>excluded.
          Inr \<lparr>ap_explicit = grant_list explicit, ap_rules = sort_key rule_key rules,
               ap_exclusions = grant_list excluded\<rparr>))))
   | _ \<Rightarrow> Inl invalid_input)"

text \<open>A policy as the JSON the database keeps.\<close>

definition target_json :: "grant_target \<Rightarrow> pyval" where
  "target_json g = PDict [(''node_key'', PStr (fst g)), (''protocol'', PStr (protocol_name (snd g)))]"

definition rule_json :: "access_rule \<Rightarrow> pyval" where
  "rule_json r = PDict [(''scope'', PStr (fst (rule_key r))),
     (''region_id'', case ru_region r of None \<Rightarrow> PNone | Some i \<Rightarrow> PStr i),
     (''protocols'', PList (map (\<lambda>p. PStr (protocol_name p)) (ru_protocols r)))]"

definition policy_json :: "access_policy \<Rightarrow> pyval" where
  "policy_json p = PDict [(''explicit_grants'', PList (map target_json (ap_explicit p))),
     (''rules'', PList (map rule_json (ap_rules p))), (''exclusions'', PList (map target_json (ap_exclusions p)))]"

section \<open>Regions\<close>

definition assign_region :: "(string \<Rightarrow> string) \<Rightarrow> string \<Rightarrow> string \<Rightarrow> db \<Rightarrow> db \<times> string" where
  "assign_region canon node_key title d =
     (let (new_id, d1) = draw d;
          d2 = (if \<exists>r \<in> set (regions d1). rg_canonical r = canon title then d1
                else d1\<lparr>regions := regions d1 @ [\<lparr>rg_id = new_id, rg_title = title, rg_canonical = canon title\<rparr>]\<rparr>);
          region_id = (case find (\<lambda>r. rg_canonical r = canon title) (regions d2) of None \<Rightarrow> [] | Some r \<Rightarrow> rg_id r)
      in (d2\<lparr>node_regions := dict_set node_key region_id (node_regions d2)\<rparr>, region_id))"

section \<open>Policies of profiles\<close>

definition profile_grants :: "db \<Rightarrow> string \<Rightarrow> grant_target list" where
  "profile_grants d profile_id = map (\<lambda>g. (gr_node g, gr_protocol g)) (filter (\<lambda>g. gr_profile g = profile_id) (grants d))"

definition raw_read :: "db \<Rightarrow> string \<Rightarrow> access_policy" where
  "raw_read d profile_id = (case map_of (grant_policies d) profile_id of
     Some p \<Rightarrow> p
   | None \<Rightarrow> \<lparr>ap_explicit = sort_key target_key (profile_grants d profile_id), ap_rules = [], ap_exclusions = []\<rparr>)"

definition is_admin_profile :: "db \<Rightarrow> string \<Rightarrow> bool" where
  "is_admin_profile d profile_id = (\<exists>p \<in> set (profiles d). pf_id p = profile_id
     \<and> (\<exists>a \<in> set (accounts d). pf_owner p = Some (acc_id a) \<and> acc_role a = ''admin''))"

definition ADMIN_POLICY :: access_policy where
  "ADMIN_POLICY = \<lparr>ap_explicit = [], ap_rules = [\<lparr>ru_region = None, ru_protocols = [Awg, Xray]\<rparr>], ap_exclusions = []\<rparr>"

definition read_policy :: "db \<Rightarrow> string \<Rightarrow> access_policy" where
  "read_policy d profile_id = (if is_admin_profile d profile_id then ADMIN_POLICY else raw_read d profile_id)"

definition store_policy :: "string \<Rightarrow> access_policy \<Rightarrow> db \<Rightarrow> db" where
  "store_policy profile_id values d = d\<lparr>grant_policies := dict_set profile_id values (grant_policies d)\<rparr>"

text \<open>The nodes a rule can give access to.\<close>

definition derivable :: "db \<Rightarrow> string option \<Rightarrow> node_row \<Rightarrow> bool" where
  "derivable d preview_node n =
     ((nd_enabled n \<or> nd_applied_revision n > 0 \<or> nd_key n = coalesce preview_node)
      \<and> nd_key n \<notin> set (node_drains d) \<and> nd_key n \<notin> fst ` set (node_retirements d))"

definition rule_matches :: "string option \<Rightarrow> access_rule \<Rightarrow> bool" where
  "rule_matches region_id r = (ru_region r = None \<or> ru_region r = region_id)"

definition node_region :: "(string \<times> string option) option \<Rightarrow> string \<Rightarrow> string \<Rightarrow> string option" where
  "node_region override key region_id = (case override of
     Some (k, r) \<Rightarrow> if key = k then r else Some region_id | None \<Rightarrow> Some region_id)"

definition node_targets :: "db \<Rightarrow> access_policy \<Rightarrow> (string \<times> string option) option \<Rightarrow> node_row \<Rightarrow> grant_target list" where
  "node_targets d values override n = (case map_of (node_regions d) (nd_key n) of
     None \<Rightarrow> []
   | Some region_id \<Rightarrow>
       concat (map (\<lambda>r. map (Pair (nd_key n)) (filter (\<lambda>p. p \<in> set (nd_protocols n)) (ru_protocols r)))
         (filter (rule_matches (node_region override (nd_key n) region_id)) (ap_rules values))))"

definition derived :: "db \<Rightarrow> access_policy \<Rightarrow> (string \<times> string option) option \<Rightarrow> string option \<Rightarrow> grant_target list" where
  "derived d values override preview_node =
     filter (\<lambda>g. g \<notin> set (ap_exclusions values))
       (concat (map (node_targets d values override) (filter (derivable d preview_node) (nodes d))))"

definition effective_grants :: "db \<Rightarrow> string \<Rightarrow> grant_target list" where
  "effective_grants d profile_id =
     (let values = read_policy d profile_id;
          eff = ap_explicit values @ derived d values None None;
          eff' = (if is_admin_profile d profile_id
                  then filter (\<lambda>g. \<exists>n \<in> set (nodes d). nd_key n = fst g \<and> nd_applied_revision n > 0) eff else eff)
      in if profile_id \<in> set (profile_deletions d) then [] else eff')"

definition materialize :: "string \<Rightarrow> db \<Rightarrow> db \<times> bool" where
  "materialize profile_id d0 =
     (let d = (if is_admin_profile d0 profile_id \<and> map_of (grant_policies d0) profile_id = None
               then store_policy profile_id (raw_read d0 profile_id) d0 else d0);
          eff = effective_grants d profile_id
      in if set eff = set (profile_grants d profile_id) then (d, False)
         else (d\<lparr>grants := filter (\<lambda>g. gr_profile g \<noteq> profile_id) (grants d)
                 @ map (\<lambda>(n, p). \<lparr>gr_profile = profile_id, gr_node = n, gr_protocol = p\<rparr>) (grant_list eff)\<rparr>, True))"

definition replace_explicit :: "string \<Rightarrow> grant_target list \<Rightarrow> db \<Rightarrow> db" where
  "replace_explicit profile_id gs d =
     fst (materialize profile_id
       (store_policy profile_id ((read_policy d profile_id)\<lparr>ap_explicit := grant_list gs\<rparr>) d))"

definition without_node :: "string \<Rightarrow> access_policy \<Rightarrow> access_policy" where
  "without_node node_key p = p\<lparr>ap_explicit := filter (\<lambda>g. fst g \<noteq> node_key) (ap_explicit p),
     ap_exclusions := filter (\<lambda>g. fst g \<noteq> node_key) (ap_exclusions p)\<rparr>"

definition forget_node :: "string \<Rightarrow> db \<Rightarrow> db" where
  "forget_node node_key d =
     fold (\<lambda>pid d. store_policy pid (without_node node_key (raw_read d pid)) d) (map fst (grant_policies d)) d"

record region_change =
  rc_profile :: string
  rc_added :: "protocol list"
  rc_removed :: "protocol list"

definition preview_profile :: "db \<Rightarrow> string \<Rightarrow> string option \<Rightarrow> string \<Rightarrow> region_change list" where
  "preview_profile d node_key region_id profile_id =
     (let values = read_policy d profile_id;
          before = ap_explicit values @ derived d values None (Some node_key);
          after = ap_explicit values @ derived d values (Some (node_key, region_id)) (Some node_key)
      in if set before = set after then []
         else [\<lparr>rc_profile = profile_id,
                rc_added = filter (\<lambda>p. (node_key, p) \<in> set after \<and> (node_key, p) \<notin> set before) [Awg, Xray],
                rc_removed = filter (\<lambda>p. (node_key, p) \<in> set before \<and> (node_key, p) \<notin> set after) [Awg, Xray]\<rparr>])"

definition region_preview ::
  "(string \<Rightarrow> string) \<Rightarrow> db \<Rightarrow> string \<Rightarrow> pyval \<Rightarrow> (string \<times> string option \<times> region_change list) tx" where
  "region_preview canon d node_key title =
     guard (find_node d node_key \<noteq> None) (AccessDenied ''resource_not_found'' 404)
     (case title of
        PStr t \<Rightarrow>
          guard (strip t \<noteq> [] \<and> length t \<le> 128) invalid_input
          (let region_id = map_option rg_id (find (\<lambda>r. rg_canonical r = canon t) (regions d))
           in Inr (strip t, region_id,
                concat (map (preview_profile d node_key region_id)
                  (sort (filter (\<lambda>p. p \<notin> set (profile_deletions d)) (map fst (grant_policies d)))))))
      | _ \<Rightarrow> Inl invalid_input)"

definition get_policy :: "actor \<Rightarrow> string \<Rightarrow> db \<Rightarrow> (int \<times> bool \<times> access_policy \<times> grant_target list) tx" where
  "get_policy actor profile_id d =
     res_bind (require_permission actor ''grants.manage'') (\<lambda>_.
     (case find (\<lambda>p. pf_id p = profile_id) (profiles d) of
        None \<Rightarrow> Inl (AccessDenied ''resource_not_found'' 404)
      | Some p \<Rightarrow> let values = read_policy d profile_id in
          Inr (pf_desired_revision p, is_admin_profile d profile_id, values, grant_list (derived d values None None))))"

definition preview_region ::
  "(string \<Rightarrow> string) \<Rightarrow> actor \<Rightarrow> db \<Rightarrow> string \<Rightarrow> pyval \<Rightarrow> (string \<times> string option \<times> region_change list) tx" where
  "preview_region canon actor d node_key title =
     res_bind (require_permission actor ''nodes.manage'') (\<lambda>_.
     res_bind (require_permission actor ''grants.manage'') (\<lambda>_. region_preview canon d node_key title))"

section \<open>Lemmas\<close>

lemma set_grant_list [simp]: "set (grant_list gs) = set gs"
  by (simp add: grant_list_def)

lemma grant_list_distinct [simp]: "distinct (grant_list gs)"
  by (simp add: grant_list_def)

lemma target_key_inj: "target_key g = target_key h \<longleftrightarrow> g = h"
  by (cases "snd g"; cases "snd h") (auto simp: target_key_def protocol_name_def prod_eq_iff)

lemma sort_key_sorted: "sorted (map k xs) \<Longrightarrow> sort_key k xs = xs"
proof (induction xs)
  case (Cons x xs)
  then show ?case by (cases xs) auto
qed simp

lemma grant_list_idem [simp]: "grant_list (grant_list gs) = grant_list gs"
  by (simp add: grant_list_def distinct_remdups_id sort_key_sorted)

lemma profile_grants_add:
  "profile_grants (d\<lparr>grants := filter (\<lambda>g. gr_profile g \<noteq> pid) gs
      @ map (\<lambda>(n, p). \<lparr>gr_profile = pid, gr_node = n, gr_protocol = p\<rparr>) ts\<rparr>) q
     = (if q = pid then ts else map (\<lambda>g. (gr_node g, gr_protocol g)) (filter (\<lambda>g. gr_profile g = q) gs))"
proof -
  have "map (\<lambda>g. (gr_node g, gr_protocol g)) (map (\<lambda>(n, p). \<lparr>gr_profile = pid, gr_node = n, gr_protocol = p\<rparr>) ts) = ts"
    by (induction ts) auto
  moreover have "filter (\<lambda>g. gr_profile g = pid) (map (\<lambda>(n, p). \<lparr>gr_profile = pid, gr_node = n, gr_protocol = p\<rparr>) ts)
      = map (\<lambda>(n, p). \<lparr>gr_profile = pid, gr_node = n, gr_protocol = p\<rparr>) ts" by (induction ts) auto
  moreover have "q \<noteq> pid \<Longrightarrow> filter (\<lambda>g. gr_profile g = q) (map (\<lambda>(n, p). \<lparr>gr_profile = pid, gr_node = n, gr_protocol = p\<rparr>) ts) = []"
    by (induction ts) auto
  moreover have "q \<noteq> pid \<Longrightarrow> filter (\<lambda>g. gr_profile g \<noteq> pid \<and> gr_profile g = q) gs = filter (\<lambda>g. gr_profile g = q) gs"
    by (rule filter_cong) auto
  ultimately show ?thesis by (simp add: profile_grants_def)
qed

text \<open>The state in which the effective grants are computed.\<close>

definition with_member_policy :: "string \<Rightarrow> db \<Rightarrow> db" where
  "with_member_policy pid d = (if is_admin_profile d pid \<and> map_of (grant_policies d) pid = None
     then store_policy pid (raw_read d pid) d else d)"

lemma with_member_policy_fields [simp]:
  "is_admin_profile (with_member_policy pid d) q = is_admin_profile d q"
  "grants (with_member_policy pid d) = grants d" "profile_grants (with_member_policy pid d) q = profile_grants d q"
  "nodes (with_member_policy pid d) = nodes d" "node_regions (with_member_policy pid d) = node_regions d"
  "profile_deletions (with_member_policy pid d) = profile_deletions d"
  "derivable (with_member_policy pid d) pv = derivable d pv"
  by (simp_all add: with_member_policy_def store_policy_def is_admin_profile_def profile_grants_def derivable_def fun_eq_iff)

lemma derived_cong:
  "nodes d' = nodes d \<Longrightarrow> node_regions d' = node_regions d \<Longrightarrow> derivable d' = derivable d \<Longrightarrow> derived d' v None pv = derived d v None pv"
  by (simp add: derived_def node_targets_def [abs_def])

lemma effective_with_member_policy [simp]: "effective_grants (with_member_policy pid d) pid = effective_grants d pid"
proof -
  have r: "read_policy (with_member_policy pid d) pid = read_policy d pid"
  proof (cases "is_admin_profile d pid")
    case True
    then show ?thesis by (simp add: read_policy_def)
  next
    case False
    then show ?thesis by (simp add: with_member_policy_def)
  qed
  have "derived (with_member_policy pid d) v None None = derived d v None None" for v
    by (rule derived_cong) (simp_all add: fun_eq_iff)
  then show ?thesis by (simp add: effective_grants_def r Let_def)
qed

lemma materialize_eq:
  "materialize pid d =
     (if set (effective_grants d pid) = set (profile_grants d pid) then (with_member_policy pid d, False)
      else ((with_member_policy pid d)\<lparr>grants := filter (\<lambda>g. gr_profile g \<noteq> pid) (grants d)
                 @ map (\<lambda>(n, p). \<lparr>gr_profile = pid, gr_node = n, gr_protocol = p\<rparr>) (grant_list (effective_grants d pid))\<rparr>, True))"
  unfolding materialize_def with_member_policy_def [symmetric] Let_def by simp

lemma materialize_grants:
  "set (profile_grants (fst (materialize pid d)) pid) = set (effective_grants d pid)"
  "q \<noteq> pid \<Longrightarrow> profile_grants (fst (materialize pid d)) q = profile_grants d q"
  by (simp_all add: materialize_eq profile_grants_add) (simp add: profile_grants_def)

text \<open>A profile without a stored policy keeps the grants it has as explicit ones.\<close>

lemma derived_no_rules: "ap_rules values = [] \<Longrightarrow> derived d values override pv = []"
proof -
  assume "ap_rules values = []"
  then have "node_targets d values override n = []" for n by (simp add: node_targets_def split: option.split)
  then show ?thesis by (simp add: derived_def concat_eq_Nil_conv)
qed

lemma no_policy_no_change:
  assumes "\<not> is_admin_profile d pid" and "map_of (grant_policies d) pid = None" and "pid \<notin> set (profile_deletions d)"
  shows "set (effective_grants d pid) = set (profile_grants d pid)"
  using assms by (simp add: effective_grants_def read_policy_def raw_read_def derived_no_rules Let_def)

lemma materialize_effective:
  "set (effective_grants (fst (materialize pid d)) pid) = set (effective_grants d pid)"
proof (cases "set (effective_grants d pid) = set (profile_grants d pid)")
  case True
  then show ?thesis by (simp add: materialize_eq)
next
  case False
  let ?d' = "fst (materialize pid d)"
  have d': "?d' = (with_member_policy pid d)\<lparr>grants := filter (\<lambda>g. gr_profile g \<noteq> pid) (grants d)
                 @ map (\<lambda>(n, p). \<lparr>gr_profile = pid, gr_node = n, gr_protocol = p\<rparr>) (grant_list (effective_grants d pid))\<rparr>"
    using False by (simp add: materialize_eq)
  have fields: "profile_deletions ?d' = profile_deletions d" "nodes ?d' = nodes d" "is_admin_profile ?d' pid = is_admin_profile d pid"
    unfolding d' by (simp_all add: is_admin_profile_def with_member_policy_def store_policy_def)
  have der: "derived ?d' v None None = derived d v None None" for v
    unfolding d' by (rule derived_cong) (simp_all add: derivable_def with_member_policy_def store_policy_def fun_eq_iff)
  show ?thesis
  proof (cases "pid \<in> set (profile_deletions d)")
    case True
    then show ?thesis by (simp add: effective_grants_def fields)
  next
    case live: False
    have "read_policy ?d' pid = read_policy d pid"
    proof (cases "is_admin_profile d pid")
      case True
      then show ?thesis by (simp add: read_policy_def fields)
    next
      case nad: False
      with False no_policy_no_change [OF nad _ live] obtain p where "map_of (grant_policies d) pid = Some p" by auto
      with nad show ?thesis by (simp add: read_policy_def fields raw_read_def) (simp add: d' with_member_policy_def)
    qed
    then show ?thesis by (simp add: effective_grants_def fields der Let_def)
  qed
qed

lemma node_targets_mem:
  "(k, p) \<in> set (node_targets d values override n) \<longleftrightarrow>
     nd_key n = k \<and> p \<in> set (nd_protocols n) \<and> (\<exists>region. map_of (node_regions d) k = Some region
       \<and> (\<exists>r \<in> set (ap_rules values). rule_matches (node_region override k region) r \<and> p \<in> set (ru_protocols r)))"
  by (cases "map_of (node_regions d) (nd_key n)") (auto simp: node_targets_def)

lemma derived_mem:
  "(k, p) \<in> set (derived d values override pv) \<longleftrightarrow>
     (k, p) \<notin> set (ap_exclusions values)
     \<and> (\<exists>n \<in> set (nodes d). nd_key n = k \<and> derivable d pv n \<and> p \<in> set (nd_protocols n)
         \<and> (\<exists>region. map_of (node_regions d) k = Some region
             \<and> (\<exists>r \<in> set (ap_rules values). rule_matches (node_region override k region) r \<and> p \<in> set (ru_protocols r))))"
  by (auto simp: derived_def node_targets_mem)

section \<open>Properties\<close>

text \<open>C17. After \<open>materialize\<close> the grants of a profile are exactly what its policy gives: nothing while it is
  being deleted; for an administrator every protocol of every ready node; for a member the explicit grants and
  the targets of matching rules on available nodes that are not excluded. Grants of other profiles stay, and
  a second pass changes nothing.\<close>

theorem materialize_exact:
  "((k, p) \<in> set (profile_grants (fst (materialize pid d)) pid) \<longleftrightarrow>
     pid \<notin> set (profile_deletions d)
     \<and> (let values = read_policy d pid in
        ((k, p) \<in> set (ap_explicit values)
         \<or> (k, p) \<notin> set (ap_exclusions values)
           \<and> (\<exists>n \<in> set (nodes d). nd_key n = k \<and> derivable d None n \<and> p \<in> set (nd_protocols n)
               \<and> (\<exists>region. map_of (node_regions d) k = Some region
                   \<and> (\<exists>r \<in> set (ap_rules values). rule_matches (Some region) r \<and> p \<in> set (ru_protocols r)))))
        \<and> (if is_admin_profile d pid then \<exists>n \<in> set (nodes d). nd_key n = k \<and> nd_applied_revision n > 0 else True)))
   \<and> (q = pid \<or> profile_grants (fst (materialize pid d)) q = profile_grants d q)
   \<and> snd (materialize pid (fst (materialize pid d))) = False"
proof (intro conjI)
  show "snd (materialize pid (fst (materialize pid d))) = False"
    using materialize_effective [of pid d] materialize_grants(1) [of pid d] by (subst materialize_eq) simp
  show "q = pid \<or> profile_grants (fst (materialize pid d)) q = profile_grants d q"
    using materialize_grants(2) by blast
qed (auto simp: materialize_grants(1) effective_grants_def derived_mem Let_def node_region_def)

section \<open>Accepted policies\<close>

definition grant_ok :: "db \<Rightarrow> grant_target \<Rightarrow> bool" where
  "grant_ok d g = (case find_node d (fst g) of None \<Rightarrow> False | Some r \<Rightarrow> nd_enabled r \<and> snd g \<in> set (nd_protocols r))"

definition rule_ok :: "db \<Rightarrow> access_rule \<Rightarrow> bool" where
  "rule_ok d r = ((case ru_region r of None \<Rightarrow> True | Some i \<Rightarrow> i \<in> rg_id ` set (regions d))
     \<and> ru_protocols r \<in> {[Awg], [Xray], [Awg, Xray]})"

definition policy_ok :: "db \<Rightarrow> access_policy \<Rightarrow> bool" where
  "policy_ok d p =
     (list_all (grant_ok d) (ap_explicit p) \<and> grant_list (ap_explicit p) = ap_explicit p \<and> length (ap_explicit p) \<le> 100
      \<and> list_all (rule_ok d) (ap_rules p) \<and> distinct (map ru_region (ap_rules p)) \<and> sorted (map rule_key (ap_rules p))
      \<and> length (ap_rules p) \<le> 100
      \<and> list_all (\<lambda>g. find_node d (fst g) \<noteq> None) (ap_exclusions p) \<and> grant_list (ap_exclusions p) = ap_exclusions p
      \<and> length (ap_exclusions p) \<le> 100)"

text \<open>A loop that appends one element per item.\<close>

lemma res_fold_appends:
  assumes step: "\<And>v acc out. f v acc = Inr out \<Longrightarrow> \<exists>x. out = acc @ [x] \<and> Q x \<and> k x \<notin> k ` set acc"
    and "res_fold f vs acc = Inr out" and "list_all Q acc" and "distinct (map k acc)"
  shows "list_all Q out \<and> distinct (map k out) \<and> length out = length acc + length vs"
  using assms(2-)
proof (induction vs arbitrary: acc)
  case Nil
  then show ?case by simp
next
  case (Cons v vs)
  from Cons.prems(1) obtain acc' where a: "f v acc = Inr acc'" "res_fold f vs acc' = Inr out"
    by (auto simp: res_bind_Inr_iff)
  from step [OF a(1)] obtain x where "acc' = acc @ [x]" "Q x" "k x \<notin> k ` set acc" by blast
  with Cons.IH [OF a(2)] Cons.prems(2,3) show ?case by simp
qed

lemma res_fold_encode:
  assumes "\<And>x acc. x \<in> set xs \<Longrightarrow> k x \<notin> k ` set acc \<Longrightarrow> f (enc x) acc = Inr (acc @ [x])"
    and "distinct (map k (acc @ xs))"
  shows "res_fold f (map enc xs) acc = Inr (acc @ xs)"
  using assms
proof (induction xs arbitrary: acc)
  case Nil
  then show ?case by simp
next
  case (Cons x xs)
  have "f (enc x) acc = Inr (acc @ [x])" using Cons.prems(2) by (intro Cons.prems(1)) auto
  with Cons.IH [of "acc @ [x]"] Cons.prems show ?case by simp
qed

lemma check_grant_step: "check_grant d v acc = Inr out \<Longrightarrow> \<exists>x. out = acc @ [x] \<and> grant_ok d x \<and> id x \<notin> id ` set acc"
proof -
  assume a: "check_grant d v acc = Inr out"
  then obtain g where "parse_target v = Some g" by (cases "parse_target v") (simp_all add: check_grant_def)
  with a have "out = acc @ [g] \<and> grant_ok d g \<and> id g \<notin> id ` set acc"
    by (cases g) (auto simp: check_grant_def grant_ok_def split: option.splits)
  then show ?thesis by blast
qed

lemma check_exclusion_step:
  "check_exclusion d v acc = Inr out \<Longrightarrow> \<exists>x. out = acc @ [x] \<and> find_node d (fst x) \<noteq> None \<and> id x \<notin> id ` set acc"
  by (auto simp: check_exclusion_def split: option.splits)

lemma sorted_protocols:
  assumes "ps \<noteq> []" and "length ps \<le> 2" and "distinct ps"
  shows "sort_key protocol_name ps \<in> {[Awg], [Xray], [Awg, Xray]}"
proof -
  obtain x xs where x: "ps = x # xs" using assms(1) by (cases ps) auto
  then consider "xs = []" | y where "xs = [y]" using assms(2) by (cases xs) auto
  then show ?thesis
  proof cases
    case 1
    then show ?thesis using x by (cases x) auto
  next
    case (2 y)
    then show ?thesis using x assms(3) by (cases x; cases y) (auto simp: protocol_name_def)
  qed
qed

lemma parse_protocols_ok: "parse_protocols v = Some ps \<Longrightarrow> ps \<in> {[Awg], [Xray], [Awg, Xray]}"
proof -
  assume "parse_protocols v = Some ps"
  then obtain vs where "vs \<noteq> []" "length vs \<le> 2" "distinct (map (\<lambda>p. the (parse_protocol p)) vs)"
    "ps = sort_key protocol_name (map (\<lambda>p. the (parse_protocol p)) vs)"
    by (auto simp: parse_protocols_def split: pyval.splits if_splits)
  with sorted_protocols [of "map (\<lambda>p. the (parse_protocol p)) vs"] show ?thesis by simp
qed

lemma check_rule_step:
  assumes "check_rule d v acc = Inr out"
  shows "\<exists>x. out = acc @ [x] \<and> rule_ok d x \<and> ru_region x \<notin> ru_region ` set acc"
proof -
  from assms obtain c region ps where r: "rule_region d (py_get ''scope'' c) (py_get ''region_id'' c) = Inr region"
    "parse_protocols (py_get ''protocols'' c) = Some ps" "region \<notin> ru_region ` set acc"
    "out = acc @ [\<lparr>ru_region = region, ru_protocols = ps\<rparr>]"
    by (auto simp: check_rule_def res_bind_Inr_iff split: pyval.splits option.splits)
  have "case region of None \<Rightarrow> True | Some i \<Rightarrow> i \<in> rg_id ` set (regions d)"
    using r(1) by (auto simp: rule_region_def split: if_splits pyval.splits)
  with r parse_protocols_ok [OF r(2)] show ?thesis by (auto simp: rule_ok_def)
qed

lemma check_listD: "check_list f v = Inr out \<Longrightarrow> \<exists>vs. v = PList vs \<and> length vs \<le> 100 \<and> res_fold f vs [] = Inr out"
  by (auto simp: check_list_def split: pyval.splits)

lemma validate_grants_eq: "validate_grants d = check_list (check_grant d)"
  by (simp add: validate_grants_def check_list_def fun_eq_iff split: pyval.split)

lemma check_list_ok:
  assumes "\<And>v acc out. f v acc = Inr out \<Longrightarrow> \<exists>x. out = acc @ [x] \<and> Q x \<and> k x \<notin> k ` set acc"
    and "check_list f v = Inr out"
  shows "list_all Q out \<and> distinct (map k out) \<and> length out \<le> 100"
proof -
  from check_listD [OF assms(2)] obtain vs where "length vs \<le> 100" "res_fold f vs [] = Inr out" by blast
  with res_fold_appends [of f Q k, OF assms(1)] show ?thesis by force
qed

lemma grant_list_fixed: "length (grant_list gs) \<le> length gs"
  by (simp add: grant_list_def length_remdups_leq)

lemma validate_policy_ok:
  assumes "validate_policy d values = Inr p"
  shows "policy_ok d p"
proof -
  from assms obtain c e rs x where e: "check_list (check_grant d) (py_get ''explicit_grants'' c) = Inr e"
    and rs: "check_list (check_rule d) (py_get ''rules'' c) = Inr rs"
    and x: "check_list (check_exclusion d) (py_get ''exclusions'' c) = Inr x"
    and p: "p = \<lparr>ap_explicit = grant_list e, ap_rules = sort_key rule_key rs, ap_exclusions = grant_list x\<rparr>"
    by (auto simp: validate_policy_def validate_grants_eq res_bind_Inr_iff split: pyval.splits)
  have E: "list_all (grant_ok d) e" "length e \<le> 100" using check_list_ok [OF check_grant_step e] by auto
  have X: "list_all (\<lambda>g. find_node d (fst g) \<noteq> None) x" "length x \<le> 100" using check_list_ok [OF check_exclusion_step x] by auto
  have R: "list_all (rule_ok d) rs" "distinct (map ru_region rs)" "length rs \<le> 100" using check_list_ok [OF check_rule_step rs] by auto
  have "distinct (map ru_region (sort_key rule_key rs))" using R(2) by (simp add: distinct_map)
  with E X R grant_list_fixed [of e] grant_list_fixed [of x] show ?thesis
    by (simp add: policy_ok_def p list_all_iff)
qed

lemma parse_target_json [simp]: "parse_target (target_json g) = Some g"
  by (cases g; cases "snd g") (auto simp: parse_target_def target_json_def py_get_def parse_protocol_def protocol_name_def)

lemma check_rule_json:
  assumes "rule_ok d r" and "ru_region r \<notin> ru_region ` set acc"
  shows "check_rule d (rule_json r) acc = Inr (acc @ [r])"
proof -
  have "parse_protocols (PList (map (\<lambda>p. PStr (protocol_name p)) (ru_protocols r))) = Some (ru_protocols r)"
    using assms(1) by (auto simp: rule_ok_def parse_protocols_def parse_protocol_def protocol_name_def)
  moreover have "rule_region d (PStr (fst (rule_key r))) (case ru_region r of None \<Rightarrow> PNone | Some i \<Rightarrow> PStr i) = Inr (ru_region r)"
    using assms(1) by (auto simp: rule_ok_def rule_region_def rule_key_def split: option.splits)
  ultimately show ?thesis using assms(2) by (cases r) (auto simp: check_rule_def rule_json_def py_get_def)
qed

text \<open>C33. What \<open>validate\<close> accepts names only enabled nodes that serve the protocol, existing regions and
  nodes, each target and region once; and validating the stored form of an accepted policy again, as a
  tariff's assignment does, gives the same policy.\<close>

theorem validate_policy_roundtrip:
  assumes "validate_policy d values = Inr p"
  shows "policy_ok d p \<and> validate_policy d (policy_json p) = Inr p"
proof -
  have ok: "policy_ok d p" by (rule validate_policy_ok [OF assms])
  have de: "distinct (ap_explicit p)" "distinct (ap_exclusions p)"
    using ok grant_list_distinct unfolding policy_ok_def by metis+
  have "res_fold (check_grant d) (map target_json (ap_explicit p)) [] = Inr ([] @ ap_explicit p)"
    by (rule res_fold_encode [where k = id])
      (use ok de in \<open>auto simp: check_grant_def policy_ok_def list_all_iff grant_ok_def split: option.splits\<close>)
  moreover have "res_fold (check_exclusion d) (map target_json (ap_exclusions p)) [] = Inr ([] @ ap_exclusions p)"
    by (rule res_fold_encode [where k = id])
      (use ok de in \<open>auto simp: check_exclusion_def policy_ok_def list_all_iff\<close>)
  moreover have "res_fold (check_rule d) (map rule_json (ap_rules p)) [] = Inr ([] @ ap_rules p)"
    by (rule res_fold_encode [where k = ru_region])
      (use ok check_rule_json in \<open>auto simp: policy_ok_def list_all_iff\<close>)
  ultimately have "validate_policy d (policy_json p) = Inr p"
    using ok by (cases p) (simp add: validate_policy_def policy_json_def py_get_def validate_grants_eq check_list_def
        policy_ok_def sort_key_sorted insert_commute)
  with ok show ?thesis by simp
qed

lemma fold_forget:
  assumes "distinct is" and "set is \<subseteq> dom (map_of ps)"
  shows "map_of (grant_policies (fold (\<lambda>pid d. store_policy pid (without_node k (raw_read d pid)) d) is (d\<lparr>grant_policies := ps\<rparr>))) q
     = (if q \<in> set is then map_option (without_node k) (map_of ps q) else map_of ps q)"
  using assms
proof (induction "is" arbitrary: ps)
  case Nil
  then show ?case by simp
next
  case (Cons i js)
  then obtain p where p: "map_of ps i = Some p" by auto
  have step: "store_policy i (without_node k (raw_read (d\<lparr>grant_policies := ps\<rparr>) i)) (d\<lparr>grant_policies := ps\<rparr>)
      = d\<lparr>grant_policies := dict_set i (without_node k p) ps\<rparr>"
    by (simp add: store_policy_def raw_read_def p)
  have "set js \<subseteq> dom (map_of (dict_set i (without_node k p) ps))" using Cons.prems(2) by auto
  from Cons.IH [OF _ this] Cons.prems(1) p show ?case by (simp add: step)
qed

text \<open>Forgetting a removed node leaves no policy that names it, as a grant or as an exclusion, and
  changes nothing else of any policy.\<close>

theorem forget_node_complete:
  assumes "distinct (map fst (grant_policies d))"
  shows "map_of (grant_policies (forget_node k d)) q = map_option (without_node k) (map_of (grant_policies d) q)
     \<and> (\<forall>p. map_of (grant_policies (forget_node k d)) q = Some p \<longrightarrow> k \<notin> fst ` set (ap_explicit p @ ap_exclusions p))"
proof -
  have "map_of (grant_policies (forget_node k d)) q = map_option (without_node k) (map_of (grant_policies d) q)"
    using fold_forget [OF assms, of "grant_policies d" k d q]
    by (auto simp: forget_node_def dom_map_of_conv_image_fst) (simp add: map_of_eq_None_iff [symmetric])
  then show ?thesis by (auto simp: without_node_def)
qed

section \<open>Witnesses\<close>

definition grant_db :: db where
  "grant_db = policy_db\<lparr>nodes := [\<lparr>nd_key = ''n1'', nd_title = ''N1'', nd_enabled = True, nd_protocols = [Awg, Xray],
       nd_desired_revision = 1, nd_applied_revision = 1\<rparr>],
     regions := [\<lparr>rg_id = ''r1'', rg_title = ''EU'', rg_canonical = ''eu''\<rparr>], node_regions := [(''n1'', ''r1'')],
     grant_policies := [(''p1'', \<lparr>ap_explicit = [(''n1'', Awg)], ap_rules = [], ap_exclusions = [(''n1'', Xray)]\<rparr>)]\<rparr>"

definition sample_policy :: access_policy where
  "sample_policy = \<lparr>ap_explicit = [(''n1'', Awg)], ap_rules = [\<lparr>ru_region = Some ''r1'', ru_protocols = [Awg, Xray]\<rparr>], ap_exclusions = []\<rparr>"

theorem validate_policy_roundtrip_witness: "policy_ok grant_db sample_policy"
proof -
  have "validate_policy grant_db (policy_json sample_policy) = Inr sample_policy" by code_simp
  from validate_policy_roundtrip [OF this] show ?thesis by simp
qed

theorem forget_node_complete_witness:
  "map_of (grant_policies (forget_node ''n1'' grant_db)) ''p1'' = Some \<lparr>ap_explicit = [], ap_rules = [], ap_exclusions = []\<rparr>"
proof -
  have "distinct (map fst (grant_policies grant_db))" by code_simp
  from forget_node_complete [OF this, of "''n1''" "''p1''"] show ?thesis by (simp add: grant_db_def without_node_def)
qed

end
