(* ===== verification/Tariffs.thy ===== *)
theory Tariffs
  imports Grant_Policies
begin

text \<open>
  \<^verbatim>\<open>app/backend/tariffs.py\<close>: named templates of limits, a term and nodes, their assignment to profiles, and the
  commands that create, edit and delete them. The normal form of a title is the argument \<open>canon\<close>, the host's
  time zones \<open>zones\<close>.
\<close>

section \<open>Fields\<close>

definition check_tariff_policy ::
  "(string \<Rightarrow> bool) \<Rightarrow> string \<times> pyval \<Rightarrow> (string \<times> pyval) list \<Rightarrow> (string \<times> pyval) list tx" where
  "check_tariff_policy zones kv result =
     guard (fst kv \<in> set tariff_policy_keys) invalid_input
     (case registered (fst kv) of
        None \<Rightarrow> Inl invalid_input
      | Some k \<Rightarrow> guard (accepts zones (pk_validate k) (snd kv)) (AccessDenied ''invalid_policy_value'' 422)
          (Inr (dict_set (fst kv) (snd kv) result)))"

definition tariff_policies :: "(string \<Rightarrow> bool) \<Rightarrow> pyval \<Rightarrow> (string \<times> pyval) list tx" where
  "tariff_policies zones values = (case values of
     PDict c \<Rightarrow> guard (length c \<le> 50) invalid_input
       (res_bind (res_fold (check_tariff_policy zones) c []) (\<lambda>result. Inr (sort_key fst result)))
   | _ \<Rightarrow> Inl invalid_input)"

text \<open>The fields present in a command; a column that may be null is an option of an option.\<close>

record tariff_fields =
  fi_titles :: "localized_text option"
  fi_description :: "localized_text option option"
  fi_duration :: "int option option"
  fi_access :: "access_policy option option"
  fi_policies :: "(string \<times> pyval) list option"

definition present :: "string \<Rightarrow> (string \<times> pyval) list \<Rightarrow> (pyval \<Rightarrow> 'a tx) \<Rightarrow> 'a option tx" where
  "present k c f = (case map_of c k of None \<Rightarrow> Inr None | Some v \<Rightarrow> res_bind (f v) (\<lambda>x. Inr (Some x)))"

definition nullable :: "(pyval \<Rightarrow> 'a tx) \<Rightarrow> pyval \<Rightarrow> 'a option tx" where
  "nullable f v = (if v = PNone then Inr None else res_bind (f v) (\<lambda>x. Inr (Some x)))"

definition check_days :: "pyval \<Rightarrow> int tx" where
  "check_days v = (case v of PInt n \<Rightarrow> guard (1 \<le> n \<and> n \<le> 3650) invalid_input (Inr n) | _ \<Rightarrow> Inl invalid_input)"

definition tariff_fields_of :: "(string \<Rightarrow> bool) \<Rightarrow> db \<Rightarrow> bool \<Rightarrow> pyval \<Rightarrow> tariff_fields tx" where
  "tariff_fields_of zones d partial values = (case values of
     PDict c \<Rightarrow>
       guard (fst ` set c \<subseteq> {''titles'', ''descriptions'', ''duration_days'', ''access_policy'', ''policies''}
              \<and> (partial \<or> ''titles'' \<in> fst ` set c)) invalid_input
       (res_bind (present ''titles'' c (checked_text 64 False)) (\<lambda>titles.
        res_bind (present ''descriptions'' c (nullable (checked_text 1000 True))) (\<lambda>description.
        res_bind (present ''duration_days'' c (nullable check_days)) (\<lambda>duration.
        res_bind (present ''access_policy'' c (nullable (validate_policy d))) (\<lambda>access.
        res_bind (present ''policies'' c (tariff_policies zones)) (\<lambda>policies.
          Inr \<lparr>fi_titles = titles, fi_description = description, fi_duration = duration, fi_access = access,
               fi_policies = policies\<rparr>))))))
   | _ \<Rightarrow> Inl invalid_input)"

definition no_fields :: "tariff_fields \<Rightarrow> bool" where
  "no_fields f = (fi_titles f = None \<and> fi_description f = None \<and> fi_duration f = None \<and> fi_access f = None \<and> fi_policies f = None)"

text \<open>The text of the source language.\<close>

definition source_text :: "localized_text \<Rightarrow> string" where
  "source_text t = (case map_of (lt_texts t) (lt_source t) of None \<Rightarrow> [] | Some s \<Rightarrow> s)"

definition set_fields :: "(string \<Rightarrow> string) \<Rightarrow> tariff_fields \<Rightarrow> tariff_row \<Rightarrow> tariff_row" where
  "set_fields canon f t = t\<lparr>
     tf_title := (case fi_titles f of None \<Rightarrow> tf_title t | Some x \<Rightarrow> source_text x),
     tf_canonical := (case fi_titles f of None \<Rightarrow> tf_canonical t | Some x \<Rightarrow> canon (source_text x)),
     tf_titles := (case fi_titles f of None \<Rightarrow> tf_titles t | Some x \<Rightarrow> Some x),
     tf_description := (case fi_description f of None \<Rightarrow> tf_description t | Some x \<Rightarrow> x),
     tf_duration_days := (case fi_duration f of None \<Rightarrow> tf_duration_days t | Some x \<Rightarrow> x),
     tf_access := (case fi_access f of None \<Rightarrow> tf_access t | Some x \<Rightarrow> x),
     tf_policies := (case fi_policies f of None \<Rightarrow> tf_policies t | Some x \<Rightarrow> x)\<rparr>"

text \<open>\<open>texts\<close>: the title and the description a person reads.\<close>

definition tariff_texts :: "tariff_row \<Rightarrow> string option \<Rightarrow> (string \<times> string option) tx" where
  "tariff_texts t lang =
     res_bind (resolve_text (case tf_titles t of None \<Rightarrow> plain (tf_title t) DEFAULT_LANGUAGE | Some x \<Rightarrow> x) lang) (\<lambda>title.
     (case tf_description t of
        None \<Rightarrow> Inr (title, None)
      | Some x \<Rightarrow> res_bind (resolve_text x lang) (\<lambda>description. Inr (title, Some description))))"

definition tariff_count :: "db \<Rightarrow> string \<Rightarrow> nat" where
  "tariff_count d tariff_id = length (filter (\<lambda>a. pt_tariff a = tariff_id) (profile_tariffs d))"

record tariff_view =
  tv_row :: tariff_row
  tv_texts :: "string \<times> string option"
  tv_profiles :: nat

definition tariff_public :: "db \<Rightarrow> string option \<Rightarrow> tariff_row \<Rightarrow> tariff_view tx" where
  "tariff_public d lang t = res_bind (tariff_texts t lang) (\<lambda>x.
     Inr \<lparr>tv_row = t, tv_texts = x, tv_profiles = tariff_count d (tf_id t)\<rparr>)"

section \<open>Assignment\<close>

datatype expiry_mode = Keep | Start | Extend

definition parse_expiry_mode :: "pyval option \<Rightarrow> expiry_mode option" where
  "parse_expiry_mode v = (case v of None \<Rightarrow> Some Keep
     | Some x \<Rightarrow> if x = PStr ''keep'' then Some Keep else if x = PStr ''start'' then Some Start
         else if x = PStr ''extend'' then Some Extend else None)"

definition parse_flag :: "pyval option \<Rightarrow> bool option" where
  "parse_flag v = (case v of None \<Rightarrow> Some False | Some (PBool b) \<Rightarrow> Some b | Some _ \<Rightarrow> None)"

text \<open>The new expiry: a renewal adds the term after the remaining time.\<close>

definition new_expiry :: "expiry_mode \<Rightarrow> instant option \<Rightarrow> int \<Rightarrow> instant \<Rightarrow> instant option tx" where
  "new_expiry mode current days now = (case mode of
     Keep \<Rightarrow> Inr current
   | _ \<Rightarrow>
       let start = (case current of Some t \<Rightarrow> if mode = Extend \<and> t > now then t else now | None \<Rightarrow> now)
       in guard (start + days * day \<le> MAX_INSTANT) OverflowError (Inr (Some (start + days * day))))"

definition link_tariff :: "string \<Rightarrow> string \<Rightarrow> instant \<Rightarrow> db \<Rightarrow> db" where
  "link_tariff profile_id tariff_id now d = d\<lparr>profile_tariffs :=
     (if \<exists>a \<in> set (profile_tariffs d). pt_profile a = profile_id
      then update_where (\<lambda>a. pt_profile a = profile_id) (\<lambda>a. a\<lparr>pt_tariff := tariff_id, pt_assigned_at := now\<rparr>) (profile_tariffs d)
      else profile_tariffs d @ [\<lparr>pt_profile = profile_id, pt_tariff = tariff_id, pt_assigned_at = now\<rparr>])\<rparr>"

definition assign_found ::
  "string \<Rightarrow> bool \<Rightarrow> instant option \<Rightarrow> tariff_row \<Rightarrow> expiry_mode \<Rightarrow> bool \<Rightarrow> instant \<Rightarrow> db
   \<Rightarrow> (db \<times> instant option \<times> access_policy option) tx" where
  "assign_found profile_id owner_admin current t mode apply_access now d =
     guard (\<not> (owner_admin \<and> (mode \<noteq> Keep \<or> apply_access))) (AccessDenied ''admin_access_permanent'' 422)
     (guard (\<not> (apply_access \<and> tf_access t = None)) (AccessDenied ''tariff_without_access'' 422)
     (guard (\<not> (mode \<noteq> Keep \<and> tf_duration_days t = None)) (AccessDenied ''tariff_without_term'' 422)
     (res_bind (new_expiry mode current (case tf_duration_days t of None \<Rightarrow> 0 | Some n \<Rightarrow> n) now) (\<lambda>expires.
       Inr (link_tariff profile_id (tf_id t) now d, expires, if apply_access then tf_access t else None)))))"

definition assign_tariff ::
  "string \<Rightarrow> bool \<Rightarrow> instant option \<Rightarrow> pyval \<Rightarrow> instant \<Rightarrow> db \<Rightarrow> (db \<times> instant option \<times> access_policy option) tx" where
  "assign_tariff profile_id owner_admin current values now d = (case values of
     PDict c \<Rightarrow>
       guard (fst ` set c \<subseteq> {''tariff_id'', ''expiry'', ''apply_access''} \<and> ''tariff_id'' \<in> fst ` set c) invalid_input
       (case (parse_expiry_mode (map_of c ''expiry''), parse_flag (map_of c ''apply_access'')) of
          (Some mode, Some apply_access) \<Rightarrow>
            (case py_get ''tariff_id'' c of
               PNone \<Rightarrow> guard (mode = Keep \<and> \<not> apply_access) invalid_input
                 (Inr (d\<lparr>profile_tariffs := filter (\<lambda>a. pt_profile a \<noteq> profile_id) (profile_tariffs d)\<rparr>, current, None))
             | PStr s \<Rightarrow> (case uuid_str s of
                 None \<Rightarrow> Inl invalid_input
               | Some i \<Rightarrow> (case find (\<lambda>t. tf_id t = i) (tariffs d) of
                   None \<Rightarrow> Inl (AccessDenied ''tariff_not_found'' 404)
                 | Some t \<Rightarrow> assign_found profile_id owner_admin current t mode apply_access now d))
             | _ \<Rightarrow> Inl invalid_input)
        | _ \<Rightarrow> Inl invalid_input)
   | _ \<Rightarrow> Inl invalid_input)"

section \<open>Commands\<close>

definition tariffs_list :: "actor \<Rightarrow> string option \<Rightarrow> db \<Rightarrow> (tariff_view list \<times> string list) tx" where
  "tariffs_list actor lang d =
     res_bind (require_permission actor ''profiles.manage'') (\<lambda>_.
     res_bind (res_map (tariff_public d lang) (order_by tf_canonical (tariffs d))) (\<lambda>items.
       Inr (items, tariff_policy_keys)))"

definition tariffs_get :: "actor \<Rightarrow> string option \<Rightarrow> string \<Rightarrow> db \<Rightarrow> tariff_view tx" where
  "tariffs_get actor lang tariff_id d =
     res_bind (require_permission actor ''profiles.manage'') (\<lambda>_.
     (case find (\<lambda>t. tf_id t = tariff_id) (tariffs d) of
        None \<Rightarrow> Inl (AccessDenied ''resource_not_found'' 404) | Some t \<Rightarrow> tariff_public d lang t))"

definition empty_tariff :: "string \<Rightarrow> tariff_row" where
  "empty_tariff i = \<lparr>tf_id = i, tf_title = [], tf_canonical = [], tf_titles = None, tf_description = None,
     tf_duration_days = None, tf_access = None, tf_policies = [], tf_revision = 1\<rparr>"

definition tariffs_create ::
  "(string \<Rightarrow> bool) \<Rightarrow> (string \<Rightarrow> string) \<Rightarrow> actor \<Rightarrow> string option \<Rightarrow> pyval \<Rightarrow> db \<Rightarrow> (db \<times> tariff_view) tx" where
  "tariffs_create zones canon actor lang values d0 =
     res_bind (require_permission actor ''settings.manage'') (\<lambda>_.
     res_bind (admit False d0) (\<lambda>d.
     res_bind (tariff_fields_of zones d False values) (\<lambda>f.
     (let (new_id, d1) = draw d; t = set_fields canon f (empty_tariff new_id) in
      guard (\<not> (\<exists>q \<in> set (tariffs d). tf_canonical q = tf_canonical t)) (AccessDenied ''tariff_exists'' 409)
      (res_bind (tariff_texts t lang) (\<lambda>x.
        Inr (d1\<lparr>tariffs := tariffs d1 @ [t]\<rparr>, \<lparr>tv_row = t, tv_texts = x, tv_profiles = 0\<rparr>)))))))"

definition tariffs_edit ::
  "(string \<Rightarrow> bool) \<Rightarrow> (string \<Rightarrow> string) \<Rightarrow> actor \<Rightarrow> string option \<Rightarrow> string \<Rightarrow> pyval \<Rightarrow> pyval \<Rightarrow> db \<Rightarrow> (db \<times> tariff_view) tx" where
  "tariffs_edit zones canon actor lang tariff_id revision values d0 =
     res_bind (require_permission actor ''settings.manage'') (\<lambda>_.
     (case revision of
        PInt n \<Rightarrow>
          guard (1 \<le> n) (AccessDenied ''revision_required'' 428)
          (res_bind (admit False d0) (\<lambda>d.
           res_bind (tariff_fields_of zones d True values) (\<lambda>f.
           guard (\<not> no_fields f) invalid_input
           (case find (\<lambda>t. tf_id t = tariff_id) (tariffs d) of
              None \<Rightarrow> Inl (AccessDenied ''resource_not_found'' 404)
            | Some t \<Rightarrow>
                guard (tf_revision t = n) (AccessDenied ''revision_conflict'' 412)
                (let t' = (set_fields canon f t)\<lparr>tf_revision := tf_revision t + 1\<rparr> in
                 guard (\<not> (fi_titles f \<noteq> None \<and> (\<exists>q \<in> set (tariffs d). tf_canonical q = tf_canonical t' \<and> tf_id q \<noteq> tariff_id)))
                   (AccessDenied ''tariff_exists'' 409)
                 (let d1 = d\<lparr>tariffs := update_where (\<lambda>q. tf_id q = tariff_id) (\<lambda>_. t') (tariffs d)\<rparr> in
                  res_bind (tariff_public d1 lang t') (\<lambda>v. Inr (d1, v))))))))
      | _ \<Rightarrow> Inl (AccessDenied ''revision_required'' 428)))"

text \<open>The revision of a deletion is compared as it is given; \<open>True == 1\<close>.\<close>

definition py_num :: "pyval \<Rightarrow> int option" where
  "py_num v = (case v of PInt n \<Rightarrow> Some n | PBool b \<Rightarrow> Some (if b then 1 else 0) | _ \<Rightarrow> None)"

definition tariffs_delete :: "actor \<Rightarrow> string \<Rightarrow> pyval \<Rightarrow> db \<Rightarrow> db tx" where
  "tariffs_delete actor tariff_id revision d0 =
     res_bind (require_permission actor ''settings.manage'') (\<lambda>_.
     res_bind (admit False d0) (\<lambda>d.
     (case find (\<lambda>t. tf_id t = tariff_id) (tariffs d) of
        None \<Rightarrow> Inl (AccessDenied ''resource_not_found'' 404)
      | Some t \<Rightarrow>
          guard (py_num revision = Some (tf_revision t)) (AccessDenied ''revision_conflict'' 412)
          (guard (\<not> (\<exists>a \<in> set (profile_tariffs d). pt_tariff a = tariff_id)) (AccessDenied ''tariff_in_use'' 409)
            (Inr (d\<lparr>tariffs := filter (\<lambda>t. tf_id t \<noteq> tariff_id) (tariffs d)\<rparr>))))))"

definition tariff_of_profile :: "db \<Rightarrow> string \<Rightarrow> string option \<Rightarrow> (tariff_row \<times> (string \<times> string option) \<times> instant) option tx" where
  "tariff_of_profile d profile_id lang = (case find (\<lambda>a. pt_profile a = profile_id) (profile_tariffs d) of
     None \<Rightarrow> Inr None
   | Some a \<Rightarrow> (case find (\<lambda>t. tf_id t = pt_tariff a) (tariffs d) of
       None \<Rightarrow> Inr None
     | Some t \<Rightarrow> res_bind (tariff_texts t lang) (\<lambda>x. Inr (Some (t, x, pt_assigned_at a)))))"

section \<open>Invariant of the tariffs\<close>

definition tariff_ok :: "(string \<Rightarrow> bool) \<Rightarrow> tariff_row \<Rightarrow> bool" where
  "tariff_ok zones t = (distinct (map fst (tf_policies t))
     \<and> (\<forall>(k, v) \<in> set (tf_policies t). k \<in> set tariff_policy_keys
          \<and> (case registered k of None \<Rightarrow> False | Some s \<Rightarrow> accepts zones (pk_validate s) v))
     \<and> (case tf_duration_days t of None \<Rightarrow> True | Some n \<Rightarrow> 1 \<le> n \<and> n \<le> 3650))"

definition tariffs_inv :: "(string \<Rightarrow> bool) \<Rightarrow> db \<Rightarrow> bool" where
  "tariffs_inv zones d = (distinct (map tf_id (tariffs d)) \<and> distinct (map tf_canonical (tariffs d))
     \<and> list_all (tariff_ok zones) (tariffs d) \<and> distinct (map pt_profile (profile_tariffs d))
     \<and> (\<forall>a \<in> set (profile_tariffs d). pt_tariff a \<in> tf_id ` set (tariffs d)))"

definition policies_ok :: "(string \<Rightarrow> bool) \<Rightarrow> (string \<times> pyval) list \<Rightarrow> bool" where
  "policies_ok zones ps = (distinct (map fst ps) \<and> (\<forall>(k, v) \<in> set ps. k \<in> set tariff_policy_keys
     \<and> (case registered k of None \<Rightarrow> False | Some s \<Rightarrow> accepts zones (pk_validate s) v)))"

lemma set_dict_set: "set (dict_set k v ps) \<subseteq> insert (k, v) (set ps)"
  by (induction k v ps rule: dict_set.induct) auto

lemma check_tariff_policy_ok:
  assumes "check_tariff_policy zones kv ps = Inr qs" and "policies_ok zones ps"
  shows "policies_ok zones qs"
proof -
  from assms(1) obtain k where k: "fst kv \<in> set tariff_policy_keys" "registered (fst kv) = Some k"
    "accepts zones (pk_validate k) (snd kv)" "qs = dict_set (fst kv) (snd kv) ps"
    by (auto simp: check_tariff_policy_def split: option.splits)
  show ?thesis using assms(2) k set_dict_set [of "fst kv" "snd kv" ps] by (fastforce simp: policies_ok_def)
qed

lemma tariff_policies_ok:
  assumes "tariff_policies zones values = Inr ps"
  shows "policies_ok zones ps"
proof -
  from assms obtain c qs where f: "res_fold (check_tariff_policy zones) c [] = Inr qs" and ps: "ps = sort_key fst qs"
    by (auto simp: tariff_policies_def res_bind_Inr_iff split: pyval.splits)
  have "policies_ok zones qs"
    by (rule res_fold_invariant [OF f]) (simp add: policies_ok_def, erule check_tariff_policy_ok)
  then show ?thesis by (simp add: policies_ok_def ps distinct_map)
qed

lemma present_ok: "present k c f = Inr x \<Longrightarrow> (\<And>v y. f v = Inr y \<Longrightarrow> Q y) \<Longrightarrow> (case x of None \<Rightarrow> True | Some y \<Rightarrow> Q y)"
  by (auto simp: present_def res_bind_Inr_iff split: option.splits)

definition fields_ok :: "(string \<Rightarrow> bool) \<Rightarrow> tariff_fields \<Rightarrow> bool" where
  "fields_ok zones f = ((case fi_policies f of None \<Rightarrow> True | Some ps \<Rightarrow> policies_ok zones ps)
     \<and> (case fi_duration f of None \<Rightarrow> True | Some n \<Rightarrow> (case n of None \<Rightarrow> True | Some m \<Rightarrow> 1 \<le> m \<and> m \<le> 3650)))"

lemma nullable_days: "nullable check_days v = Inr y \<Longrightarrow> case y of None \<Rightarrow> True | Some n \<Rightarrow> 1 \<le> n \<and> n \<le> 3650"
  by (auto simp: nullable_def check_days_def res_bind_Inr_iff split: if_splits pyval.splits)

lemma tariff_fields_ok:
  assumes "tariff_fields_of zones d partial values = Inr f"
  shows "fields_ok zones f"
proof -
  from assms obtain c where "present ''duration_days'' c (nullable check_days) = Inr (fi_duration f)"
    "present ''policies'' c (tariff_policies zones) = Inr (fi_policies f)"
    by (auto simp: tariff_fields_of_def res_bind_Inr_iff split: pyval.splits)
  from present_ok [OF this(1) nullable_days] present_ok [OF this(2) tariff_policies_ok]
  show ?thesis by (simp add: fields_ok_def)
qed

lemma set_fields_ok: "tariff_ok zones t \<Longrightarrow> fields_ok zones f \<Longrightarrow> tariff_ok zones (set_fields canon f t)"
  by (auto simp: tariff_ok_def fields_ok_def set_fields_def policies_ok_def split: option.splits)

text \<open>The identifiers of tariffs still to be drawn are new.\<close>

definition fresh_tariff :: "db \<Rightarrow> bool" where
  "fresh_tariff d = (rng d (drawn d) \<notin> tf_id ` set (tariffs d))"

lemma create_inv:
  assumes "tariffs_inv zones d" and "fresh_tariff d" and c: "tariffs_create zones canon actor lang values d = Inr (d', v)"
  shows "tariffs_inv zones d'"
proof -
  from c obtain e f where e: "admit False d = Inr e" "tariff_fields_of zones e False values = Inr f"
    and ex: "\<not> (\<exists>q \<in> set (tariffs e). tf_canonical q = tf_canonical (set_fields canon f (empty_tariff (rng e (drawn e)))))"
    and d': "d' = e\<lparr>drawn := Suc (drawn e), tariffs := tariffs e @ [set_fields canon f (empty_tariff (rng e (drawn e)))]\<rparr>"
    by (auto simp: tariffs_create_def res_bind_Inr_iff draw_def Let_def)
  have ed: "e = d\<lparr>account_guard := account_guard d + 1\<rparr>" by (rule admit_Inr [OF e(1)])
  have "tariff_ok zones (set_fields canon f (empty_tariff i))" for i
    by (rule set_fields_ok [OF _ tariff_fields_ok [OF e(2)]]) (simp add: tariff_ok_def empty_tariff_def)
  moreover have "tf_id (set_fields canon f (empty_tariff i)) = i" for i by (simp add: set_fields_def empty_tariff_def)
  ultimately show ?thesis using assms(1,2) ex
    by (auto simp: tariffs_inv_def d' ed fresh_tariff_def)
qed

lemma update_where_Cons: "update_where p f (x # xs) = (if p x then f x else x) # update_where p f xs"
  by (simp add: update_where_def)

lemma distinct_replace:
  assumes "distinct (map k ts)" and "distinct (map c ts)" and "\<forall>q \<in> set ts. k q \<noteq> i \<longrightarrow> c q \<noteq> c t"
  shows "distinct (map c (update_where (\<lambda>q. k q = i) (\<lambda>_. t) ts))"
  using assms
proof (induction ts)
  case Nil
  then show ?case by (simp add: update_where_def)
next
  case (Cons x xs)
  have IH: "distinct (map c (update_where (\<lambda>q. k q = i) (\<lambda>_. t) xs))" using Cons by simp
  show ?case
  proof (cases "k x = i")
    case True
    then have none: "\<And>q. q \<in> set xs \<Longrightarrow> \<not> k q = i" using Cons.prems(1) by (auto dest: rev_image_eqI [OF _ sym])
    then have "update_where (\<lambda>q. k q = i) (\<lambda>_. t) xs = xs" by (rule update_where_none)
    then show ?thesis using True none Cons.prems by (auto simp: update_where_def)
  next
    case False
    have "c x \<notin> c ` set (update_where (\<lambda>q. k q = i) (\<lambda>_. t) xs)"
      using Cons.prems False by (auto simp: update_where_def)
    with IH False show ?thesis by (simp add: update_where_Cons)
  qed
qed

lemma edit_inv:
  assumes inv: "tariffs_inv zones d" and c: "tariffs_edit zones canon actor lang i revision values d = Inr (d', v)"
  shows "tariffs_inv zones d'"
proof -
  from c obtain n e f t where e: "admit False d = Inr e" "tariff_fields_of zones e True values = Inr f"
    and t: "find (\<lambda>t. tf_id t = i) (tariffs e) = Some t" and "tf_revision t = n"
    and ex: "\<not> (fi_titles f \<noteq> None \<and> (\<exists>q \<in> set (tariffs e). tf_canonical q = tf_canonical (set_fields canon f t) \<and> tf_id q \<noteq> i))"
    and d': "d' = e\<lparr>tariffs := update_where (\<lambda>q. tf_id q = i) (\<lambda>_. (set_fields canon f t)\<lparr>tf_revision := tf_revision t + 1\<rparr>) (tariffs e)\<rparr>"
    by (auto simp: tariffs_edit_def res_bind_Inr_iff Let_def split: pyval.splits option.splits)
  let ?t = "(set_fields canon f t)\<lparr>tf_revision := tf_revision t + 1\<rparr>"
  have ed: "e = d\<lparr>account_guard := account_guard d + 1\<rparr>" by (rule admit_Inr [OF e(1)])
  have td: "t \<in> set (tariffs d)" "tf_id t = i" using find_Some_iff [OF t] by (auto simp: ed)
  have ids: "distinct (map tf_id (tariffs d))" "distinct (map tf_canonical (tariffs d))" using inv by (auto simp: tariffs_inv_def)
  have tid: "tf_id ?t = i" using td by (simp add: set_fields_def)
  have ok: "tariff_ok zones ?t"
    using set_fields_ok [OF _ tariff_fields_ok [OF e(2)], of t canon] inv td by (auto simp: tariffs_inv_def list_all_iff tariff_ok_def)
  have can: "tf_canonical q \<noteq> tf_canonical ?t" if "q \<in> set (tariffs d)" "tf_id q \<noteq> i" for q
  proof (cases "fi_titles f")
    case None
    then have "tf_canonical ?t = tf_canonical t" by (simp add: set_fields_def)
    with that td distinct_keyD [OF ids(2) that(1) td(1)] show ?thesis by auto
  next
    case (Some x)
    with ex that show ?thesis by (auto simp: ed)
  qed
  have "map tf_id (update_where (\<lambda>q. tf_id q = i) (\<lambda>_. ?t) (tariffs d)) = map tf_id (tariffs d)"
    by (rule map_update_where) (simp add: tid)
  moreover from this have "tf_id ` set (update_where (\<lambda>q. tf_id q = i) (\<lambda>_. ?t) (tariffs d)) = tf_id ` set (tariffs d)"
    by (metis set_map)
  moreover have "distinct (map tf_canonical (update_where (\<lambda>q. tf_id q = i) (\<lambda>_. ?t) (tariffs d)))"
    using distinct_replace [OF ids, of i ?t] can by blast
  moreover have "list_all (tariff_ok zones) (update_where (\<lambda>q. tf_id q = i) (\<lambda>_. ?t) (tariffs d))"
    using inv ok by (auto simp: list_all_iff tariffs_inv_def elim!: in_update_whereE)
  ultimately show ?thesis using inv by (simp add: tariffs_inv_def d' ed)
qed

lemma delete_inv:
  assumes "tariffs_inv zones d" and "tariffs_delete actor i revision d = Inr d'"
  shows "tariffs_inv zones d'"
proof -
  from assms(2) obtain e where e: "admit False d = Inr e" "\<not> (\<exists>a \<in> set (profile_tariffs e). pt_tariff a = i)"
    "d' = e\<lparr>tariffs := filter (\<lambda>t. tf_id t \<noteq> i) (tariffs e)\<rparr>"
    by (auto simp: tariffs_delete_def res_bind_Inr_iff split: option.splits)
  have ed: "e = d\<lparr>account_guard := account_guard d + 1\<rparr>" by (rule admit_Inr [OF e(1)])
  have "pt_tariff a \<in> tf_id ` {t \<in> set (tariffs d). tf_id t \<noteq> i}" if "a \<in> set (profile_tariffs d)" for a
  proof -
    have "pt_tariff a \<noteq> i" "pt_tariff a \<in> tf_id ` set (tariffs d)" using that assms(1) e(2) by (auto simp: tariffs_inv_def ed)
    then show ?thesis by auto
  qed
  then show ?thesis using assms(1)
    by (auto simp: tariffs_inv_def e(3) ed distinct_map_filter list_all_iff)
qed

lemma link_inv:
  assumes "tariffs_inv zones d" and "t \<in> set (tariffs d)"
  shows "tariffs_inv zones (link_tariff p (tf_id t) now d)"
proof (cases "\<exists>a \<in> set (profile_tariffs d). pt_profile a = p")
  case True
  have "map pt_profile (update_where (\<lambda>a. pt_profile a = p) (\<lambda>a. a\<lparr>pt_tariff := tf_id t, pt_assigned_at := now\<rparr>) (profile_tariffs d))
      = map pt_profile (profile_tariffs d)" by (rule map_update_where) simp
  with True assms show ?thesis by (auto simp: tariffs_inv_def link_tariff_def elim!: in_update_whereE)
next
  case False
  with assms show ?thesis by (auto simp: tariffs_inv_def link_tariff_def)
qed

lemma assign_tariffD:
  assumes "assign_tariff p owner_admin current (PDict c) now d = Inr (d', expires, policy)"
  obtains (unlinked) "py_get ''tariff_id'' c = PNone" "expires = current" "policy = None"
      "d' = d\<lparr>profile_tariffs := filter (\<lambda>a. pt_profile a \<noteq> p) (profile_tariffs d)\<rparr>"
  | (linked) t mode apply_access where "t \<in> set (tariffs d)" "parse_expiry_mode (map_of c ''expiry'') = Some mode"
      "parse_flag (map_of c ''apply_access'') = Some apply_access" "find (\<lambda>q. tf_id q = tf_id t) (tariffs d) = Some t"
      "d' = link_tariff p (tf_id t) now d" "\<not> (owner_admin \<and> (mode \<noteq> Keep \<or> apply_access))"
      "new_expiry mode current (case tf_duration_days t of None \<Rightarrow> 0 | Some n \<Rightarrow> n) now = Inr expires"
      "\<not> (mode \<noteq> Keep \<and> tf_duration_days t = None)"
      "policy = (if apply_access then tf_access t else None)" "\<not> (apply_access \<and> tf_access t = None)"
proof -
  from assms obtain mode app where m: "parse_expiry_mode (map_of c ''expiry'') = Some mode"
    "parse_flag (map_of c ''apply_access'') = Some app"
    by (auto simp: assign_tariff_def split: option.splits)
  consider "py_get ''tariff_id'' c = PNone" | s where "py_get ''tariff_id'' c = PStr s"
    using assms by (auto simp: assign_tariff_def split: option.splits pyval.splits)
  then show ?thesis
  proof cases
    case 1
    then show ?thesis using assms m by (auto simp: assign_tariff_def intro: unlinked)
  next
    case (2 s)
    with assms m obtain i t where t: "find (\<lambda>t. tf_id t = i) (tariffs d) = Some t"
      and a: "assign_found p owner_admin current t mode app now d = Inr (d', expires, policy)"
      by (auto simp: assign_tariff_def split: option.splits)
    have "t \<in> set (tariffs d)" "tf_id t = i" using find_Some_iff [OF t] by auto
    with t a m show ?thesis by (auto simp: assign_found_def res_bind_Inr_iff intro!: linked)
  qed
qed

lemma assign_inv:
  assumes "tariffs_inv zones d" and "assign_tariff p owner_admin current (PDict c) now d = Inr (d', expires, policy)"
  shows "tariffs_inv zones d'"
  using assms(2)
proof (cases rule: assign_tariffD)
  case unlinked
  then show ?thesis using assms(1) by (auto simp: tariffs_inv_def distinct_map_filter)
next
  case (linked t mode apply_access)
  then show ?thesis using link_inv [OF assms(1)] by simp
qed

text \<open>The commands on tariffs, in any order; a new tariff's identifier is unused.\<close>

inductive tariff_step :: "(string \<Rightarrow> bool) \<Rightarrow> (string \<Rightarrow> string) \<Rightarrow> db \<Rightarrow> db \<Rightarrow> bool" for zones canon where
  create_step: "fresh_tariff d \<Longrightarrow> tariffs_create zones canon actor lang values d = Inr (d', v) \<Longrightarrow> tariff_step zones canon d d'"
| edit_step: "tariffs_edit zones canon actor lang i revision values d = Inr (d', v) \<Longrightarrow> tariff_step zones canon d d'"
| delete_step: "tariffs_delete actor i revision d = Inr d' \<Longrightarrow> tariff_step zones canon d d'"
| assign_step: "assign_tariff p owner_admin current (PDict c) now d = Inr (d', expires, policy) \<Longrightarrow> tariff_step zones canon d d'"

text \<open>C31. Whatever sequence of tariff commands is accepted, titles stay unique, every stored limit is one that
  the registry allows for a profile with a value its validator accepts, terms stay within ten years, and no
  profile is left on a tariff that does not exist.\<close>

theorem tariffs_inv_reachable:
  assumes "(tariff_step zones canon)\<^sup>*\<^sup>* d d'" and "tariffs_inv zones d"
  shows "tariffs_inv zones d'"
  using assms
proof (induction rule: rtranclp_induct)
  case (step e f)
  from step.hyps(2) step.IH [OF step.prems] show ?case
    by (cases rule: tariff_step.cases) (auto intro: create_inv edit_inv delete_inv assign_inv)
qed simp

text \<open>Assigning a tariff links the profile to it and no other profile; a term is only ever added: an
  extension ends the term after what remains, a start from now; a renewal never shortens the access; and an
  administrator's expiry is never touched.\<close>

theorem assign_tariff_effect:
  assumes inv: "tariffs_inv zones d" and a: "assign_tariff p owner_admin current (PDict c) now d = Inr (d', expires, policy)"
    and s: "py_get ''tariff_id'' c = PStr s"
  shows "(\<exists>t. profile_tariff d' p = Some t \<and> t \<in> set (tariffs d)
       \<and> (parse_expiry_mode (map_of c ''expiry'') = Some Keep \<and> expires = current
          \<or> (\<exists>n x. \<not> owner_admin \<and> tf_duration_days t = Some n \<and> expires = Some x \<and> now + day \<le> x
              \<and> (parse_expiry_mode (map_of c ''expiry'') = Some Start \<and> x = now + n * day
                 \<or> parse_expiry_mode (map_of c ''expiry'') = Some Extend
                   \<and> (case current of None \<Rightarrow> x = now + n * day | Some y \<Rightarrow> x = max now y + n * day)))))
     \<and> (\<forall>q. q = p \<or> profile_tariff d' q = profile_tariff d q)"
  using a
proof (cases rule: assign_tariffD)
  case unlinked
  with s show ?thesis by simp
next
  case (linked t mode apply_access)
  have tf: "tariffs d' = tariffs d" by (simp add: linked(5) link_tariff_def)
  have fp: "find (\<lambda>a. pt_profile a = q) (profile_tariffs d')
      = (if q = p then Some \<lparr>pt_profile = p, pt_tariff = tf_id t, pt_assigned_at = now\<rparr>
         else find (\<lambda>a. pt_profile a = q) (profile_tariffs d))" for q
  proof (cases "\<exists>a \<in> set (profile_tariffs d). pt_profile a = p")
    case True
    then obtain a where f: "find (\<lambda>a. pt_profile a = p) (profile_tariffs d) = Some a"
      by (cases "find (\<lambda>a. pt_profile a = p) (profile_tariffs d)") (auto simp: find_None_iff')
    have ap: "pt_profile a = p" using find_Some_iff [OF f] by simp
    have u: "find (\<lambda>a. pt_profile a = q) (profile_tariffs d')
        = map_option (\<lambda>a. if pt_profile a = p then a\<lparr>pt_tariff := tf_id t, pt_assigned_at := now\<rparr> else a)
            (find (\<lambda>a. pt_profile a = q) (profile_tariffs d))"
      using True by (simp add: linked(5) link_tariff_def find_update_where)
    show ?thesis
    proof (cases "q = p")
      case True
      then show ?thesis using u f ap by (cases a) simp
    next
      case False
      then show ?thesis unfolding u
        using find_Some_iff [of "\<lambda>a. pt_profile a = q" "profile_tariffs d"]
        by (cases "find (\<lambda>a. pt_profile a = q) (profile_tariffs d)") simp_all
    qed
  next
    case False
    then have "find (\<lambda>a. pt_profile a = p) (profile_tariffs d) = None" by (simp add: find_None_iff')
    with False show ?thesis by (simp add: linked(5) link_tariff_def find_append split: option.split)
  qed
  have pt: "profile_tariff d' p = Some t" by (simp add: profile_tariff_def fp tf linked(4))
  have other: "q \<noteq> p \<Longrightarrow> profile_tariff d' q = profile_tariff d q" for q unfolding profile_tariff_def fp tf by simp
  have dur: "tf_duration_days t = Some n \<Longrightarrow> 1 \<le> n" for n
    using inv linked(1) by (auto simp: tariffs_inv_def list_all_iff tariff_ok_def)
  have day: "0 < day" by (simp add: day_def minute_def second_def)
  have le: "now + day \<le> x + n * day" if "now \<le> x" "1 \<le> n" for x n
    using that day mult_right_mono [of 1 n day] by linarith
  show ?thesis
  proof (cases mode)
    case Keep
    then show ?thesis using linked pt other by (auto simp: new_expiry_def)
  next
    case Start
    then obtain n where n: "tf_duration_days t = Some n" using linked(8) by (cases "tf_duration_days t") auto
    have x: "expires = Some (now + n * day)"
      using linked(7) by (simp add: Start new_expiry_def n Let_def split: option.splits)
    have "\<not> owner_admin" "parse_expiry_mode (map_of c ''expiry'') = Some Start" using linked(2,6) Start by auto
    with linked(1) pt other n x le [of now n] dur [OF n] show ?thesis by blast
  next
    case Extend
    then obtain n where n: "tf_duration_days t = Some n" using linked(8) by (cases "tf_duration_days t") auto
    have x: "expires = Some ((case current of None \<Rightarrow> now | Some y \<Rightarrow> max now y) + n * day)"
      using linked(7) by (auto simp: Extend new_expiry_def n Let_def max_def split: option.splits if_splits)
    have "now + day \<le> (case current of None \<Rightarrow> now | Some y \<Rightarrow> max now y) + n * day"
      by (rule le) (use dur [OF n] in \<open>auto split: option.split\<close>)
    moreover have "case current of None \<Rightarrow> (case current of None \<Rightarrow> now | Some y \<Rightarrow> max now y) + n * day = now + n * day
        | Some y \<Rightarrow> (case current of None \<Rightarrow> now | Some y \<Rightarrow> max now y) + n * day = max now y + n * day"
      by (simp split: option.split)
    moreover have "\<not> owner_admin" "parse_expiry_mode (map_of c ''expiry'') = Some Extend" using linked(2,6) Extend by auto
    ultimately show ?thesis using linked(1) pt other n x by blast
  qed
qed

lemma tariff_layer_effective:
  assumes "profile_tariff d p = Some t" and "map_of (tf_policies t) k = Some v"
    and "\<forall>sc. own_value d (no_target\<lparr>tg_profile := Some p\<rparr>) ProfileSubject (Some p) k sc = None"
  shows "resolved_value d (no_target\<lparr>tg_profile := Some p\<rparr>) k = v"
  using assms by (simp add: resolved_value_layers layers_def no_target_def layer_value_def profile_values_def)

lemma tariffs_inv_policies_wf:
  assumes "tariffs_inv zones d" and "policy_inv zones d"
  shows "policies_wf d"
proof -
  have row: "r = q" if "r \<in> set (policies d)" "q \<in> set (policies d)" "row_address r = row_address q" for r q
    using assms(2) that unfolding policy_inv_def by (blast dest: distinct_keyD)
  have "r = q" if "r \<in> set (policies d)" "q \<in> set (policies d)" "vp_subject r = vp_subject q"
      "coalesce (vp_profile r) = coalesce (vp_profile q)" "coalesce (vp_device r) = coalesce (vp_device q)"
      "vp_key r = vp_key q" "vp_node r = vp_node q" "vp_protocol r = vp_protocol q" for r q
    using row [OF that(1,2)] that by (simp add: row_address_def)
  moreover have "vp_node r \<noteq> None" if "r \<in> set (policies d)" "vp_protocol r \<noteq> None" for r
    using assms(2) that by (auto simp: policy_inv_def list_all_iff row_valid_def split: option.splits)
  moreover have "distinct (map fst (tf_policies t))" if "t \<in> set (tariffs d)" for t
    using assms(1) that by (simp add: tariffs_inv_def list_all_iff tariff_ok_def)
  ultimately show ?thesis unfolding policies_wf_def by blast
qed

text \<open>Limits stay linked: for a profile that does not set a key itself, the effective value is the one its
  tariff holds at that moment, so that editing the tariff changes every profile on it.\<close>

theorem tariff_limits_linked:
  assumes inv: "tariffs_inv zones d" "policy_inv zones d" and t: "profile_tariff d p = Some t"
    and v: "map_of (tf_policies t) k = Some v"
    and own: "\<forall>r \<in> set (policies d). \<not> (of_subject ProfileSubject (Some p) r \<and> vp_key r = k)"
  shows "\<exists>values. effective d (no_target\<lparr>tg_profile := Some p\<rparr>) (Some [k]) = Inr values \<and> map_of values k = Some v"
proof -
  let ?tg = "no_target\<lparr>tg_profile := Some p\<rparr>"
  have mem: "(k, v) \<in> set (tf_policies t)" using v by (rule map_of_SomeD)
  have "t \<in> set (tariffs d)" using t by (auto simp: profile_tariff_def split: option.splits dest: find_Some_iff)
  then have reg: "registered k \<noteq> None"
    using inv(1) mem by (fastforce simp: tariffs_inv_def list_all_iff tariff_ok_def split: option.splits)
  have tg: "resolve_target d ?tg = Inr ?tg" by (simp add: resolve_target_def no_target_def)
  have e: "effective d ?tg (Some [k]) = Inr (projr (effective d ?tg (Some [k])))"
    by (rule is_ok_projr) (use reg in \<open>simp add: effective_def tg\<close>)
  have "own_value d ?tg ProfileSubject (Some p) k sc = None" for sc
    using own by (auto simp: own_value_def find_None_iff')
  with tariff_layer_effective [OF t v] effective_value [OF tariffs_inv_policies_wf [OF inv] tg e, of k] e
  show ?thesis by auto
qed

section \<open>Witnesses\<close>

definition sample_tariff_id :: string where
  "sample_tariff_id = ''00000000-0000-0000-0000-000000000001''"

definition tariff_db :: db where
  "tariff_db = grant_db\<lparr>tariffs := [(empty_tariff sample_tariff_id)\<lparr>tf_title := ''Basic'', tf_canonical := ''basic'',
     tf_duration_days := Some 30, tf_policies := [(''speed.up_kbit'', PInt 700)]\<rparr>]\<rparr>"

definition sample_assignment :: "(string \<times> pyval) list" where
  "sample_assignment = [(''tariff_id'', PStr sample_tariff_id), (''expiry'', PStr ''extend'')]"

definition assigned :: "(db \<times> instant option \<times> access_policy option) tx" where
  "assigned = assign_tariff ''p1'' False (Some (10 * day)) (PDict sample_assignment) (2 * day) tariff_db"

lemma tariff_db_inv: "tariffs_inv (\<lambda>z. False) tariff_db" by code_simp

lemma assigned_ok: "assigned = Inr (fst (projr assigned), Some (40 * day), None)"
proof -
  have "is_ok assigned" "snd (projr assigned) = (Some (40 * day), None)" by code_simp+
  then show ?thesis by (metis is_ok_projr prod.collapse)
qed

theorem tariffs_inv_reachable_witness: "tariffs_inv (\<lambda>z. False) (fst (projr assigned))"
proof -
  have "tariff_step (\<lambda>z. False) (\<lambda>s. s) tariff_db (fst (projr assigned))"
    using assigned_ok unfolding assigned_def by (rule assign_step)
  then show ?thesis using tariffs_inv_reachable [OF r_into_rtranclp tariff_db_inv] by blast
qed

theorem assign_tariff_effect_witness:
  "\<exists>t. profile_tariff (fst (projr assigned)) ''p1'' = Some t \<and> t \<in> set (tariffs tariff_db)"
  using assign_tariff_effect [OF tariff_db_inv assigned_ok [unfolded assigned_def], of sample_tariff_id]
  by (auto simp: sample_assignment_def py_get_def assigned_def)

theorem tariff_limits_linked_witness:
  "\<exists>values. effective (fst (projr assigned)) (no_target\<lparr>tg_profile := Some ''p1''\<rparr>) (Some [''speed.up_kbit'']) = Inr values
     \<and> map_of values ''speed.up_kbit'' = Some (PInt 700)"
proof (rule tariff_limits_linked)
  show "tariffs_inv (\<lambda>z. False) (fst (projr assigned))" by code_simp
  show "policy_inv (\<lambda>z. False) (fst (projr assigned))" by code_simp
  show "profile_tariff (fst (projr assigned)) ''p1'' = Some ((empty_tariff sample_tariff_id)\<lparr>tf_title := ''Basic'',
     tf_canonical := ''basic'', tf_duration_days := Some 30, tf_policies := [(''speed.up_kbit'', PInt 700)]\<rparr>)" by code_simp
  show "\<forall>r \<in> set (policies (fst (projr assigned))). \<not> (of_subject ProfileSubject (Some ''p1'') r \<and> vp_key r = ''speed.up_kbit'')"
    by code_simp
qed simp

end
