(* ===== verification/Operations.thy ===== *)
theory Operations
  imports Tariffs
begin

text \<open>
  The outbox and the peers it addresses: \<^verbatim>\<open>app/backend/operations.py\<close>, \<^verbatim>\<open>app/backend/device_credentials.py\<close>,
  \<^verbatim>\<open>app/backend/devices.py\<close> and \<open>reconcile\<close> of \<^verbatim>\<open>app/backend/grant_policies.py\<close>. Name-based identifiers
  (\<open>uuid5(NAMESPACE_URL, text)\<close>) are the argument \<open>u5\<close>, case folding of device names \<open>casefold\<close>.
\<close>

section \<open>Device credentials\<close>

text \<open>\<^verbatim>\<open>quotas.blocked\<close>.\<close>

definition quota_blocked :: "db \<Rightarrow> string \<Rightarrow> bool" where
  "quota_blocked d profile_id = (\<exists>q \<in> set (quota_periods d). qp_profile q = profile_id \<and> qp_closed_at q = None \<and> qp_blocked q)"

definition uuid_hex :: "string \<Rightarrow> string" where "uuid_hex u = remove_all ''-'' u"

definition xray_credential :: "db \<Rightarrow> string \<Rightarrow> device_credential_row option" where
  "xray_credential d device_id = find (\<lambda>c. dc_device c = device_id \<and> dc_protocol c = Xray) (device_credentials d)"

definition ensure_xray :: "device_row \<Rightarrow> db \<Rightarrow> db" where
  "ensure_xray v d = (case xray_credential d (dv_id v) of
     Some _ \<Rightarrow> d
   | None \<Rightarrow> (let (u, d1) = draw d in d1\<lparr>device_credentials := device_credentials d1 @
       [\<lparr>dc_device = dv_id v, dc_profile = dv_profile v, dc_protocol = Xray, dc_runtime_name = dv_runtime_name v,
         dc_uuid = u, dc_revision = 1\<rparr>]\<rparr>))"

definition rotate_xray :: "device_row \<Rightarrow> db \<Rightarrow> db" where
  "rotate_xray v d0 = (let d = ensure_xray v d0; (u, d1) = draw d in
     d1\<lparr>device_credentials := update_where (\<lambda>c. dc_device c = dv_id v \<and> dc_protocol c = Xray)
       (\<lambda>c. c\<lparr>dc_uuid := u, dc_revision := dc_revision c + 1\<rparr>) (device_credentials d1)\<rparr>)"

definition runtime_name_used :: "db \<Rightarrow> string \<Rightarrow> bool" where
  "runtime_name_used d name = (name \<in> pf_runtime_name ` set (profiles d) \<or> name \<in> dv_runtime_name ` set (devices d)
     \<or> name \<in> rp_runtime_name ` set (retired_peers d))"

text \<open>The loop of \<open>new_runtime_name\<close> draws until a name is free; it need not end.\<close>

partial_function (option) new_runtime_name :: "db \<Rightarrow> (string \<times> db) option" where
  [code]: "new_runtime_name d =
     (let (u, d1) = draw d; name = ''d_'' @ uuid_hex u in
      if runtime_name_used d1 name then new_runtime_name d1 else Some (name, d1))"

definition retired_slot :: "(string \<Rightarrow> string) \<Rightarrow> device_row \<Rightarrow> string" where
  "retired_slot u5 v = u5 (''node-plane:retired-peer:'' @ dv_id v @ '':'' @ dv_runtime_name v)"

definition rotate_awg :: "(string \<Rightarrow> string) \<Rightarrow> device_row \<Rightarrow> db \<Rightarrow> db option" where
  "rotate_awg u5 v d =
     (let d1 = d\<lparr>retired_peers := retired_peers d @ [\<lparr>rp_slot = retired_slot u5 v, rp_device = dv_id v,
          rp_profile = dv_profile v, rp_protocol = Awg, rp_runtime_name = dv_runtime_name v\<rparr>]\<rparr>
      in case new_runtime_name d1 of
        None \<Rightarrow> None
      | Some (name, d2) \<Rightarrow> Some (d2\<lparr>devices := update_where (\<lambda>q. dv_id q = dv_id v) (\<lambda>q. q\<lparr>dv_runtime_name := name\<rparr>) (devices d2)\<rparr>))"

text \<open>A peer on a node: a device, or an old AWG peer that waits for its revocation.\<close>

record peer =
  pe_id :: string
  pe_active :: bool
  pe_runtime_name :: string
  pe_uuid :: "string option"

definition retired_awg_peers :: "db \<Rightarrow> string \<Rightarrow> peer list" where
  "retired_awg_peers d profile_id =
     map (\<lambda>r. \<lparr>pe_id = rp_slot r, pe_active = False, pe_runtime_name = rp_runtime_name r, pe_uuid = None\<rparr>)
       (order_by rp_slot (filter (\<lambda>r. rp_profile r = profile_id \<and> rp_protocol r = Awg) (retired_peers d)))"

definition xray_peer :: "db \<Rightarrow> device_row \<Rightarrow> peer list" where
  "xray_peer d v = (case xray_credential d (dv_id v) of
     None \<Rightarrow> []
   | Some c \<Rightarrow> [\<lparr>pe_id = dv_id v, pe_active = (dv_status v = DevActive), pe_runtime_name = dc_runtime_name c,
                 pe_uuid = Some (dc_uuid c)\<rparr>])"

definition profile_devices :: "db \<Rightarrow> string \<Rightarrow> device_row list" where
  "profile_devices d profile_id = order_by dv_id (filter (\<lambda>v. dv_profile v = profile_id) (devices d))"

definition xray_peers :: "db \<Rightarrow> string \<Rightarrow> peer list" where
  "xray_peers d profile_id = concat (map (xray_peer d) (profile_devices d profile_id))"

definition awg_peers :: "db \<Rightarrow> string \<Rightarrow> peer list" where
  "awg_peers d profile_id =
     map (\<lambda>v. \<lparr>pe_id = dv_id v, pe_active = (dv_status v = DevActive), pe_runtime_name = dv_runtime_name v, pe_uuid = None\<rparr>)
       (profile_devices d profile_id) @ retired_awg_peers d profile_id"

section \<open>Operations\<close>

definition find_operation :: "db \<Rightarrow> string \<Rightarrow> operation_row option" where
  "find_operation d i = find (\<lambda>r. op_id r = i) (operations d)"

definition task_of_profile :: "db \<Rightarrow> string \<Rightarrow> task_row \<Rightarrow> bool" where
  "task_of_profile d profile_id t = (case find_operation d (tk_operation t) of None \<Rightarrow> False | Some r \<Rightarrow> op_profile r = profile_id)"

definition profile_targets :: "db \<Rightarrow> string \<Rightarrow> grant_target list" where
  "profile_targets d profile_id = profile_grants d profile_id
     @ map (\<lambda>t. (tk_node t, tk_protocol t)) (filter (task_of_profile d profile_id) (tasks d))"

definition find_profile :: "db \<Rightarrow> string \<Rightarrow> profile_row option" where
  "find_profile d profile_id = find (\<lambda>p. pf_id p = profile_id) (profiles d)"

text \<open>Whether the profile's peers are wanted at all.\<close>

definition profile_active :: "db \<Rightarrow> profile_row \<Rightarrow> instant \<Rightarrow> bool" where
  "profile_active d p now = (\<not> pf_frozen p \<and> (case pf_expires_at p of None \<Rightarrow> True | Some t \<Rightarrow> t > now)
     \<and> \<not> quota_blocked d (pf_id p))"

definition ensure_identity :: "string \<Rightarrow> db \<Rightarrow> db" where
  "ensure_identity profile_id d =
     (let (u, d1) = draw d; (short, d2) = draw d1 in
      if \<exists>i \<in> set (identities d2). pi_profile i = profile_id then d2
      else d2\<lparr>identities := identities d2 @ [\<lparr>pi_profile = profile_id, pi_xray_uuid = u, pi_xray_short_id = short\<rparr>]\<rparr>)"

definition ensure_clients :: "string \<Rightarrow> db \<Rightarrow> db" where
  "ensure_clients profile_id d =
     fold ensure_xray (filter (\<lambda>v. dv_profile v = profile_id \<and> dv_status v = DevActive) (devices d)) d"

definition actionable :: "db \<Rightarrow> string \<Rightarrow> grant_target \<Rightarrow> bool" where
  "actionable d profile_id g =
     ((case snd g of Awg \<Rightarrow> \<exists>v \<in> set (devices d). dv_profile v = profile_id | Xray \<Rightarrow> xray_peers d profile_id \<noteq> [])
      \<and> fst g \<notin> set (node_cleanup d) \<and> fst g \<notin> fst ` set (node_retirements d))"

definition peers_for :: "db \<Rightarrow> string \<Rightarrow> protocol \<Rightarrow> peer list" where
  "peers_for d profile_id p = (case p of Awg \<Rightarrow> awg_peers d profile_id | Xray \<Rightarrow> xray_peers d profile_id)"

definition target_action :: "db \<Rightarrow> bool \<Rightarrow> grant_target list \<Rightarrow> grant_target \<Rightarrow> task_action" where
  "target_action d active current g =
     (if active \<and> (case find_node d (fst g) of None \<Rightarrow> False | Some n \<Rightarrow> nd_enabled n) \<and> g \<in> set current then Ensure else Delete)"

definition make_task :: "string \<Rightarrow> profile_row \<Rightarrow> string \<Rightarrow> task_action \<Rightarrow> grant_target \<Rightarrow> peer \<Rightarrow> string \<Rightarrow> task_row" where
  "make_task operation_id p short_id action g pe task_id =
     (let act = (if pe_active pe then action else Delete) in
      \<lparr>tk_id = task_id, tk_operation = operation_id, tk_node = fst g, tk_protocol = snd g, tk_device = pe_id pe,
       tk_action = act, tk_status = Awaiting,
       tk_intent = \<lparr>in_profile = pf_id p, in_runtime_name = pe_runtime_name pe, in_desired_revision = pf_desired_revision p,
         in_node = fst g, in_protocol = snd g, in_action = act, in_expires_at = pf_expires_at p,
         in_xray = (if snd g = Xray \<and> act = Ensure then map_option (\<lambda>u. (u, short_id)) (pe_uuid pe) else None)\<rparr>\<rparr>)"

text \<open>The tasks of an operation, target by target and peer by peer.\<close>

definition task_specs :: "db \<Rightarrow> profile_row \<Rightarrow> bool \<Rightarrow> grant_target list \<Rightarrow> grant_target list \<Rightarrow> (task_action \<times> grant_target \<times> peer) list" where
  "task_specs d p active current targets =
     concat (map (\<lambda>g. map (\<lambda>pe. (target_action d active current g, g, pe)) (peers_for d (pf_id p) (snd g))) targets)"

definition insert_task :: "string \<Rightarrow> profile_row \<Rightarrow> string \<Rightarrow> task_action \<times> grant_target \<times> peer \<Rightarrow> db \<Rightarrow> db" where
  "insert_task operation_id p short_id s d =
     (let (task_id, d1) = draw d in
      d1\<lparr>tasks := tasks d1 @ [make_task operation_id p short_id (fst s) (fst (snd s)) (snd (snd s)) task_id]\<rparr>)"

definition record_operation ::
  "string \<Rightarrow> string \<Rightarrow> grant_target list \<Rightarrow> grant_target list option \<Rightarrow> instant \<Rightarrow> db \<Rightarrow> (db \<times> string \<times> op_status) tx" where
  "record_operation actor_id profile_id previous scoped now d =
     (case find_profile d profile_id of
        None \<Rightarrow> Inl TypeError
      | Some p \<Rightarrow>
          (let current = profile_grants d profile_id;
               all_targets = previous @ current;
               targets = (case scoped of None \<Rightarrow> all_targets | Some s \<Rightarrow> filter (\<lambda>g. g \<in> set s) all_targets);
               d1 = ensure_clients profile_id (ensure_identity profile_id d);
               short_id = (case find (\<lambda>i. pi_profile i = profile_id) (identities d1) of
                             None \<Rightarrow> [] | Some i \<Rightarrow> pi_xray_short_id i);
               (operation_id, d2) = draw d1;
               acts = filter (actionable d1 profile_id) (grant_list targets);
               status = (if acts \<noteq> [] then Awaiting else NoTargets);
               d3 = d2\<lparr>operations := operations d2 @ [\<lparr>op_id = operation_id, op_profile = profile_id, op_actor = actor_id,
                         op_desired_revision = pf_desired_revision p, op_status = status, op_created_at = now\<rparr>]\<rparr>
           in Inr (fold (insert_task operation_id p short_id) (task_specs d3 p (profile_active d p now) current acts) d3,
                   operation_id, status)))"

record operation_view =
  ov_operation :: operation_row
  ov_tasks :: "task_row list"

definition operation_get :: "actor \<Rightarrow> string \<Rightarrow> db \<Rightarrow> operation_view tx" where
  "operation_get actor operation_id d =
     res_bind (require_permission actor ''operations.read'') (\<lambda>_.
     (case find_operation d operation_id of
        None \<Rightarrow> Inl (AccessDenied ''resource_not_found'' 404)
      | Some r \<Rightarrow>
          guard (op_actor r = ac_id (actor_account actor) \<or> is_ok (require_permission actor ''profiles.manage''))
            (AccessDenied ''resource_not_found'' 404)
            (Inr \<lparr>ov_operation = r, ov_tasks = order_by (\<lambda>t. (tk_node t, protocol_name (tk_protocol t), tk_device t))
                   (filter (\<lambda>t. tk_operation t = operation_id) (tasks d))\<rparr>)))"

text \<open>\<open>ORDER BY desired_revision DESC, created_at DESC, id DESC LIMIT 1\<close>.\<close>

definition latest_operation :: "db \<Rightarrow> string \<Rightarrow> operation_row option" where
  "latest_operation d profile_id =
     (case order_by (\<lambda>r. (op_desired_revision r, op_created_at r, op_id r)) (filter (\<lambda>r. op_profile r = profile_id) (operations d)) of
        [] \<Rightarrow> None | rs \<Rightarrow> Some (last rs))"

definition latest_for_profile :: "actor \<Rightarrow> string \<Rightarrow> db \<Rightarrow> operation_view option tx" where
  "latest_for_profile actor profile_id d =
     res_bind (require_permission actor ''operations.read'') (\<lambda>_.
     (case latest_operation d profile_id of
        None \<Rightarrow> Inr None
      | Some r \<Rightarrow> res_bind (operation_get actor (op_id r) d) (\<lambda>v. Inr (Some v))))"

section \<open>Frames\<close>

lemma ensure_xray_frame [simp]:
  "tasks (ensure_xray v d) = tasks d" "operations (ensure_xray v d) = operations d" "devices (ensure_xray v d) = devices d"
  "nodes (ensure_xray v d) = nodes d" "retired_peers (ensure_xray v d) = retired_peers d" "grants (ensure_xray v d) = grants d"
  "node_cleanup (ensure_xray v d) = node_cleanup d" "node_retirements (ensure_xray v d) = node_retirements d"
  "profiles (ensure_xray v d) = profiles d" "quota_periods (ensure_xray v d) = quota_periods d" "rng (ensure_xray v d) = rng d"
  by (auto simp: ensure_xray_def draw_def split: option.split)

lemma fold_ensure_xray_frame [simp]:
  "tasks (fold ensure_xray vs d) = tasks d" "operations (fold ensure_xray vs d) = operations d" "devices (fold ensure_xray vs d) = devices d"
  "nodes (fold ensure_xray vs d) = nodes d" "retired_peers (fold ensure_xray vs d) = retired_peers d" "grants (fold ensure_xray vs d) = grants d"
  "node_cleanup (fold ensure_xray vs d) = node_cleanup d" "node_retirements (fold ensure_xray vs d) = node_retirements d"
  "profiles (fold ensure_xray vs d) = profiles d" "quota_periods (fold ensure_xray vs d) = quota_periods d" "rng (fold ensure_xray vs d) = rng d"
  by (induction vs arbitrary: d) simp_all

lemma ensure_identity_frame [simp]:
  "tasks (ensure_identity p d) = tasks d" "operations (ensure_identity p d) = operations d" "devices (ensure_identity p d) = devices d"
  "nodes (ensure_identity p d) = nodes d" "retired_peers (ensure_identity p d) = retired_peers d" "grants (ensure_identity p d) = grants d"
  "node_cleanup (ensure_identity p d) = node_cleanup d" "node_retirements (ensure_identity p d) = node_retirements d"
  "profiles (ensure_identity p d) = profiles d" "quota_periods (ensure_identity p d) = quota_periods d" "rng (ensure_identity p d) = rng d"
  "device_credentials (ensure_identity p d) = device_credentials d"
  by (auto simp: ensure_identity_def draw_def)

lemma ensure_clients_frame [simp]:
  "tasks (ensure_clients p d) = tasks d" "operations (ensure_clients p d) = operations d" "devices (ensure_clients p d) = devices d"
  "nodes (ensure_clients p d) = nodes d" "retired_peers (ensure_clients p d) = retired_peers d" "grants (ensure_clients p d) = grants d"
  "node_cleanup (ensure_clients p d) = node_cleanup d" "node_retirements (ensure_clients p d) = node_retirements d"
  "profiles (ensure_clients p d) = profiles d" "quota_periods (ensure_clients p d) = quota_periods d" "rng (ensure_clients p d) = rng d"
  by (simp_all add: ensure_clients_def)

section \<open>Clients and peers\<close>

definition has_client :: "db \<Rightarrow> string \<Rightarrow> bool" where
  "has_client d i = (xray_credential d i \<noteq> None)"

lemma ensure_xray_credential: "has_client (ensure_xray v d) i \<longleftrightarrow> has_client d i \<or> i = dv_id v"
proof (cases "xray_credential d (dv_id v)")
  case None
  then show ?thesis
    by (simp add: ensure_xray_def draw_def) (auto simp: has_client_def xray_credential_def find_append split: option.splits)
qed (auto simp: ensure_xray_def has_client_def)

lemma ensure_xray_keeps: "xray_credential d i = Some c \<Longrightarrow> xray_credential (ensure_xray v d) i = Some c"
  by (cases "xray_credential d (dv_id v)") (auto simp: ensure_xray_def draw_def xray_credential_def find_append)

lemma fold_ensure_xray_credential:
  "has_client (fold ensure_xray vs d) i \<longleftrightarrow> has_client d i \<or> i \<in> dv_id ` set vs"
  by (induction vs arbitrary: d) (auto simp: ensure_xray_credential)

lemma ensure_clients_credential:
  "has_client (ensure_clients p d) i \<longleftrightarrow> has_client d i \<or> (\<exists>v \<in> set (devices d). dv_profile v = p \<and> dv_status v = DevActive \<and> dv_id v = i)"
  unfolding ensure_clients_def fold_ensure_xray_credential by auto

text \<open>What a node may hold for a profile: the identifier of each peer, and whether it is wanted.\<close>

definition peer_set :: "db \<Rightarrow> string \<Rightarrow> protocol \<Rightarrow> (string \<times> bool) set" where
  "peer_set d profile_id q = (case q of
     Awg \<Rightarrow> {(dv_id v, dv_status v = DevActive) | v. v \<in> set (devices d) \<and> dv_profile v = profile_id}
          \<union> {(rp_slot r, False) | r. r \<in> set (retired_peers d) \<and> rp_profile r = profile_id \<and> rp_protocol r = Awg}
   | Xray \<Rightarrow> {(dv_id v, dv_status v = DevActive) | v. v \<in> set (devices d) \<and> dv_profile v = profile_id
          \<and> (dv_status v = DevActive \<or> has_client d (dv_id v))})"

abbreviation peer_key :: "peer \<Rightarrow> string \<times> bool" where
  "peer_key pe \<equiv> (pe_id pe, pe_active pe)"

lemma xray_peer_key:
  "peer_key ` set (xray_peer d v) = (if has_client d (dv_id v) then {(dv_id v, dv_status v = DevActive)} else {})"
  by (auto simp: xray_peer_def has_client_def split: option.splits)

lemma xray_peers_set:
  "peer_key ` set (xray_peers d p) = {(dv_id v, dv_status v = DevActive) | v. v \<in> set (devices d) \<and> dv_profile v = p \<and> has_client d (dv_id v)}"
proof -
  have "peer_key ` set (xray_peers d p) = (\<Union>v \<in> {v \<in> set (devices d). dv_profile v = p}. peer_key ` set (xray_peer d v))"
    by (simp add: xray_peers_def profile_devices_def image_UN)
  then show ?thesis by (auto simp: xray_peer_key split: if_splits)
qed

lemma awg_peers_set: "peer_key ` set (awg_peers d p) = peer_set d p Awg"
  by (auto simp: awg_peers_def peer_set_def profile_devices_def retired_awg_peers_def image_Un image_image)

lemma ensured_peers:
  assumes "distinct (map dv_id (devices d))"
  shows "peer_key ` set (peers_for (ensure_clients p (ensure_identity p d)) p q) = peer_set d p q"
proof (cases q)
  case Awg
  then show ?thesis by (simp add: peers_for_def awg_peers_set) (simp add: peer_set_def)
next
  case Xray
  have "has_client (ensure_identity p d) i = has_client d i" for i by (simp add: has_client_def xray_credential_def)
  moreover have "\<exists>w \<in> set (devices d). dv_profile w = p \<and> dv_status w = DevActive \<and> dv_id w = dv_id v \<Longrightarrow> v \<in> set (devices d)
      \<Longrightarrow> dv_status v = DevActive" for v
    using distinct_keyD [OF assms] by blast
  ultimately show ?thesis using Xray
    by (simp add: peers_for_def xray_peers_set peer_set_def ensure_clients_credential) blast
qed

section \<open>Tasks\<close>

lemma fold_insert_task:
  "\<exists>new. tasks (fold (insert_task oid p short) specs d) = tasks d @ new
     \<and> list_all2 (\<lambda>s t. \<exists>i. t = make_task oid p short (fst s) (fst (snd s)) (snd (snd s)) i) specs new"
proof (induction specs arbitrary: d)
  case (Cons s specs)
  have inserted: "tasks (insert_task oid p short s d) =
      tasks d @ [make_task oid p short (fst s) (fst (snd s)) (snd (snd s)) (rng d (drawn d))]"
    by (simp add: insert_task_def draw_def)
  obtain new where "tasks (fold (insert_task oid p short) specs (insert_task oid p short s d)) = tasks (insert_task oid p short s d) @ new"
    and "list_all2 (\<lambda>s t. \<exists>i. t = make_task oid p short (fst s) (fst (snd s)) (snd (snd s)) i) specs new"
    using Cons.IH by blast
  then show ?case
    by (intro exI [of _ "make_task oid p short (fst s) (fst (snd s)) (snd (snd s)) (rng d (drawn d)) # new"])
       (auto simp: inserted)
qed simp

abbreviation task_key :: "task_row \<Rightarrow> string \<times> protocol \<times> string \<times> task_action" where
  "task_key t \<equiv> (tk_node t, tk_protocol t, tk_device t, tk_action t)"

lemma make_task_simps [simp]:
  "tk_operation (make_task oid p short act g pe i) = oid" "tk_status (make_task oid p short act g pe i) = Awaiting"
  "tk_node (make_task oid p short act g pe i) = fst g" "tk_protocol (make_task oid p short act g pe i) = snd g"
  "tk_device (make_task oid p short act g pe i) = pe_id pe"
  "tk_action (make_task oid p short act g pe i) = (if pe_active pe then act else Delete)"
  "in_action (tk_intent (make_task oid p short act g pe i)) = tk_action (make_task oid p short act g pe i)"
  "in_expires_at (tk_intent (make_task oid p short act g pe i)) = pf_expires_at p"
  by (simp_all add: make_task_def Let_def)

lemma list_all2_image:
  "list_all2 R xs ys \<Longrightarrow> (\<And>x y. R x y \<Longrightarrow> f y = g x) \<Longrightarrow> f ` set ys = g ` set xs"
  by (induction rule: list_all2_induct) auto

lemma list_all2_allD: "list_all2 R xs ys \<Longrightarrow> (\<And>x y. R x y \<Longrightarrow> P y) \<Longrightarrow> \<forall>y \<in> set ys. P y"
  by (induction rule: list_all2_induct) auto

text \<open>A target that an operation addresses: some peer of it may exist, and its node has not been cleaned up or retired.\<close>

definition addressable :: "db \<Rightarrow> string \<Rightarrow> grant_target \<Rightarrow> bool" where
  "addressable d profile_id g = (fst g \<notin> set (node_cleanup d) \<and> fst g \<notin> fst ` set (node_retirements d)
     \<and> (snd g = Awg \<longrightarrow> (\<exists>v \<in> set (devices d). dv_profile v = profile_id)))"

definition access_wanted :: "db \<Rightarrow> profile_row \<Rightarrow> instant \<Rightarrow> grant_target \<Rightarrow> bool" where
  "access_wanted d p now g = (profile_active d p now \<and> g \<in> set (profile_grants d (pf_id p))
     \<and> (\<exists>n. find_node d (fst g) = Some n \<and> nd_enabled n))"

lemma target_action_wanted:
  "nodes d3 = nodes d \<Longrightarrow>
   target_action d3 (profile_active d p now) (profile_grants d (pf_id p)) g = (if access_wanted d p now g then Ensure else Delete)"
  by (auto simp: target_action_def access_wanted_def find_node_def split: option.splits)

lemma peer_set_awg_nonempty: "(\<exists>v \<in> set (devices d). dv_profile v = p) \<Longrightarrow> peer_set d p Awg \<noteq> {}"
  by (auto simp: peer_set_def)

lemma actionable_ensured:
  assumes "distinct (map dv_id (devices d))"
  shows "actionable (ensure_clients p (ensure_identity p d)) p g \<longleftrightarrow> addressable d p g \<and> peer_set d p (snd g) \<noteq> {}"
proof (cases "snd g")
  case Awg
  then show ?thesis using peer_set_awg_nonempty [of d p] by (auto simp: actionable_def addressable_def)
next
  case Xray
  have "xray_peers (ensure_clients p (ensure_identity p d)) p \<noteq> [] \<longleftrightarrow> peer_set d p Xray \<noteq> {}"
    using ensured_peers [OF assms, of p Xray] by (simp add: peers_for_def) (metis image_is_empty set_empty)
  with Xray show ?thesis by (simp add: actionable_def addressable_def) blast
qed

lemma task_specs_keys:
  "(\<lambda>s. (fst (fst (snd s)), snd (fst (snd s)), pe_id (snd (snd s)), if pe_active (snd (snd s)) then fst s else Delete))
     ` set (task_specs d p active current targets)
   = {(n, q, i, if a then target_action d active current (n, q) else Delete) | n q i a.
        (n, q) \<in> set targets \<and> (i, a) \<in> peer_key ` set (peers_for d (pf_id p) q)}"
proof -
  have "(\<lambda>s. (fst (fst (snd s)), snd (fst (snd s)), pe_id (snd (snd s)), if pe_active (snd (snd s)) then fst s else Delete))
     ` set (task_specs d p active current targets)
    = (\<Union>g \<in> set targets. (\<lambda>k. (fst g, snd g, fst k, if snd k then target_action d active current g else Delete))
        ` peer_key ` set (peers_for d (pf_id p) (snd g)))"
    by (simp add: task_specs_def image_UN image_image cong: if_cong)
  also have "\<dots> = {(n, q, i, if a then target_action d active current (n, q) else Delete) | n q i a.
      (n, q) \<in> set targets \<and> (i, a) \<in> peer_key ` set (peers_for d (pf_id p) q)}"
    by (rule set_eqI) (simp only: UN_iff image_iff mem_Collect_eq split_paired_Ex Bex_def fst_conv snd_conv, blast)
  finally show ?thesis .
qed

lemma peers_for_cong:
  "devices e = devices d \<Longrightarrow> device_credentials e = device_credentials d \<Longrightarrow> retired_peers e = retired_peers d \<Longrightarrow> peers_for e p q = peers_for d p q"
  by (cases q) (simp_all add: peers_for_def awg_peers_def retired_awg_peers_def profile_devices_def xray_peers_def
      xray_peer_def [abs_def] xray_credential_def)

text \<open>The state the tasks are added to: the clients are ensured and the operation is stored.\<close>

lemma record_operation_shape:
  assumes "record_operation actor_id profile_id previous scoped now d = Inr (e, oid, st)" and "find_profile d profile_id = Some p"
  shows "\<exists>short k row d3. d3 = (ensure_clients profile_id (ensure_identity profile_id d))\<lparr>drawn := k,
          operations := operations ((ensure_clients profile_id (ensure_identity profile_id d))\<lparr>drawn := k\<rparr>) @ [row]\<rparr>
     \<and> e = fold (insert_task oid p short)
       (task_specs d3 p (profile_active d p now) (profile_grants d profile_id)
          (filter (actionable (ensure_clients profile_id (ensure_identity profile_id d)) profile_id)
             (grant_list (case scoped of None \<Rightarrow> previous @ profile_grants d profile_id
                | Some s \<Rightarrow> filter (\<lambda>g. g \<in> set s) (previous @ profile_grants d profile_id))))) d3
     \<and> op_id row = oid \<and> op_profile row = profile_id \<and> op_actor row = actor_id \<and> op_desired_revision row = pf_desired_revision p
     \<and> op_status row = st"
  using assms unfolding record_operation_def Let_def draw_def
  apply (simp only: option.case sum.inject prod.inject prod.case)
  apply (elim conjE)
  apply (hypsubst)
  apply (intro exI conjI)
        prefer 2
        apply (rule refl)
       apply (rule refl)
      apply simp_all
  done

text \<open>An operation writes its own tables, the clients and the random stream, and nothing else.\<close>

definition outbox_only :: "db \<Rightarrow> db \<Rightarrow> bool" where
  "outbox_only d e = (\<exists>ts rs us cs n. e = d\<lparr>tasks := ts, operations := rs, identities := us, device_credentials := cs, drawn := n\<rparr>)"

lemma outbox_onlyI: "e = d\<lparr>tasks := ts, operations := rs, identities := us, device_credentials := cs, drawn := n\<rparr> \<Longrightarrow> outbox_only d e"
  unfolding outbox_only_def by blast

lemma outbox_only_refl: "outbox_only d d"
  by (rule outbox_onlyI [where ts = "tasks d" and rs = "operations d" and us = "identities d" and cs = "device_credentials d" and n = "drawn d"]) simp

lemma outbox_only_trans: "outbox_only a b \<Longrightarrow> outbox_only b c \<Longrightarrow> outbox_only a c"
  unfolding outbox_only_def by (elim exE, hypsubst, intro exI) simp

lemma outbox_only_fold: "(\<And>x s. outbox_only s (f x s)) \<Longrightarrow> outbox_only s (fold f xs s)"
  by (induction xs arbitrary: s) (auto intro: outbox_only_refl outbox_only_trans)

lemma ensure_xray_outbox: "outbox_only d (ensure_xray v d)"
proof (cases "xray_credential d (dv_id v)")
  case None
  then show ?thesis
    unfolding outbox_only_def ensure_xray_def draw_def by simp (intro exI, rule db.equality; simp)
qed (simp add: ensure_xray_def outbox_only_refl)

lemma ensure_identity_outbox: "outbox_only d (ensure_identity p d)"
  by (cases "\<exists>i \<in> set (identities d). pi_profile i = p")
     (simp_all add: ensure_identity_def draw_def outbox_only_def, (intro exI, rule db.equality; simp)+)

lemma insert_task_outbox: "outbox_only d (insert_task oid p short s d)"
  unfolding outbox_only_def insert_task_def draw_def by (intro exI, rule db.equality; simp)

lemma record_operation_outbox:
  assumes "record_operation actor_id profile_id previous scoped now d = Inr (e, x)"
  shows "outbox_only d e"
proof -
  obtain p where p: "find_profile d profile_id = Some p" using assms by (cases "find_profile d profile_id") (auto simp: record_operation_def)
  obtain oid st where x: "x = (oid, st)" by (cases x)
  let ?d1 = "ensure_clients profile_id (ensure_identity profile_id d)"
  obtain short ss k row d3 where d3: "d3 = ?d1\<lparr>drawn := k, operations := operations (?d1\<lparr>drawn := k\<rparr>) @ [row]\<rparr>" "e = fold (insert_task oid p short) ss d3"
    using record_operation_shape [OF assms [unfolded x] p] by blast
  have "outbox_only ?d1 d3" unfolding d3(1) outbox_only_def by (intro exI, rule db.equality; simp)
  moreover have "outbox_only d ?d1" unfolding ensure_clients_def
    by (rule outbox_only_trans [OF ensure_identity_outbox outbox_only_fold]) (rule ensure_xray_outbox)
  moreover have "outbox_only d3 e" unfolding d3(2) by (rule outbox_only_fold) (rule insert_task_outbox)
  ultimately show ?thesis by (blast intro: outbox_only_trans)
qed

text \<open>No two tasks of an operation are for the same peer on the same target.\<close>

lemma distinct_order_by: "distinct (map f (order_by k xs)) = distinct (map f xs)"
  by (simp add: order_by_def distinct_map)

lemma distinct_filter_map: "distinct (map f xs) \<Longrightarrow> distinct (map f (filter q xs))"
  by (induction xs) auto

lemma distinct_profile_devices: "distinct (map dv_id (devices d)) \<Longrightarrow> distinct (map dv_id (profile_devices d p))"
  unfolding profile_devices_def distinct_order_by by (rule distinct_filter_map)

lemma distinct_xray_peers:
  assumes "distinct (map dv_id (devices d))"
  shows "distinct (map pe_id (xray_peers d p))"
proof -
  have one: "map pe_id (xray_peer d v) = (if has_client d (dv_id v) then [dv_id v] else [])" for v
    by (simp add: xray_peer_def has_client_def split: option.split)
  have "map pe_id (concat (map (xray_peer d) vs)) = map dv_id (filter (\<lambda>v. has_client d (dv_id v)) vs)" for vs
    by (induction vs) (simp_all add: one)
  then show ?thesis using distinct_filter_map [OF distinct_profile_devices [OF assms]] by (simp add: xray_peers_def)
qed

lemma distinct_awg_peers:
  assumes "distinct (map dv_id (devices d) @ map rp_slot (retired_peers d))"
  shows "distinct (map pe_id (awg_peers d p))"
proof -
  have "set (map dv_id (profile_devices d p)) \<subseteq> dv_id ` set (devices d)" by (auto simp: profile_devices_def)
  moreover have "distinct (map rp_slot (filter (\<lambda>r. rp_profile r = p \<and> rp_protocol r = Awg) (retired_peers d)))"
    using assms by (intro distinct_filter_map) simp
  ultimately show ?thesis using assms distinct_profile_devices [of d p]
    by (auto simp: awg_peers_def retired_awg_peers_def comp_def distinct_order_by)
qed

lemma distinct_peers_for:
  "distinct (map dv_id (devices d) @ map rp_slot (retired_peers d)) \<Longrightarrow> distinct (map pe_id (peers_for d p q))"
  using distinct_awg_peers distinct_xray_peers by (cases q) (simp_all add: peers_for_def)

lemma distinct_task_specs:
  assumes "distinct targets" and "\<And>q. distinct (map pe_id (peers_for d (pf_id p) q))"
  shows "distinct (map (\<lambda>s. (fst (fst (snd s)), snd (fst (snd s)), pe_id (snd (snd s)))) (task_specs d p active current targets))"
  using assms(1)
proof (induction targets)
  case (Cons g gs)
  have "distinct (map (\<lambda>pe. (fst g, snd g, pe_id pe)) (peers_for d (pf_id p) (snd g)))"
    using assms(2) [of "snd g"] by (simp add: distinct_map inj_on_def)
  moreover have "(n, q, i) \<in> set (map (\<lambda>s. (fst (fst (snd s)), snd (fst (snd s)), pe_id (snd (snd s)))) (task_specs d p active current gs)) \<Longrightarrow> (n, q) \<in> set gs" for n q i
    by (auto simp: task_specs_def)
  ultimately show ?case using Cons by (fastforce simp: task_specs_def comp_def)
qed (simp add: task_specs_def)

lemma list_all2_map_eq: "list_all2 R xs ys \<Longrightarrow> (\<And>x y. R x y \<Longrightarrow> f y = g x) \<Longrightarrow> map f ys = map g xs"
  by (induction rule: list_all2_induct) auto

definition operation_targets :: "grant_target list \<Rightarrow> grant_target list option \<Rightarrow> db \<Rightarrow> string \<Rightarrow> grant_target set" where
  "operation_targets previous scoped d profile_id = {g \<in> set previous \<union> set (profile_grants d profile_id).
     (\<forall>s. scoped = Some s \<longrightarrow> g \<in> set s) \<and> addressable d profile_id g}"

text \<open>C5. An operation queues exactly one task for every peer on every target it addresses, and nothing else: a target that is
  named twice, among the earlier grants and the current ones, is addressed once. (The unique index
  \<open>backend_operation_task_target\<close> would refuse a second task.) A target is a current grant or an earlier one, restricted to
  the scope if there is one, on a node that is neither cleaned up nor retired. The task installs the peer exactly when the profile is active (not frozen, not expired, not suspended by its
  quota), the target is still granted on an enabled node and the device is active; every other peer is removed.\<close>

theorem record_operation_exact:
  assumes r: "record_operation actor_id profile_id previous scoped now d = Inr (e, oid, st)"
    and p: "find_profile d profile_id = Some p" and ids: "distinct (map dv_id (devices d) @ map rp_slot (retired_peers d))"
  shows "\<exists>new. tasks e = tasks d @ new \<and> (\<forall>t \<in> set new. tk_operation t = oid \<and> tk_status t = Awaiting)
    \<and> distinct (map (\<lambda>t. (tk_node t, tk_protocol t, tk_device t)) new)
    \<and> task_key ` set new = {(n, q, i, if a \<and> access_wanted d p now (n, q) then Ensure else Delete) | n q i a.
         (n, q) \<in> operation_targets previous scoped d profile_id \<and> (i, a) \<in> peer_set d profile_id q}"
proof -
  have u: "distinct (map dv_id (devices d))" using ids by simp
  have pid: "pf_id p = profile_id" using find_Some_iff [OF p [unfolded find_profile_def]] by simp
  define d1 where "d1 = ensure_clients profile_id (ensure_identity profile_id d)"
  define targets where "targets = (case scoped of None \<Rightarrow> previous @ profile_grants d profile_id
     | Some s \<Rightarrow> filter (\<lambda>g. g \<in> set s) (previous @ profile_grants d profile_id))"
  define acts where "acts = filter (actionable d1 profile_id) (grant_list targets)"
  obtain short d3 where e: "e = fold (insert_task oid p short)
        (task_specs d3 p (profile_active d p now) (profile_grants d profile_id) acts) d3"
    and d3: "nodes d3 = nodes d" "tasks d3 = tasks d" "\<And>q. peers_for d3 profile_id q = peers_for d1 profile_id q"
  proof -
    obtain short d3 where "e = fold (insert_task oid p short) (task_specs d3 p (profile_active d p now) (profile_grants d profile_id) acts) d3"
      and x: "nodes d3 = nodes d" "tasks d3 = tasks d" "devices d3 = devices d" "retired_peers d3 = retired_peers d"
        "device_credentials d3 = device_credentials d1"
    proof -
      obtain short k row d3 where d3: "d3 = d1\<lparr>drawn := k, operations := operations (d1\<lparr>drawn := k\<rparr>) @ [row]\<rparr>"
        and "e = fold (insert_task oid p short) (task_specs d3 p (profile_active d p now) (profile_grants d profile_id) acts) d3"
        using record_operation_shape [OF r p, folded d1_def targets_def, folded acts_def] by blast
      moreover have "nodes d3 = nodes d" "tasks d3 = tasks d" "devices d3 = devices d" "retired_peers d3 = retired_peers d"
        "device_credentials d3 = device_credentials d1" unfolding d3 by (simp_all, simp_all add: d1_def)
      ultimately show ?thesis using that by blast
    qed
    moreover have "peers_for d3 profile_id q = peers_for d1 profile_id q" for q
      by (rule peers_for_cong) (simp_all add: x, simp_all add: d1_def)
    ultimately show ?thesis using that by blast
  qed
  obtain new where new: "tasks e = tasks d3 @ new"
    and all2: "list_all2 (\<lambda>s t. \<exists>i. t = make_task oid p short (fst s) (fst (snd s)) (snd (snd s)) i)
        (task_specs d3 p (profile_active d p now) (profile_grants d profile_id) acts) new"
    unfolding e using fold_insert_task by blast
  have acts: "set acts = {g \<in> operation_targets previous scoped d profile_id. peer_set d profile_id (snd g) \<noteq> {}}"
    by (auto simp: acts_def d1_def actionable_ensured [OF u] operation_targets_def targets_def grant_list_def split: option.splits)
  have "task_key ` set new = {(n, q, i, if a then target_action d3 (profile_active d p now) (profile_grants d profile_id) (n, q) else Delete)
      | n q i a. (n, q) \<in> set acts \<and> (i, a) \<in> peer_key ` set (peers_for d3 (pf_id p) q)}"
    unfolding task_specs_keys [symmetric] by (rule list_all2_image [OF all2]) auto
  also have "\<dots> = {(n, q, i, if a \<and> access_wanted d p now (n, q) then Ensure else Delete) | n q i a.
      (n, q) \<in> operation_targets previous scoped d profile_id \<and> (i, a) \<in> peer_set d profile_id q}"
    unfolding pid d3 d1_def ensured_peers [OF u] acts target_action_wanted [OF d3(1), of p now, unfolded pid]
    by (intro Collect_cong ex_cong1) auto
  finally have keys: "task_key ` set new = \<dots>" .
  have "\<forall>t \<in> set new. tk_operation t = oid \<and> tk_status t = Awaiting"
    by (rule list_all2_allD [OF all2]) auto
  moreover have "map (\<lambda>t. (tk_node t, tk_protocol t, tk_device t)) new
      = map (\<lambda>s. (fst (fst (snd s)), snd (fst (snd s)), pe_id (snd (snd s))))
          (task_specs d3 p (profile_active d p now) (profile_grants d profile_id) acts)"
    by (rule list_all2_map_eq [OF all2]) auto
  moreover have "distinct acts" unfolding acts_def grant_list_def by (simp add: distinct_filter)
  moreover have "distinct (map pe_id (peers_for d3 (pf_id p) q))" for q
    unfolding pid d3(3) by (rule distinct_peers_for) (use ids in \<open>simp add: d1_def\<close>)
  ultimately have "distinct (map (\<lambda>t. (tk_node t, tk_protocol t, tk_device t)) new)" "\<forall>t \<in> set new. tk_operation t = oid \<and> tk_status t = Awaiting"
    using distinct_task_specs [of acts d3 p] by simp_all
  with new keys d3(2) show ?thesis by auto
qed

section \<open>Names of new peers\<close>

definition peer_name :: "db \<Rightarrow> nat \<Rightarrow> string" where
  "peer_name d k = ''d_'' @ uuid_hex (rng d k)"

lemma new_runtime_name_step:
  "new_runtime_name d = (if runtime_name_used d (peer_name d (drawn d)) then new_runtime_name (d\<lparr>drawn := Suc (drawn d)\<rparr>)
     else Some (peer_name d (drawn d), d\<lparr>drawn := Suc (drawn d)\<rparr>))"
  by (subst new_runtime_name.simps) (simp add: draw_def peer_name_def runtime_name_used_def Let_def)

lemma new_runtime_name_finds:
  assumes "\<not> runtime_name_used d (peer_name d (drawn d + k))"
  shows "\<exists>m \<le> k. new_runtime_name d = Some (peer_name d (drawn d + m), d\<lparr>drawn := Suc (drawn d + m)\<rparr>)
     \<and> \<not> runtime_name_used d (peer_name d (drawn d + m))"
  using assms
proof (induction k arbitrary: d)
  case 0
  then show ?case by (simp add: new_runtime_name_step [of d])
next
  case (Suc k)
  let ?d = "d\<lparr>drawn := Suc (drawn d)\<rparr>"
  have same: "peer_name ?d = peer_name d" "runtime_name_used ?d = runtime_name_used d"
    by (auto simp: peer_name_def runtime_name_used_def)
  show ?case
  proof (cases "runtime_name_used d (peer_name d (drawn d))")
    case True
    with Suc.prems Suc.IH [of ?d] obtain m where "m \<le> k" "new_runtime_name d = Some (peer_name d (drawn d + Suc m), d\<lparr>drawn := Suc (drawn d + Suc m)\<rparr>)"
      "\<not> runtime_name_used d (peer_name d (drawn d + Suc m))"
      by (auto simp: same new_runtime_name_step [of d])
    then show ?thesis by (intro exI [of _ "Suc m"]) simp
  next
    case False
    then show ?thesis by (intro exI [of _ 0]) (simp add: new_runtime_name_step [of d])
  qed
qed

lemma runtime_names_finite: "finite {name. runtime_name_used d name}"
proof -
  have "{name. runtime_name_used d name} \<subseteq> pf_runtime_name ` set (profiles d) \<union> dv_runtime_name ` set (devices d) \<union> rp_runtime_name ` set (retired_peers d)"
    by (auto simp: runtime_name_used_def)
  then show ?thesis by (rule finite_subset) simp
qed

text \<open>C37. The search for an unused peer name ends whenever the random identifiers do not repeat, whatever names the
  tables hold; the name it returns is used by no profile, no device and no peer that waits for its revocation, and
  nothing but the random stream has moved.\<close>

theorem new_runtime_name_terminates:
  assumes "inj (\<lambda>k. uuid_hex (rng d k))"
  shows "\<exists>name n. new_runtime_name d = Some (name, d\<lparr>drawn := n\<rparr>) \<and> drawn d < n \<and> \<not> runtime_name_used d name"
proof -
  have "inj (\<lambda>k. peer_name d (drawn d + k))"
    using assms unfolding inj_def peer_name_def by (metis add_left_cancel append_eq_append_conv)
  then have "infinite (range (\<lambda>k. peer_name d (drawn d + k)))"
    using finite_imageD infinite_UNIV_nat by blast
  then have "\<not> range (\<lambda>k. peer_name d (drawn d + k)) \<subseteq> {name. runtime_name_used d name}"
    using runtime_names_finite finite_subset by blast
  then obtain k where "\<not> runtime_name_used d (peer_name d (drawn d + k))" by auto
  from new_runtime_name_finds [OF this] show ?thesis by (metis le_add1 le_imp_less_Suc)
qed

section \<open>Witnesses\<close>

definition operation_db :: db where
  "operation_db = grant_db\<lparr>
     devices := [\<lparr>dv_id = ''v1'', dv_profile = ''p1'', dv_display_name = ''Phone'', dv_runtime_name = ''d_1'', dv_status = DevActive,
        dv_revision = 1, dv_created_at = 0\<rparr>,
      \<lparr>dv_id = ''v2'', dv_profile = ''p1'', dv_display_name = ''Old'', dv_runtime_name = ''d_2'', dv_status = DevDeleting,
        dv_revision = 1, dv_created_at = 0\<rparr>],
     grants := [\<lparr>gr_profile = ''p1'', gr_node = ''n1'', gr_protocol = Awg\<rparr>], rng := (\<lambda>k. replicate k (CHR ''a''))\<rparr>"

definition recorded :: "(db \<times> string \<times> op_status) tx" where
  "recorded = record_operation ''a1'' ''p1'' [(''n1'', Xray)] None 5 operation_db"

lemma recorded_ok: "recorded = Inr (fst (projr recorded), ''aaa'', Awaiting)"
proof -
  have "is_ok recorded" "snd (projr recorded) = (''aaa'', Awaiting)" by code_simp+
  then show ?thesis by (metis is_ok_projr prod.collapse)
qed

lemma operation_db_profile: "find_profile operation_db ''p1'' = Some (hd (profiles operation_db))"
  by code_simp

theorem record_operation_exact_witness:
  "\<exists>new. tasks (fst (projr recorded)) = tasks operation_db @ new \<and> (''n1'', Awg, ''v1'', Ensure) \<in> task_key ` set new"
proof -
  have "distinct (map dv_id (devices operation_db) @ map rp_slot (retired_peers operation_db))" by code_simp
  from record_operation_exact [OF recorded_ok [unfolded recorded_def] operation_db_profile this]
  obtain new where new: "tasks (fst (projr recorded)) = tasks operation_db @ new"
    "task_key ` set new = {(n, q, i, if a \<and> access_wanted operation_db (hd (profiles operation_db)) 5 (n, q) then Ensure else Delete) | n q i a.
       (n, q) \<in> operation_targets [(''n1'', Xray)] None operation_db ''p1'' \<and> (i, a) \<in> peer_set operation_db ''p1'' q}"
    unfolding recorded_def by blast
  have "(''v1'', True) \<in> peer_set operation_db ''p1'' Awg"
    unfolding peer_set_def by (simp, rule exI [of _ "hd (devices operation_db)"]) (simp add: operation_db_def)
  moreover have "(''n1'', Awg) \<in> operation_targets [(''n1'', Xray)] None operation_db ''p1''"
    "access_wanted operation_db (hd (profiles operation_db)) 5 (''n1'', Awg)"
    by (auto simp: operation_targets_def addressable_def peer_set_def access_wanted_def profile_active_def quota_blocked_def find_node_def
        profile_grants_def operation_db_def grant_db_def policy_db_def empty_db_def)
  ultimately have "(''n1'', Awg, ''v1'', Ensure) \<in> task_key ` set new" unfolding new(2) by auto
  with new(1) show ?thesis by blast
qed

theorem new_runtime_name_terminates_witness:
  "\<exists>name n. new_runtime_name operation_db = Some (name, operation_db\<lparr>drawn := n\<rparr>) \<and> \<not> runtime_name_used operation_db name"
proof -
  have "remove_all ''-'' (replicate k (CHR ''a'')) = replicate k (CHR ''a'')" for k by (induction k) simp_all
  then have "inj (\<lambda>k. uuid_hex (rng operation_db k))"
    by (simp add: operation_db_def uuid_hex_def inj_on_def)
  from new_runtime_name_terminates [OF this] show ?thesis by blast
qed

end
