(* ===== verification/Profiles.thy ===== *)
theory Profiles
  imports Operations
begin

text \<open>
  \<^verbatim>\<open>app/backend/profiles.py\<close> and \<^verbatim>\<open>app/backend/service_profiles.py\<close>: an account's default profile, trusted provisioning,
  access to one profile, and the paged listings. Three things of the language's library are arguments: \<open>casefold\<close> is
  \<open>str.casefold\<close>, and a cursor is written by \<open>enc\<close> and read by \<open>dec\<close>, the base64 of a JSON object with a kind and the
  last key. The summaries and the lists of nodes are not modelled.
\<close>

section \<open>Service profiles\<close>

definition SERVICES :: "string list" where "SERVICES = [''vpn'']"

definition record_service :: "string \<Rightarrow> string \<Rightarrow> string \<Rightarrow> db \<Rightarrow> db tx" where
  "record_service profile_id account_id service d =
     guard (service \<in> set SERVICES) (ValueError ''unknown service'')
     (guard (profile_id \<notin> fst ` set (service_profiles d)) IntegrityError
       (Inr (d\<lparr>service_profiles := service_profiles d @ [(profile_id, account_id, service)]\<rparr>)))"

definition services :: "db \<Rightarrow> string \<Rightarrow> string list" where
  "services d account_id = sorted_list_of_set (set (map (\<lambda>s. snd (snd s))
     (filter (\<lambda>s. fst (snd s) = account_id \<and> fst s \<notin> set (profile_deletions d)) (service_profiles d))))"

text \<open>After a restore: a service profile for every owned VPN profile that has none.\<close>

definition rebuild_services :: "db \<Rightarrow> db" where
  "rebuild_services d = d\<lparr>service_profiles := service_profiles d
     @ concat (map (\<lambda>p. case pf_owner p of
          Some a \<Rightarrow> if pf_id p \<in> fst ` set (service_profiles d) then [] else [(pf_id p, a, ''vpn'')]
        | None \<Rightarrow> []) (order_by pf_id (profiles d)))\<rparr>"

section \<open>Profiles of accounts\<close>

text \<open>A row is inserted unless its id, its runtime name or its owner is taken.\<close>

definition insert_profile :: "profile_row \<Rightarrow> db \<Rightarrow> db tx" where
  "insert_profile p d =
     guard (pf_id p \<notin> pf_id ` set (profiles d) \<and> pf_runtime_name p \<notin> pf_runtime_name ` set (profiles d)
       \<and> (pf_owner p = None \<or> pf_owner p \<notin> pf_owner ` set (profiles d))) IntegrityError
       (Inr (d\<lparr>profiles := profiles d @ [p]\<rparr>))"

definition new_profile :: "string \<Rightarrow> string \<Rightarrow> string \<Rightarrow> string \<Rightarrow> instant option \<Rightarrow> instant \<Rightarrow> profile_row" where
  "new_profile i runtime_name name owner expires_at now = \<lparr>pf_id = i, pf_runtime_name = runtime_name, pf_display_name = name, pf_owner = Some owner,
     pf_frozen = False, pf_expires_at = expires_at, pf_created_at = Some now, pf_desired_revision = 1\<rparr>"

definition telegram_subject :: "db \<Rightarrow> string \<Rightarrow> string option" where
  "telegram_subject d account_id = map_option (\<lambda>i. fst (snd i)) (find (\<lambda>i. fst i = ''telegram'' \<and> snd (snd i) = account_id) (external_identities d))"

definition telegram_username :: "db \<Rightarrow> string \<Rightarrow> string option" where
  "telegram_username d account_id = (case telegram_subject d account_id of
     None \<Rightarrow> None | Some s \<Rightarrow> (case map_of (identity_usernames d) s of None \<Rightarrow> None | Some u \<Rightarrow> u))"

text \<open>\<open>x or y\<close> for an optional text, and a text in an f-string.\<close>

definition or_else :: "string option \<Rightarrow> string \<Rightarrow> string" where
  "or_else s t = (case s of None \<Rightarrow> t | Some u \<Rightarrow> if u = [] then t else u)"

definition shown_text :: "string option \<Rightarrow> string" where
  "shown_text s = (case s of None \<Rightarrow> ''None'' | Some t \<Rightarrow> t)"

definition profile_name_of :: "db \<Rightarrow> account_row \<Rightarrow> string" where
  "profile_name_of d a =
     (let subject = telegram_subject d (acc_id a);
          fallback = (if acc_role a = ''admin'' then ''Admin '' else ''User '') @ or_else subject (acc_id a)
      in or_else (telegram_username d (acc_id a)) (or_else (if or_else subject [] = [] then acc_display_name a else None) fallback))"

definition automatic_names :: "db \<Rightarrow> string \<Rightarrow> string list" where
  "automatic_names d account_id = (let s = shown_text (telegram_subject d account_id) in [''Admin '' @ s, ''User '' @ s])"

definition rename_profile :: "string \<Rightarrow> string \<Rightarrow> db \<Rightarrow> db" where
  "rename_profile profile_id name d = d\<lparr>profiles := update_where (\<lambda>p. pf_id p = profile_id) (\<lambda>p. p\<lparr>pf_display_name := name\<rparr>) (profiles d)\<rparr>"

definition first_profile :: "db \<Rightarrow> string \<Rightarrow> profile_row option" where
  "first_profile d account_id = (case order_by pf_id (filter (\<lambda>p. pf_owner p = Some account_id) (profiles d)) of [] \<Rightarrow> None | p # _ \<Rightarrow> Some p)"

definition ensure_account_profile :: "string \<Rightarrow> bool \<Rightarrow> instant \<Rightarrow> db \<Rightarrow> (db \<times> string option) tx" where
  "ensure_account_profile account_id create now d = (case find (\<lambda>a. acc_id a = account_id) (accounts d) of
     None \<Rightarrow> Inl (AccessDenied ''resource_not_found'' 404)
   | Some a \<Rightarrow>
       (let name = profile_name_of d a in
        case first_profile d account_id of
          Some p \<Rightarrow>
            Inr (if or_else (telegram_username d account_id) [] \<noteq> [] \<and> pf_display_name p \<in> set (automatic_names d account_id)
                 then rename_profile (pf_id p) name d else d, Some (pf_id p))
        | None \<Rightarrow>
            if \<not> create then Inr (d, None)
            else let (i, d1) = draw d in
              res_bind (insert_profile (new_profile i (''account_'' @ uuid_hex i) name account_id None now) d1) (\<lambda>d2.
              res_bind (record_service i account_id ''vpn'' d2) (\<lambda>d3. Inr (d3, Some i)))))"

definition has_vpn_profile :: "db \<Rightarrow> string \<Rightarrow> bool" where
  "has_vpn_profile d account_id = (''vpn'' \<in> set (services d account_id))"

definition runtime_name_char :: "char \<Rightarrow> bool" where
  "runtime_name_char c = (ascii_alpha c \<or> ascii_digit c \<or> c = CHR ''_'' \<or> c = CHR ''-'')"

definition new_account :: "string \<Rightarrow> account_row" where
  "new_account i = \<lparr>acc_id = i, acc_role = ''member'', acc_status = ''approved'', acc_revision = 1, acc_display_name = None\<rparr>"

definition insert_account :: "string \<Rightarrow> db \<Rightarrow> db tx" where
  "insert_account i d = guard (i \<notin> acc_id ` set (accounts d)) IntegrityError (Inr (d\<lparr>accounts := accounts d @ [new_account i]\<rparr>))"

definition create_profile :: "string \<Rightarrow> string \<Rightarrow> string option \<Rightarrow> instant \<Rightarrow> db \<Rightarrow> (db \<times> string) tx" where
  "create_profile runtime_name display_name owner now d0 =
     guard (runtime_name \<noteq> [] \<and> length runtime_name \<le> 64 \<and> list_all runtime_name_char runtime_name) (ValueError ''invalid runtime_name'')
     (guard (strip display_name \<noteq> [] \<and> length display_name \<le> 128) (ValueError ''invalid display_name'')
     (let (i, d1) = draw d0 in
      res_bind (admit False d1) (\<lambda>d.
      res_bind (case owner of
          Some a \<Rightarrow> guard (a \<in> acc_id ` set (accounts d)) (ValueError ''owner account does not exist'') (Inr (d, a))
        | None \<Rightarrow> (let (a, d2) = draw d in res_bind (insert_account a d2) (\<lambda>d3. Inr (d3, a)))) (\<lambda>(d4, a).
      res_bind (insert_profile (new_profile i runtime_name display_name a None now) d4) (\<lambda>d5.
      res_bind (record_service i a ''vpn'' d5) (\<lambda>d6. Inr (d6, i)))))))"

section \<open>Listings\<close>

record profile_view =
  vw_profile :: profile_row
  vw_deleting :: bool

definition is_deleting :: "db \<Rightarrow> string \<Rightarrow> bool" where
  "is_deleting d profile_id = (profile_id \<in> set (profile_deletions d))"

definition owned_profiles :: "db \<Rightarrow> string \<Rightarrow> string \<Rightarrow> nat \<Rightarrow> profile_view list" where
  "owned_profiles d account_id after limit = map (\<lambda>p. \<lparr>vw_profile = p, vw_deleting = False\<rparr>)
     (take limit (order_by pf_id (filter (\<lambda>p. pf_owner p = Some account_id \<and> after < pf_id p \<and> \<not> is_deleting d (pf_id p)) (profiles d))))"

text \<open>The profiles an administrator sees: those of accounts that may use them, and a deleted one while its removal is
  still under way.\<close>

definition removal_open :: "db \<Rightarrow> string \<Rightarrow> bool" where
  "removal_open d profile_id = (\<exists>q \<in> set (operations d). map_of (deletion_operations d) profile_id = Some (op_id q) \<and> op_status q \<notin> {NoTargets, Succeeded})"

definition visible :: "db \<Rightarrow> profile_row \<Rightarrow> bool" where
  "visible d p = ((case pf_owner p of None \<Rightarrow> True | Some a \<Rightarrow> (case find (\<lambda>r. acc_id r = a) (accounts d) of
       None \<Rightarrow> True | Some r \<Rightarrow> acc_status r \<in> {''approved'', ''disabled''}))
     \<and> (\<not> is_deleting d (pf_id p) \<or> removal_open d (pf_id p)))"

definition view_profile :: "db \<Rightarrow> profile_row \<Rightarrow> profile_view" where
  "view_profile d p = \<lparr>vw_profile = p, vw_deleting = is_deleting d (pf_id p)\<rparr>"

definition visible_after :: "db \<Rightarrow> string \<Rightarrow> nat \<Rightarrow> profile_row list" where
  "visible_after d after limit = take limit (order_by pf_id (filter (\<lambda>p. visible d p \<and> after < pf_id p) (profiles d)))"

definition all_profiles :: "db \<Rightarrow> string \<Rightarrow> nat \<Rightarrow> profile_view list" where
  "all_profiles d after limit = map (view_profile d) (visible_after d after limit)"

fun contains :: "string \<Rightarrow> string \<Rightarrow> bool" where
  "contains t [] = (t = [])"
| "contains t (c # s) = (starts_with t (c # s) \<or> contains t s)"

definition matches :: "(string \<Rightarrow> string) \<Rightarrow> string \<Rightarrow> profile_row \<Rightarrow> bool" where
  "matches casefold wanted p = (contains wanted (casefold (pf_display_name p)) \<or> contains wanted (casefold (pf_id p)))"

lemma rows_left_shrink:
  assumes "visible_after d current n \<noteq> []"
  shows "length (filter (\<lambda>p. visible d p \<and> pf_id (last (visible_after d current n)) < pf_id p) (profiles d))
    < length (filter (\<lambda>p. visible d p \<and> current < pf_id p) (profiles d))"
proof -
  define l where "l = last (visible_after d current n)"
  have "l \<in> set (visible_after d current n)" using assms by (simp add: l_def)
  then have l: "l \<in> set (profiles d)" "visible d l" "current < pf_id l" by (auto simp: visible_after_def dest: in_set_takeD)
  have le: "length (filter (\<lambda>p. visible d p \<and> pf_id l < pf_id p) ps) \<le> length (filter (\<lambda>p. visible d p \<and> current < pf_id p) ps)" for ps
    using l(3) by (induction ps) auto
  have "length (filter (\<lambda>p. visible d p \<and> pf_id l < pf_id p) ps) < length (filter (\<lambda>p. visible d p \<and> current < pf_id p) ps)"
    if "l \<in> set ps" for ps
    using that
  proof (induction ps)
    case (Cons p ps)
    then show ?case using l le [of ps] by (cases "p = l") auto
  qed simp
  with l(1) show ?thesis unfolding l_def by blast
qed

text \<open>The search reads batches of 200 rows until it has enough matches or the rows end. A round that goes on has read
  200 rows past the last id.\<close>

definition BATCH :: nat where "BATCH = 200"

function search_from :: "(string \<Rightarrow> string) \<Rightarrow> db \<Rightarrow> string \<Rightarrow> nat \<Rightarrow> string \<Rightarrow> profile_view list \<Rightarrow> profile_view list" where
  "search_from casefold d wanted limit current found =
     (if limit \<le> length found then found
      else let rows = visible_after d current BATCH;
               found' = found @ map (view_profile d) (take (limit - length found) (filter (matches casefold wanted) rows))
           in if rows = [] \<or> length rows < BATCH \<or> limit \<le> length found' then found'
              else search_from casefold d wanted limit (pf_id (last rows)) found')"
  by pat_completeness auto
termination
  by (relation "measure (\<lambda>(casefold, d, wanted, limit, current, found). length (filter (\<lambda>p. visible d p \<and> current < pf_id p) (profiles d)))")
    (simp_all add: rows_left_shrink)

declare search_from.simps [simp del]

definition search_profiles :: "(string \<Rightarrow> string) \<Rightarrow> db \<Rightarrow> string \<Rightarrow> string \<Rightarrow> nat \<Rightarrow> profile_view list" where
  "search_profiles casefold d wanted after limit = search_from casefold d wanted limit after []"

section \<open>Pages\<close>

definition page :: "(string \<times> string \<Rightarrow> string) \<Rightarrow> string \<Rightarrow> ('a \<Rightarrow> string) \<Rightarrow> nat \<Rightarrow> 'a list \<Rightarrow> 'a list \<times> string option" where
  "page enc kind key limit xs =
     (if length xs > limit then (take limit xs, Some (enc (kind, key (last (take limit xs))))) else (xs, None))"

definition read_cursor :: "(string \<Rightarrow> (string \<times> string) option) \<Rightarrow> string \<Rightarrow> string option \<Rightarrow> string tx" where
  "read_cursor dec kind cursor = (case cursor of
     None \<Rightarrow> Inr []
   | Some v \<Rightarrow>
       if v = [] then Inr []
       else (case dec v of
           None \<Rightarrow> Inl (AccessDenied ''invalid_cursor'' 422)
         | Some (k, after) \<Rightarrow> guard (k = kind) (AccessDenied ''invalid_cursor'' 422) (Inr after)))"

definition page_input :: "(string \<Rightarrow> (string \<times> string) option) \<Rightarrow> pyval \<Rightarrow> string option \<Rightarrow> string \<Rightarrow> (nat \<times> string) tx" where
  "page_input dec limit cursor kind = (case limit of
     PInt n \<Rightarrow> guard (1 \<le> n \<and> n \<le> 100) invalid_input (res_bind (read_cursor dec kind cursor) (\<lambda>after. Inr (nat n, after)))
   | _ \<Rightarrow> Inl invalid_input)"

definition view_id :: "profile_view \<Rightarrow> string" where "view_id v = pf_id (vw_profile v)"

definition list_owned ::
  "(string \<times> string \<Rightarrow> string) \<Rightarrow> (string \<Rightarrow> (string \<times> string) option) \<Rightarrow> actor \<Rightarrow> pyval \<Rightarrow> db \<Rightarrow> string option \<Rightarrow> (profile_view list \<times> string option) tx" where
  "list_owned enc dec actor limit d cursor =
     res_bind (require_permission actor ''profiles.self.read'') (\<lambda>_.
     res_bind (page_input dec limit cursor ''profiles'') (\<lambda>(n, after).
       Inr (page enc ''profiles'' view_id n (owned_profiles d (ac_id (actor_account actor)) after (n + 1)))))"

text \<open>The search term: \<open>None\<close> lists every profile.\<close>

definition search_term :: "(string \<Rightarrow> string) \<Rightarrow> pyval \<Rightarrow> string option tx" where
  "search_term casefold search = (case search of
     PNone \<Rightarrow> Inr None
   | PStr s \<Rightarrow> guard (1 \<le> length (strip s) \<and> length (strip s) \<le> 128) invalid_input (Inr (Some (casefold (strip s))))
   | _ \<Rightarrow> Inl invalid_input)"

definition list_all_profiles ::
  "(string \<Rightarrow> string) \<Rightarrow> (string \<times> string \<Rightarrow> string) \<Rightarrow> (string \<Rightarrow> (string \<times> string) option) \<Rightarrow> actor \<Rightarrow> pyval \<Rightarrow> pyval \<Rightarrow> db
   \<Rightarrow> string option \<Rightarrow> (profile_view list \<times> string option) tx" where
  "list_all_profiles casefold enc dec actor limit search d cursor =
     res_bind (require_permission actor ''profiles.manage'') (\<lambda>_.
     res_bind (search_term casefold search) (\<lambda>found.
       (case found of
          Some wanted \<Rightarrow>
            if wanted \<noteq> [] then
              res_bind (page_input dec limit cursor (''admin_profiles_search:'' @ wanted)) (\<lambda>(n, after).
                Inr (page enc (''admin_profiles_search:'' @ wanted) view_id n (search_profiles casefold d wanted after (n + 1))))
            else res_bind (page_input dec limit cursor ''admin_profiles'') (\<lambda>(n, after). Inr (page enc ''admin_profiles'' view_id n (all_profiles d after (n + 1))))
        | None \<Rightarrow> res_bind (page_input dec limit cursor ''admin_profiles'') (\<lambda>(n, after). Inr (page enc ''admin_profiles'' view_id n (all_profiles d after (n + 1)))))))"

definition get_profile :: "actor \<Rightarrow> string \<Rightarrow> instant \<Rightarrow> db \<Rightarrow> profile_view tx" where
  "get_profile actor profile_id now d = (case find_profile d profile_id of
     None \<Rightarrow> Inl (AccessDenied ''resource_not_found'' 404)
   | Some p \<Rightarrow>
       (let own = (pf_owner p = Some (ac_id (actor_account actor))); admin = (ac_role (actor_account actor) = ''admin'') in
        guard (own \<or> admin) (AccessDenied ''resource_not_found'' 404)
        (guard (\<not> is_deleting d profile_id \<or> admin) (AccessDenied ''resource_not_found'' 404)
        (res_bind (require_profile actor \<lparr>rs_id = pf_id p, rs_owner = pf_owner p, rs_frozen = pf_frozen p, rs_expires_at = Never\<rparr> ''read'' (\<not> own) False now) (\<lambda>_.
          Inr (view_profile d p))))))"

section \<open>Every profile is on exactly one page\<close>

text \<open>A client that follows the cursors, at most \<open>n\<close> requests: \<open>None\<close> when the list has not ended by then.\<close>

fun follow :: "nat \<Rightarrow> (string option \<Rightarrow> ('a list \<times> string option) tx) \<Rightarrow> string option \<Rightarrow> 'a list tx option" where
  "follow 0 get cursor = None"
| "follow (Suc n) get cursor = (case get cursor of
     Inl e \<Rightarrow> Some (Inl e)
   | Inr (xs, None) \<Rightarrow> Some (Inr xs)
   | Inr (xs, Some c) \<Rightarrow> map_option (\<lambda>r. res_bind r (\<lambda>ys. Inr (xs @ ys))) (follow n get (Some c)))"

text \<open>What a listing promises: in a well-formed state it reads, in the order of the keys, what comes after a key.\<close>

locale listing =
  fixes ok :: "'s \<Rightarrow> bool" and everything :: "'s \<Rightarrow> 'a list" and key :: "'a \<Rightarrow> string" and fetch :: "'s \<Rightarrow> string \<Rightarrow> nat \<Rightarrow> 'a list"
  assumes fetch: "ok s \<Longrightarrow> fetch s after n = take n (filter (\<lambda>x. after < key x) (everything s))"
    and ordered: "ok s \<Longrightarrow> sorted_wrt (\<lambda>x y. key x < key y) (everything s)"
    and named: "ok s \<Longrightarrow> x \<in> set (everything s) \<Longrightarrow> key x \<noteq> []"
begin

definition rest :: "'s \<Rightarrow> string \<Rightarrow> 'a list" where "rest s after = filter (\<lambda>x. after < key x) (everything s)"

lemma rest_start: assumes "ok s" shows "rest s [] = everything s"
proof -
  have "[] < key x" if "x \<in> set (everything s)" for x using named [OF assms that] by (cases "key x") (auto simp: less_list_code)
  then show ?thesis by (simp add: rest_def filter_id_conv)
qed

lemma rest_after_last:
  assumes ok: "ok s" and n: "0 < n" "n \<le> length (rest s after)"
  shows "rest s (key (last (take n (rest s after)))) = drop n (rest s after)"
proof -
  let ?r = "rest s after" and ?l = "last (take n (rest s after))"
  have sorted: "sorted_wrt (\<lambda>x y. key x < key y) ?r" using ordered [OF ok] by (simp add: rest_def sorted_wrt_filter)
  have mem: "?l \<in> set (take n ?r)" using n by (intro last_in_set) auto
  then have "after < key ?l" by (auto simp: rest_def dest: in_set_takeD)
  then have "rest s (key ?l) = filter (\<lambda>x. key ?l < key x) ?r" by (auto simp: rest_def intro!: filter_cong)
  also have "\<dots> = filter (\<lambda>x. key ?l < key x) (take n ?r) @ filter (\<lambda>x. key ?l < key x) (drop n ?r)"
    by (metis append_take_drop_id filter_append)
  also have "filter (\<lambda>x. key ?l < key x) (drop n ?r) = drop n ?r"
    using sorted mem by (subst filter_id_conv) (metis append_take_drop_id sorted_wrt_append)
  also have "filter (\<lambda>x. key ?l < key x) (take n ?r) = []"
  proof -
    have "\<not> key ?l < key x" if x: "x \<in> set (take n ?r)" for x
    proof -
      have "sorted_wrt (\<lambda>x y. key x < key y) (take n ?r)" using sorted by (simp add: sorted_wrt_take)
      moreover have "take n ?r = butlast (take n ?r) @ [?l]" using n by (intro append_butlast_last_id [symmetric]) auto
      ultimately have "\<forall>y \<in> set (butlast (take n ?r)). key y < key ?l" by (metis list.set_intros(1) sorted_wrt_append)
      moreover have "x \<in> set (butlast (take n ?r)) \<or> x = ?l" using x \<open>take n ?r = butlast (take n ?r) @ [?l]\<close> by (metis UnE set_append set_ConsD empty_iff list.set(1))
      ultimately show ?thesis by (auto dest: order.strict_trans)
    qed
    then show ?thesis by (simp add: filter_empty_conv)
  qed
  finally show ?thesis by simp
qed

lemma follow_rest:
  assumes ok: "ok s" and get: "\<And>c after. read_cursor dec kind c = Inr after \<Longrightarrow> get c = Inr (page enc kind key limit (fetch s after (limit + 1)))"
    and codec: "\<And>k a. dec (enc (k, a)) = Some (k, a) \<and> enc (k, a) \<noteq> []" and limit: "0 < limit"
  shows "length (rest s after) \<le> m \<Longrightarrow> read_cursor dec kind c = Inr after \<Longrightarrow> follow (Suc m) get c = Some (Inr (rest s after))"
proof (induction m arbitrary: c after)
  case 0
  then show ?case by (simp add: get fetch [OF ok] page_def rest_def [symmetric])
next
  case (Suc m)
  have page: "get c = Inr (page enc kind key limit (take (limit + 1) (rest s after)))" using get [OF Suc.prems(2)] by (simp add: fetch [OF ok] rest_def)
  show ?case
  proof (cases "limit < length (rest s after)")
    case False
    then show ?thesis using page by (simp add: page_def)
  next
    case True
    let ?l = "key (last (take limit (rest s after)))"
    have next_rest: "rest s ?l = drop limit (rest s after)" using rest_after_last [OF ok limit less_imp_le [OF True]] .
    have "follow (Suc m) get (Some (enc (kind, ?l))) = Some (Inr (rest s ?l))"
      using Suc.prems(1) limit codec by (intro Suc.IH) (simp_all add: next_rest read_cursor_def)
    moreover have "get c = Inr (take limit (rest s after), Some (enc (kind, ?l)))" using page True by (simp add: page_def min_def)
    ultimately show ?thesis by (simp add: next_rest)
  qed
qed

lemma follow_everything:
  assumes "ok s" and "\<And>c after. read_cursor dec kind c = Inr after \<Longrightarrow> get c = Inr (page enc kind key limit (fetch s after (limit + 1)))"
    and "\<And>k a. dec (enc (k, a)) = Some (k, a) \<and> enc (k, a) \<noteq> []" and "0 < limit" and "length (everything s) \<le> m"
  shows "follow (Suc m) get None = Some (Inr (everything s))"
  using follow_rest [where after = "[]" and m = m and c = None, OF assms(1-4)] assms(5) by (simp add: rest_start [OF assms(1)] read_cursor_def)

end

text \<open>The ids are a key, and not empty.\<close>

definition profiles_wf :: "db \<Rightarrow> bool" where
  "profiles_wf d = (distinct (map pf_id (profiles d)) \<and> list_all (\<lambda>p. pf_id p \<noteq> []) (profiles d))"

definition owned_list :: "db \<times> string \<Rightarrow> profile_view list" where
  "owned_list s = map (\<lambda>p. \<lparr>vw_profile = p, vw_deleting = False\<rparr>)
     (order_by pf_id (filter (\<lambda>p. pf_owner p = Some (snd s) \<and> \<not> is_deleting (fst s) (pf_id p)) (profiles (fst s))))"

definition visible_list :: "db \<Rightarrow> profile_view list" where
  "visible_list d = map (view_profile d) (order_by pf_id (filter (visible d) (profiles d)))"

definition found_list :: "(string \<Rightarrow> string) \<Rightarrow> string \<Rightarrow> db \<Rightarrow> profile_view list" where
  "found_list casefold wanted d = map (view_profile d) (order_by pf_id (filter (\<lambda>p. visible d p \<and> matches casefold wanted p) (profiles d)))"

lemma filter_order_by: "filter P (order_by k xs) = order_by k (filter P xs)"
  by (simp add: order_by_def filter_sort)

lemma order_by_strict:
  assumes "distinct (map k xs)" shows "sorted_wrt (\<lambda>x y. k x < k y) (order_by k (xs :: 'a list))"
proof -
  have "sorted (map k (order_by k xs))" "distinct (map k (order_by k xs))"
    using assms by (simp_all add: order_by_def distinct_map)
  then have "sorted_wrt (<) (map k (order_by k xs))" by (simp add: strict_sorted_iff)
  then show ?thesis by (simp add: sorted_wrt_map)
qed

lemma ids_strict:
  assumes "profiles_wf d" shows "sorted_wrt (\<lambda>x y. pf_id x < pf_id y) (order_by pf_id (filter P (profiles d)))"
  using assms by (intro order_by_strict distinct_map_filter) (simp add: profiles_wf_def)

lemma ids_named: "profiles_wf d \<Longrightarrow> p \<in> set (profiles d) \<Longrightarrow> pf_id p \<noteq> []"
  by (simp add: profiles_wf_def list_all_iff)

interpretation owned: listing "\<lambda>s. profiles_wf (fst s)" owned_list view_id "\<lambda>s. owned_profiles (fst s) (snd s)"
proof unfold_locales
  fix s :: "db \<times> string" and after n
  show "owned_profiles (fst s) (snd s) after n = take n (filter (\<lambda>v. after < view_id v) (owned_list s))"
    by (simp add: owned_profiles_def owned_list_def view_id_def filter_map take_map o_def filter_order_by filter_filter conj_commute conj_left_commute)
  assume wf: "profiles_wf (fst s)"
  then show "sorted_wrt (\<lambda>x y. view_id x < view_id y) (owned_list s)" by (simp add: owned_list_def view_id_def sorted_wrt_map ids_strict)
  show "x \<in> set (owned_list s) \<Longrightarrow> view_id x \<noteq> []" for x using ids_named [OF wf] by (auto simp: owned_list_def view_id_def)
qed

interpretation admin: listing profiles_wf visible_list view_id all_profiles
proof unfold_locales
  fix d after n
  show "all_profiles d after n = take n (filter (\<lambda>v. after < view_id v) (visible_list d))"
    by (simp add: all_profiles_def visible_after_def visible_list_def view_id_def view_profile_def filter_map take_map o_def filter_order_by filter_filter)
  assume wf: "profiles_wf d"
  then show "sorted_wrt (\<lambda>x y. view_id x < view_id y) (visible_list d)" by (simp add: visible_list_def view_id_def view_profile_def sorted_wrt_map ids_strict)
  show "x \<in> set (visible_list d) \<Longrightarrow> view_id x \<noteq> []" for x using ids_named [OF wf] by (auto simp: visible_list_def view_id_def view_profile_def)
qed

interpretation row: listing profiles_wf "\<lambda>d. order_by pf_id (filter (visible d) (profiles d))" pf_id visible_after
proof unfold_locales
  fix d after n
  show "visible_after d after n = take n (filter (\<lambda>p. after < pf_id p) (order_by pf_id (filter (visible d) (profiles d))))"
    by (simp add: visible_after_def filter_order_by filter_filter)
  assume wf: "profiles_wf d"
  then show "sorted_wrt (\<lambda>x y. pf_id x < pf_id y) (order_by pf_id (filter (visible d) (profiles d)))" by (rule ids_strict)
  show "x \<in> set (order_by pf_id (filter (visible d) (profiles d))) \<Longrightarrow> pf_id x \<noteq> []" for x using ids_named [OF wf] by auto
qed

text \<open>The batches of the search read what one query would.\<close>

lemma take_filter_drop: "take k (filter P (take n xs)) @ take (k - length (filter P (take n xs))) (filter P (drop n xs)) = take k (filter P xs)"
  by (metis append_take_drop_id filter_append take_append)

lemma BATCH_pos: "0 < BATCH" by (simp add: BATCH_def)

lemma search_from_eq:
  assumes wf: "profiles_wf d"
  shows "length found \<le> limit \<Longrightarrow> search_from casefold d wanted limit current found
    = found @ map (view_profile d) (take (limit - length found) (filter (matches casefold wanted) (row.rest d current)))"
  using wf
proof (induction casefold d wanted limit current found rule: search_from.induct)
  case (1 casefold d wanted limit current found)
  let ?r = "row.rest d current" and ?m = "matches casefold wanted" and ?k = "limit - length found"
  let ?b = "take BATCH (row.rest d current)"
  let ?found = "found @ map (view_profile d) (take ?k (filter ?m ?b))"
  have rows: "visible_after d current BATCH = ?b" using row.fetch [OF 1(3)] by (simp add: row.rest_def)
  show ?case
  proof (cases "limit \<le> length found")
    case True
    then show ?thesis by (simp add: search_from.simps)
  next
    case False
    have step: "search_from casefold d wanted limit current found = (if ?b = [] \<or> length ?b < BATCH \<or> limit \<le> length ?found
        then ?found else search_from casefold d wanted limit (pf_id (last ?b)) ?found)"
      using False by (subst search_from.simps) (simp add: rows Let_def)
    show ?thesis
    proof (cases "?b = [] \<or> length ?b < BATCH \<or> limit \<le> length ?found")
      case True
      then have "length ?r < BATCH \<or> ?k \<le> length (filter ?m ?b)" using BATCH_pos by (auto simp: min_def split: if_splits)
      then have "take ?k (filter ?m ?b) = take ?k (filter ?m ?r)"
        using take_filter_drop [of ?k ?m BATCH ?r] by auto
      then show ?thesis unfolding step if_P [OF True] by (simp only:)
    next
      case more: False
      have "length ?found \<le> limit" using False by simp
      then have "search_from casefold d wanted limit (pf_id (last ?b)) ?found
          = ?found @ map (view_profile d) (take (limit - length ?found) (filter ?m (row.rest d (pf_id (last ?b)))))"
        by (rule 1(1) [OF False rows [symmetric] refl more _ 1(3)])
      moreover have "row.rest d (pf_id (last ?b)) = drop BATCH ?r"
        using more BATCH_pos by (intro row.rest_after_last [OF 1(3)]) (auto simp: not_less)
      moreover have "limit - length ?found = ?k - length (filter ?m ?b)" using more by simp
      ultimately have "search_from casefold d wanted limit (pf_id (last ?b)) ?found
          = found @ map (view_profile d) (take ?k (filter ?m ?b) @ take (?k - length (filter ?m ?b)) (filter ?m (drop BATCH ?r)))"
        by (simp only: map_append append_assoc)
      then show ?thesis unfolding step take_filter_drop using more by (simp only: if_False)
    qed
  qed
qed

lemma search_profiles_eq:
  assumes "profiles_wf d"
  shows "search_profiles casefold d wanted after limit = take limit (filter (\<lambda>v. after < view_id v) (found_list casefold wanted d))"
proof -
  have "filter (\<lambda>v. after < view_id v) (found_list casefold wanted d) = map (view_profile d) (filter (matches casefold wanted) (row.rest d after))"
    by (simp add: found_list_def row.rest_def filter_map o_def view_id_def view_profile_def filter_order_by)
      (simp add: filter_filter conj_commute conj_left_commute)
  then show ?thesis using search_from_eq [OF assms, of "[]" limit] by (simp add: search_profiles_def take_map)
qed

interpretation found: listing "\<lambda>s. profiles_wf (snd s)" "\<lambda>s. found_list (fst (fst s)) (snd (fst s)) (snd s)" view_id
  "\<lambda>s. search_profiles (fst (fst s)) (snd s) (snd (fst s))"
proof unfold_locales
  fix s :: "((string \<Rightarrow> string) \<times> string) \<times> db"
  assume wf: "profiles_wf (snd s)"
  show "search_profiles (fst (fst s)) (snd s) (snd (fst s)) after n = take n (filter (\<lambda>v. after < view_id v) (found_list (fst (fst s)) (snd (fst s)) (snd s)))" for after n
    using search_profiles_eq [OF wf] .
  show "sorted_wrt (\<lambda>x y. view_id x < view_id y) (found_list (fst (fst s)) (snd (fst s)) (snd s))"
    by (simp add: found_list_def view_id_def view_profile_def sorted_wrt_map ids_strict [OF wf])
  show "x \<in> set (found_list (fst (fst s)) (snd (fst s)) (snd s)) \<Longrightarrow> view_id x \<noteq> []" for x
    using ids_named [OF wf] by (auto simp: found_list_def view_id_def view_profile_def)
qed

text \<open>Following the cursors shows an account all its profiles, each once. However small the pages, a member who asks for
  page after page until there is no cursor gets exactly the profiles the account owns that are not being deleted, in the
  order of their ids; the walk ends after at most one request per profile and one more.\<close>

theorem list_owned_complete:
  assumes "profiles_wf d" and "require_permission actor ''profiles.self.read'' = Inr ()" and "1 \<le> n" and "n \<le> 100"
    and "\<forall>k a. dec (enc (k, a)) = Some (k, a) \<and> enc (k, a) \<noteq> []"
  shows "follow (Suc (length (profiles d))) (list_owned enc dec actor (PInt n) d) None = Some (Inr (owned_list (d, ac_id (actor_account actor))))"
proof -
  have get: "list_owned enc dec actor (PInt n) d c = Inr (page enc ''profiles'' view_id (nat n) (owned_profiles d (ac_id (actor_account actor)) after (nat n + 1)))"
    if "read_cursor dec ''profiles'' c = Inr after" for c after
    using assms that by (simp add: list_owned_def page_input_def)
  have "length (owned_list (d, ac_id (actor_account actor))) \<le> length (profiles d)" by (simp add: owned_list_def order_by_def)
  with owned.follow_everything [where kind = "''profiles''" and limit = "nat n" and s = "(d, ac_id (actor_account actor))", unfolded fst_conv snd_conv,
      OF assms(1) get assms(5) [rule_format]] assms(3)
  show ?thesis by simp
qed

text \<open>C15. An administrator's search misses nothing. Following the cursors of the list of all profiles gives exactly the visible
  profiles; with a search term exactly those of them whose name or id contains it, although each page was found in
  batches of 200 rows. Every profile is on one page, in the order of the ids, and the walk ends.\<close>

theorem list_all_complete:
  assumes "profiles_wf d" and "require_permission actor ''profiles.manage'' = Inr ()" and "1 \<le> n" and "n \<le> 100"
    and "\<forall>k a. dec (enc (k, a)) = Some (k, a) \<and> enc (k, a) \<noteq> []" and "search_term casefold search = Inr wanted"
  shows "follow (Suc (length (profiles d))) (list_all_profiles casefold enc dec actor (PInt n) search d) None
    = Some (Inr (if or_else wanted [] = [] then visible_list d else found_list casefold (or_else wanted []) d))"
proof (cases "or_else wanted [] = []")
  case True
  then have get: "list_all_profiles casefold enc dec actor (PInt n) search d c = Inr (page enc ''admin_profiles'' view_id (nat n) (all_profiles d after (nat n + 1)))"
    if "read_cursor dec ''admin_profiles'' c = Inr after" for c after
    using assms that by (auto simp: list_all_profiles_def page_input_def or_else_def split: option.splits if_splits)
  have "length (visible_list d) \<le> length (profiles d)" by (simp add: visible_list_def order_by_def)
  with admin.follow_everything [where kind = "''admin_profiles''" and limit = "nat n", OF assms(1) get assms(5) [rule_format]] assms(3) True
  show ?thesis by simp
next
  case False
  then obtain t where t: "wanted = Some t" "t \<noteq> []" by (auto simp: or_else_def split: option.splits if_splits)
  then have get: "list_all_profiles casefold enc dec actor (PInt n) search d c
      = Inr (page enc (''admin_profiles_search:'' @ t) view_id (nat n) (search_profiles casefold d t after (nat n + 1)))"
    if "read_cursor dec (''admin_profiles_search:'' @ t) c = Inr after" for c after
    using assms that by (simp add: list_all_profiles_def page_input_def)
  have "length (found_list casefold t d) \<le> length (profiles d)" by (simp add: found_list_def order_by_def)
  with found.follow_everything [where kind = "''admin_profiles_search:'' @ t" and limit = "nat n" and s = "((casefold, t), d)", unfolded fst_conv snd_conv,
      OF assms(1) get assms(5) [rule_format]] assms(3) t show ?thesis by (simp add: or_else_def)
qed

section \<open>Witnesses\<close>

definition sample_enc :: "string \<times> string \<Rightarrow> string" where
  "sample_enc = (\<lambda>(k, a). replicate (length k) CHR ''x'' @ CHR ''.'' # k @ a)"

definition sample_dec :: "string \<Rightarrow> (string \<times> string) option" where
  "sample_dec s = (let n = length (takeWhile (\<lambda>c. c = CHR ''x'') s); r = drop (Suc n) s in Some (take n r, drop n r))"

lemma sample_codec: "\<forall>k a. sample_dec (sample_enc (k, a)) = Some (k, a) \<and> sample_enc (k, a) \<noteq> []"
proof (intro allI)
  fix k a :: string
  have "takeWhile (\<lambda>c. c = CHR ''x'') (replicate n CHR ''x'' @ CHR ''.'' # s) = replicate n CHR ''x''" for n s
    by (induction n) auto
  then show "sample_dec (sample_enc (k, a)) = Some (k, a) \<and> sample_enc (k, a) \<noteq> []" by (simp add: sample_enc_def sample_dec_def Let_def)
qed

definition manager :: actor where
  "manager = sample_owner\<lparr>actor_principal := (actor_principal sample_owner)\<lparr>pr_scopes := {''profiles.self.read'', ''profiles.manage'', ''grants.manage'',
     ''accounts.manage'', ''roles.manage''}\<rparr>\<rparr>"

definition listed_db :: db where
  "listed_db = operation_db\<lparr>profiles := [new_profile ''p2'' ''r2'' ''Bea'' ''u2'' None 0, new_profile ''p1'' ''r1'' ''Abe'' ''a'' None 0, new_profile ''p3'' ''r3'' ''Ann'' ''u3'' None 0]\<rparr>"

theorem list_owned_complete_witness:
  "follow 4 (list_owned sample_enc sample_dec manager (PInt 1) listed_db) None = Some (Inr (owned_list (listed_db, ac_id (actor_account manager))))"
proof -
  have "profiles_wf listed_db" "require_permission manager ''profiles.self.read'' = Inr ()" "Suc (length (profiles listed_db)) = 4" by code_simp+
  with list_owned_complete [OF this(1,2) _ _ sample_codec, of 1] show ?thesis by simp
qed

theorem list_all_complete_witness:
  "follow 4 (list_all_profiles lower sample_enc sample_dec manager (PInt 1) (PStr '' A '') listed_db) None
     = Some (Inr (map (view_profile listed_db) [new_profile ''p1'' ''r1'' ''Abe'' ''a'' None 0, new_profile ''p2'' ''r2'' ''Bea'' ''u2'' None 0, new_profile ''p3'' ''r3'' ''Ann'' ''u3'' None 0]))"
proof -
  have "profiles_wf listed_db" "require_permission manager ''profiles.manage'' = Inr ()" "search_term lower (PStr '' A '') = Inr (Some ''a'')"
    "Suc (length (profiles listed_db)) = 4" "or_else (Some ''a'') [] = ''a''"
    "found_list lower ''a'' listed_db = map (view_profile listed_db) [new_profile ''p1'' ''r1'' ''Abe'' ''a'' None 0, new_profile ''p2'' ''r2'' ''Bea'' ''u2'' None 0, new_profile ''p3'' ''r3'' ''Ann'' ''u3'' None 0]"
    by code_simp+
  with list_all_complete [OF this(1,2) _ _ sample_codec this(3), of 1] show ?thesis by simp
qed

end
