(* ===== verification/Account_Deletions.thy ===== *)
theory Account_Deletions
  imports Accounts Sessions Client_Keys Profiles
begin

text \<open>
  \<^verbatim>\<open>app/backend/account_deletions.py\<close>: deleting an account takes away every way to sign in at once, and lets its external
  identities go once all its profiles have been revoked on the nodes. The whole database is a pair: the services' tables
  and the sign-in tables. The accounts and their deletions are in both, and \<open>shared_accounts\<close> makes them agree.
\<close>

type_synonym site = "db \<times> auth_db"

section \<open>Operations\<close>

definition shared_accounts :: "db \<Rightarrow> auth_db \<Rightarrow> auth_db" where
  "shared_accounts d a = a\<lparr>au_accounts := accounts d, au_account_deletions := account_deletions d\<rparr>"

definition mark_deleted :: "string \<Rightarrow> db \<Rightarrow> db" where
  "mark_deleted account_id d = d\<lparr>account_deletions := (if account_id \<in> set (account_deletions d) then account_deletions d else account_deletions d @ [account_id]),
     accounts := update_where (\<lambda>r. acc_id r = account_id) (\<lambda>r. r\<lparr>acc_status := ''disabled'', acc_revision := acc_revision r + 1\<rparr>) (accounts d)\<rparr>"

definition revoke_credentials_of :: "string \<Rightarrow> instant \<Rightarrow> auth_db \<Rightarrow> auth_db" where
  "revoke_credentials_of account_id now a = a\<lparr>au_credentials := update_where (\<lambda>c. cr_account c = Some account_id \<and> cr_revoked_at c = None)
     (\<lambda>c. c\<lparr>cr_revoked_at := Some now\<rparr>) (au_credentials a)\<rparr>"

definition remove_secrets :: "string \<Rightarrow> auth_db \<Rightarrow> auth_db" where
  "remove_secrets account_id a = a\<lparr>au_passwords := filter (\<lambda>w. fst w \<noteq> account_id) (au_passwords a),
     au_passkeys := filter (\<lambda>w. fst w \<noteq> account_id) (au_passkeys a)\<rparr>"

definition begin_deletion :: "string \<Rightarrow> instant \<Rightarrow> site \<Rightarrow> site tx" where
  "begin_deletion account_id now s =
     guard (account_id \<in> acc_id ` set (accounts (fst s))) TypeError
     (let d = mark_deleted account_id (fst s);
          a1 = revoke_credentials_of account_id now (shared_accounts d (snd s));
          a2 = revoke_all account_id None now (release_login account_id now a1)
      in Inr (d, revoke_all_keys account_id now (remove_secrets account_id a2)))"

text \<open>A profile whose removal from the nodes is done.\<close>

definition profile_removed :: "db \<Rightarrow> profile_row \<Rightarrow> bool" where
  "profile_removed d p = (pf_id p \<in> set (profile_deletions d)
     \<and> (case map_of (deletion_operations d) (pf_id p) of
          None \<Rightarrow> False
        | Some i \<Rightarrow> (case find_operation d i of None \<Rightarrow> False | Some r \<Rightarrow> op_status r \<in> {Succeeded, NoTargets})))"

definition deletion_settled :: "db \<Rightarrow> string \<Rightarrow> bool" where
  "deletion_settled d account_id = (account_id \<notin> set (completed_deletions d)
     \<and> (\<forall>p \<in> set (profiles d). pf_owner p = Some account_id \<longrightarrow> profile_removed d p))"

definition complete_deletion :: "string \<Rightarrow> db \<Rightarrow> db" where
  "complete_deletion account_id d0 =
     (let d = bump_revision account_id d0
      in d\<lparr>external_identities := filter (\<lambda>e. snd (snd e) \<noteq> account_id) (external_identities d),
           channels := filter (\<lambda>c. cn_account c \<noteq> account_id) (channels d),
           identity_commands := map (\<lambda>a. if a = Some account_id then None else a) (identity_commands d),
           devices := update_where (\<lambda>v. \<exists>p \<in> set (profiles d). pf_id p = dv_profile v \<and> pf_owner p = Some account_id) (\<lambda>v. v\<lparr>dv_status := DevRetired\<rparr>) (devices d),
           completed_deletions := completed_deletions d @ [account_id],
           menu_refresh := (case find (\<lambda>r. acc_id r = account_id) (accounts d) of
              None \<Rightarrow> menu_refresh d | Some r \<Rightarrow> dict_set account_id (acc_revision r) (menu_refresh d))\<rparr>)"

definition settle_accounts :: "db \<Rightarrow> db" where
  "settle_accounts d = fold complete_deletion (order_by id (filter (deletion_settled d) (account_deletions d))) d"

section \<open>A deleted account is locked out\<close>

definition locked_out :: "string \<Rightarrow> auth_db \<Rightarrow> bool" where
  "locked_out i a = (i \<in> set (au_account_deletions a)
     \<and> (\<forall>c \<in> set (au_credentials a). cr_account c = Some i \<longrightarrow> cr_revoked_at c \<noteq> None)
     \<and> (\<forall>s \<in> set (au_sessions a). ss_account s = i \<longrightarrow> ss_revoked_at s \<noteq> None)
     \<and> (\<forall>k \<in> set (au_client_keys a). ck_account k = Some i \<longrightarrow> ck_revoked_at k \<noteq> None))"

text \<open>The ways in: a password, a refresh token, a signed request.\<close>

inductive entry_step :: "crypto \<Rightarrow> ed25519 \<Rightarrow> auth_db \<Rightarrow> auth_db \<Rightarrow> bool" for k ed where
  signed_in: "entry_step k ed a (fst (sign_in k l pw dev src now a))"
| refreshed: "entry_step k ed a (fst (refresh k v now a))"
| signed: "entry_step k ed a (fst (authenticate_signed ed h r now a))"

lemma revoke_session_tables [simp]:
  "au_account_deletions (revoke_session i now a) = au_account_deletions a" "au_client_keys (revoke_session i now a) = au_client_keys a"
  "au_accounts (revoke_session i now a) = au_accounts a"
  by (simp_all add: revoke_session_def)

lemma revoke_all_tables [simp]:
  "au_account_deletions (revoke_all i keep now a) = au_account_deletions a" "au_client_keys (revoke_all i keep now a) = au_client_keys a"
  "au_accounts (revoke_all i keep now a) = au_accounts a"
proof -
  have "au_account_deletions (fold (\<lambda>i. if Some i \<noteq> keep then revoke_session i now else id) is a) = au_account_deletions a
    \<and> au_client_keys (fold (\<lambda>i. if Some i \<noteq> keep then revoke_session i now else id) is a) = au_client_keys a
    \<and> au_accounts (fold (\<lambda>i. if Some i \<noteq> keep then revoke_session i now else id) is a) = au_accounts a" for "is"
    by (induction "is" arbitrary: a) auto
  then show "au_account_deletions (revoke_all i keep now a) = au_account_deletions a" "au_client_keys (revoke_all i keep now a) = au_client_keys a"
    "au_accounts (revoke_all i keep now a) = au_accounts a" unfolding revoke_all_def by blast+
qed

lemma begin_deletion_locks:
  assumes "begin_deletion i now s = Inr (d, a)"
  shows "locked_out i a"
proof -
  let ?a1 = "release_login i now (revoke_credentials_of i now (shared_accounts (mark_deleted i (fst s)) (snd s)))"
  have a: "a = revoke_all_keys i now (remove_secrets i (revoke_all i None now ?a1))"
    using assms by (auto simp: begin_deletion_def Let_def)
  have "\<forall>c \<in> set (au_credentials ?a1). cr_account c = Some i \<longrightarrow> cr_revoked_at c \<noteq> None"
    by (auto simp: release_login_def revoke_credentials_of_def elim!: in_update_whereE)
  then have "\<forall>c \<in> set (au_credentials (revoke_all i None now ?a1)). cr_account c = Some i \<longrightarrow> cr_revoked_at c \<noteq> None"
    unfolding revoke_all_def fold_revoke_credentials by (auto elim!: in_update_whereE)
  moreover have "\<forall>c \<in> set (au_sessions (revoke_all i None now ?a1)). ss_account c = i \<longrightarrow> ss_revoked_at c \<noteq> None"
    unfolding revoke_all_def fold_revoke_sessions by (auto simp: open_sessions_def elim!: in_update_whereE)
  ultimately show ?thesis
    by (auto simp: a locked_out_def revoke_all_keys_def revoke_where_def remove_secrets_def release_login_def revoke_credentials_of_def shared_accounts_def mark_deleted_def
        elim!: in_update_whereE)
qed

lemma sign_in_locked:
  assumes "locked_out i a" shows "locked_out i (fst (sign_in k l pw dev src now a))"
proof (cases "snd (sign_in k l pw dev src now a)")
  case (Inl e)
  then show ?thesis using assms
    by (auto simp: sign_in_def Let_def locked_out_def failed_def case_prod_unfold split: sum.splits option.splits if_splits)
next
  case (Inr tk)
  then obtain b where s: "sign_in k l pw dev src now a = (b, Inr tk)" by (metis prod.collapse)
  from s obtain j stored where p: "password_of_login a (sign_in_key l) = Some (j, stored)" by (rule sign_inD)
  then have "j \<noteq> i" using assms by (auto simp: password_of_login_def active_account_def locked_out_def split: if_splits option.splits)
  then show ?thesis using assms p
    by (auto simp: sign_in_def Let_def locked_out_def failed_def rehash_def open_session_eq access_row_def case_prod_unfold split: sum.splits if_splits)
qed

lemma refresh_locked:
  assumes "locked_out i a" shows "locked_out i (fst (refresh k v now a))"
proof (cases "snd (refresh k v now a)")
  case (Inl e)
  have "locked_out i (revoke_session j now a)" for j using assms by (auto simp: locked_out_def revoke_session_def elim!: in_update_whereE)
  with Inl assms show ?thesis by (auto simp: refresh_def Let_def case_prod_unfold split: pyval.splits option.splits if_splits)
next
  case (Inr tk)
  then obtain b where r: "refresh k v now a = (b, Inr tk)" by (metis prod.collapse)
  then obtain token where "v = PStr token" by (cases v) (auto simp: refresh_def)
  with r obtain j row where row: "find (\<lambda>r. ss_id r = j) (au_sessions a) = Some row" "ss_revoked_at row = None" "rotate k row now a = (b, tk)"
    using refreshD [of k token now a b tk] by metis
  have "ss_account row \<noteq> i" using assms find_Some_iff [OF row(1)] row(2) by (auto simp: locked_out_def)
  moreover have "au_account_deletions b = au_account_deletions a" "au_client_keys b = au_client_keys a"
    using row(3) by (auto simp: rotate_def new_tokens_eq Let_def)
  ultimately show ?thesis using assms rotate_sessions [of k row now a] rotate_credentials [of k row now a] row(3) r
    by (auto simp: locked_out_def rotated_row_def access_row_def elim!: in_update_whereE)
qed

lemma signed_locked:
  assumes "locked_out i a" shows "locked_out i (fst (authenticate_signed ed h r now a))"
  using assms by (auto simp: authenticate_signed_def Let_def locked_out_def touch_key_def forget_nonces_def split: sum.splits elim!: in_update_whereE)

lemma entry_steps_locked: "(entry_step k ed)\<^sup>*\<^sup>* a b \<Longrightarrow> locked_out i a \<Longrightarrow> locked_out i b"
  by (induction rule: rtranclp_induct) (auto elim: entry_step.cases intro: sign_in_locked refresh_locked signed_locked)

lemma authenticate_account:
  "authenticate H h t a = Inr p \<Longrightarrow> \<exists>c \<in> set (au_credentials a). cr_revoked_at c = None \<and> cr_account c = pr_account_id p"
  by (auto simp: authenticate_def Let_def split: option.splits dest: find_Some_iff)

lemma signed_account:
  "authenticate_signed ed h r t a = (b, Inr p) \<Longrightarrow> pr_account_id p = Some i \<Longrightarrow> \<exists>c \<in> set (au_client_keys a). ck_revoked_at c = None \<and> ck_account c = Some i"
  by (auto simp: authenticate_signed_def verified_key_def key_principal_def Let_def split: sum.splits option.splits if_splits dest: find_Some_iff)

text \<open>C7. Deleting an account locks it out at once and for good. From the moment its deletion begins, whatever passwords,
  refresh tokens and signed requests are tried, in whatever order, no bearer token and no signed request acts as the
  account, it has no open session, and none of its keys or credentials is usable.\<close>

theorem deletion_locks_out:
  assumes "begin_deletion i now s = Inr (d, a)" and "(entry_step k ed)\<^sup>*\<^sup>* a b"
  shows "(\<forall>H h t p. authenticate H h t b = Inr p \<longrightarrow> pr_account_id p \<noteq> Some i)
    \<and> (\<forall>h r t c p. authenticate_signed ed h r t b = (c, Inr p) \<longrightarrow> pr_account_id p \<noteq> Some i)
    \<and> (\<forall>r \<in> set (au_sessions b). ss_account r = i \<longrightarrow> ss_revoked_at r \<noteq> None)
    \<and> (\<forall>l stored. password_of_login b l \<noteq> Some (i, stored))"
proof -
  have locked: "locked_out i b" using entry_steps_locked [OF assms(2) begin_deletion_locks [OF assms(1)]] .
  have "pr_account_id p \<noteq> Some i" if "authenticate H h t b = Inr p" for H h t p
    using authenticate_account [OF that] locked by (auto simp: locked_out_def)
  moreover have "pr_account_id p \<noteq> Some i" if "authenticate_signed ed h r t b = (c, Inr p)" for h r t c p
    using signed_account [OF that] locked by (fastforce simp: locked_out_def)
  moreover have "password_of_login b l \<noteq> Some (i, stored)" for l stored
    using locked by (auto simp: locked_out_def password_of_login_def active_account_def split: if_splits option.splits)
  ultimately show ?thesis using locked by (auto simp: locked_out_def)
qed

section \<open>Identities are let go when the profiles are gone\<close>

lemma update_where_compose:
  assumes "\<And>v. q (f v) = q v" and "\<And>v. f (f v) = f v"
  shows "update_where q f (update_where p f vs) = update_where (\<lambda>v. p v \<or> q v) f vs"
  using assms by (simp add: update_where_def)

lemma complete_deletion_fields [simp]:
  "profiles (complete_deletion i d) = profiles d" "account_deletions (complete_deletion i d) = account_deletions d"
  "completed_deletions (complete_deletion i d) = completed_deletions d @ [i]"
  "external_identities (complete_deletion i d) = filter (\<lambda>e. snd (snd e) \<noteq> i) (external_identities d)"
  "channels (complete_deletion i d) = filter (\<lambda>c. cn_account c \<noteq> i) (channels d)"
  "devices (complete_deletion i d) = update_where (\<lambda>v. \<exists>p \<in> set (profiles d). pf_id p = dv_profile v \<and> pf_owner p = Some i)
     (\<lambda>v. v\<lparr>dv_status := DevRetired\<rparr>) (devices d)"
  by (simp_all add: complete_deletion_def bump_revision_def Let_def)

lemma fold_complete_deletion:
  "profiles (fold complete_deletion is d) = profiles d"
  "completed_deletions (fold complete_deletion is d) = completed_deletions d @ is"
  "external_identities (fold complete_deletion is d) = filter (\<lambda>e. snd (snd e) \<notin> set is) (external_identities d)"
  "channels (fold complete_deletion is d) = filter (\<lambda>c. cn_account c \<notin> set is) (channels d)"
  "devices (fold complete_deletion is d) = update_where (\<lambda>v. \<exists>p \<in> set (profiles d). pf_id p = dv_profile v \<and> (\<exists>i \<in> set is. pf_owner p = Some i))
     (\<lambda>v. v\<lparr>dv_status := DevRetired\<rparr>) (devices d)"
proof (induction "is" arbitrary: d)
  case Nil
  { case 5 then show ?case by (simp add: update_where_def) }
qed (auto simp: filter_filter conj_commute update_where_compose intro!: arg_cong [where f = "\<lambda>P. update_where P _ _"])

text \<open>C38. A deletion is completed exactly when nothing of the account is left on the nodes. Settling completes the deletion of
  exactly those accounts whose every profile has been removed by an operation that succeeded or had nothing to remove;
  it lets go of the external identities and channels of those accounts and of no other, and retires exactly the devices
  of their profiles.\<close>

theorem settle_accounts_exact:
  defines "S \<equiv> \<lambda>d. {i \<in> set (account_deletions d). i \<notin> set (completed_deletions d)
     \<and> (\<forall>p \<in> set (profiles d). pf_owner p = Some i \<longrightarrow> profile_removed d p)}"
  shows "set (completed_deletions (settle_accounts d)) = set (completed_deletions d) \<union> S d
    \<and> external_identities (settle_accounts d) = filter (\<lambda>e. snd (snd e) \<notin> S d) (external_identities d)
    \<and> channels (settle_accounts d) = filter (\<lambda>c. cn_account c \<notin> S d) (channels d)
    \<and> devices (settle_accounts d) = map (\<lambda>v. if \<exists>p \<in> set (profiles d). pf_id p = dv_profile v \<and> (\<exists>i \<in> S d. pf_owner p = Some i)
        then v\<lparr>dv_status := DevRetired\<rparr> else v) (devices d)"
proof -
  have "set (order_by id (filter (deletion_settled d) (account_deletions d))) = S d" by (auto simp: S_def deletion_settled_def)
  then show ?thesis unfolding settle_accounts_def fold_complete_deletion update_where_def by simp
qed

section \<open>Witnesses\<close>

definition leaving_site :: site where
  "leaving_site = (empty_db\<lparr>accounts := au_accounts (fst signed_in), account_deletions := [''z''], external_identities := [(''telegram'', ''5'', ''z''), (''telegram'', ''6'', ''a1'')]\<rparr>,
     fst signed_in)"

definition begun :: "site tx" where "begun = begin_deletion ''a1'' day leaving_site"

theorem deletion_locks_out_witness: "\<forall>l stored. password_of_login (snd (projr begun)) l \<noteq> Some (''a1'', stored)"
proof -
  have "is_ok begun" by code_simp
  then have "begun = Inr (fst (projr begun), snd (projr begun))" by (metis is_ok_projr prod.collapse)
  from deletion_locks_out [OF this [unfolded begun_def] rtranclp.rtrancl_refl] show ?thesis by (simp add: begun_def)
qed

theorem settle_accounts_exact_witness: "external_identities (settle_accounts (fst leaving_site)) = [(''telegram'', ''6'', ''a1'')]"
proof -
  have "external_identities (settle_accounts (fst leaving_site)) = filter (\<lambda>e. snd (snd e) \<notin> {i \<in> set (account_deletions (fst leaving_site)).
      i \<notin> set (completed_deletions (fst leaving_site)) \<and> (\<forall>p \<in> set (profiles (fst leaving_site)). pf_owner p = Some i \<longrightarrow> profile_removed (fst leaving_site) p)})
      (external_identities (fst leaving_site))" using settle_accounts_exact [of "fst leaving_site"] by blast
  then show ?thesis by (simp add: leaving_site_def empty_db_def)
qed

end
