(* ===== verification/Service_Notifications.thy ===== *)
theory Service_Notifications
  imports Operations
begin

text \<open>
  \<^verbatim>\<open>app/backend/service_notifications.py\<close> and \<^verbatim>\<open>app/backend/account_channels.py\<close>: the system events queued for a
  profile's owner, the channels an account is reached on, and whether a queued delivery is still relevant. The English
  text stored beside an event and the title it is given are left out; a delivery carries its recipient and its chat,
  which is queued exactly when there is one. Settings of these components hold JSON values.
\<close>

named_theorems notify_defs \<open>definitions of the notification queue\<close>

section \<open>Channels\<close>

definition CHANNELS :: "string list" where "CHANNELS = [''telegram'', ''web'']"

definition attach_channel :: "string \<Rightarrow> string \<Rightarrow> string \<Rightarrow> db \<Rightarrow> db tx" where
  "attach_channel account_id channel address d =
     guard (channel \<in> set CHANNELS) (ValueError ''unknown channel'')
     (guard (\<not> (\<exists>c \<in> set (channels d). cn_channel c = channel \<and> cn_address c = address \<and> cn_account c \<noteq> account_id)) IntegrityError
     (Inr (d\<lparr>channels :=
        (if \<exists>c \<in> set (channels d). cn_account c = account_id \<and> cn_channel c = channel
         then update_where (\<lambda>c. cn_account c = account_id \<and> cn_channel c = channel) (\<lambda>c. c\<lparr>cn_address := address\<rparr>) (channels d)
         else channels d @ [\<lparr>cn_account = account_id, cn_channel = channel, cn_address = address, cn_enabled = True\<rparr>])\<rparr>)))"

definition detach_channel :: "string \<Rightarrow> string option \<Rightarrow> db \<Rightarrow> db" where
  "detach_channel account_id channel d = d\<lparr>channels := filter (\<lambda>c. \<not> (cn_account c = account_id
     \<and> (case channel of None \<Rightarrow> True | Some n \<Rightarrow> cn_channel c = n))) (channels d)\<rparr>"

definition enabled_channels :: "db \<Rightarrow> pyval list" where
  "enabled_channels d = (case map_of (settings d) ''channels.enabled'' of
     Some (PList vs) \<Rightarrow> vs | _ \<Rightarrow> [PStr ''telegram''])"

definition telegram_chat :: "db \<Rightarrow> string option \<Rightarrow> string option" where
  "telegram_chat d subject = (case subject of
     None \<Rightarrow> None
   | Some s \<Rightarrow> if s \<noteq> [] \<and> PStr ''telegram'' \<in> set (enabled_channels d) then Some s else None)"

section \<open>Delivery modes\<close>

definition NOTIFY_MODES :: "string list" where "NOTIFY_MODES = [''on'', ''silent'', ''off'']"

definition mode_setting :: "string \<Rightarrow> string" where "mode_setting account_id = ''service_notifications:'' @ account_id"

definition notify_mode :: "db \<Rightarrow> string \<Rightarrow> string" where
  "notify_mode d account_id = (case map_of (settings d) (mode_setting account_id) of
     Some (PStr v) \<Rightarrow> if v \<in> set NOTIFY_MODES then v else ''on'' | _ \<Rightarrow> ''on'')"

definition set_notify_mode :: "string \<Rightarrow> string \<Rightarrow> db \<Rightarrow> db tx" where
  "set_notify_mode account_id v d = guard (v \<in> set NOTIFY_MODES) (ValueError ''invalid service notification mode'')
     (Inr (d\<lparr>settings := dict_set (mode_setting account_id) (PStr v) (settings d)\<rparr>))"

section \<open>The queue\<close>

definition KINDS :: "string list" where
  "KINDS = [''access_expired'', ''quota_warning'', ''quota_exhausted'', ''quota_reset'', ''renewal_approved'', ''renewal_rejected'', ''connection_evicted'']"

text \<open>The enabled Telegram chat of an account; the left join gives one row without a chat.\<close>

definition chats_of :: "db \<Rightarrow> string \<Rightarrow> string option list" where
  "chats_of d account_id =
     (case filter (\<lambda>c. cn_account c = account_id \<and> cn_channel c = ''telegram'' \<and> cn_enabled c) (channels d) of
        [] \<Rightarrow> [None] | cs \<Rightarrow> map (\<lambda>c. Some (cn_address c)) cs)"

definition recipients :: "db \<Rightarrow> string \<Rightarrow> (string \<times> string option) list" where
  "recipients d profile_id = (if profile_id \<in> set (profile_deletions d) then [] else
     order_by (\<lambda>r. coalesce (snd r))
       (concat (map (\<lambda>p. concat (map (\<lambda>a. map (Pair (acc_id a)) (chats_of d (acc_id a)))
          (filter (\<lambda>a. pf_owner p = Some (acc_id a) \<and> acc_status a = ''approved'') (accounts d))))
        (filter (\<lambda>p. pf_id p = profile_id) (profiles d)))))"

definition queue ::
  "string \<Rightarrow> string \<Rightarrow> string \<Rightarrow> instant \<Rightarrow> (string \<times> pyval) list \<Rightarrow> string option \<Rightarrow> instant option \<Rightarrow> db \<Rightarrow> db tx" where
  "queue kind profile_id dedup_key timestamp payload device_id expires_at d =
     guard (kind \<in> set KINDS) (KeyError kind)
     (if dedup_key \<in> nt_dedup_key ` set (notifications d) \<or> recipients d profile_id = [] then Inr d
      else Inr (d\<lparr>notifications := notifications d @ [\<lparr>nt_kind = kind, nt_profile = profile_id, nt_dedup_key = dedup_key,
             nt_device = device_id, nt_expires_at = expires_at, nt_payload = payload, nt_created_at = timestamp,
             nt_deliveries = map (\<lambda>r. (fst r, telegram_chat d (snd r))) (recipients d profile_id)\<rparr>],
           drawn := drawn d + length (recipients d profile_id)\<rparr>))"

section \<open>Relevance at delivery\<close>

text \<open>\<open>rsplit(':', 1)[-1]\<close>.\<close>

definition after_last_colon :: "string \<Rightarrow> string" where
  "after_last_colon s = rev (takeWhile (\<lambda>c. c \<noteq> CHR '':'') (rev s))"

definition period_open :: "db \<Rightarrow> notification_row \<Rightarrow> bool" where
  "period_open d n = (\<exists>q \<in> set (quota_periods d). qp_id q = after_last_colon (nt_dedup_key n) \<and> qp_closed_at q = None)"

definition kind_current :: "db \<Rightarrow> instant \<Rightarrow> notification_row \<Rightarrow> bool" where
  "kind_current d now n =
     (if nt_kind n = ''access_expired'' then
        (case find_profile d (nt_profile n) of
           None \<Rightarrow> False
         | Some p \<Rightarrow> pf_expires_at p = nt_expires_at n \<and> (case pf_expires_at p of None \<Rightarrow> False | Some t \<Rightarrow> t \<le> now))
      else if nt_kind n \<in> {''quota_warning'', ''quota_exhausted''} then period_open d n
      else if nt_kind n = ''quota_reset'' then period_open d n \<and> \<not> quota_blocked d (nt_profile n)
      else if nt_kind n = ''connection_evicted'' then (\<exists>v \<in> set (devices d). Some (dv_id v) = nt_device n \<and> dv_status v = DevActive)
      else True)"

definition delivery_current :: "db \<Rightarrow> instant \<Rightarrow> notification_row \<Rightarrow> string \<Rightarrow> string \<Rightarrow> bool" where
  "delivery_current d now n account_id chat =
     (nt_kind n \<in> set KINDS
      \<and> nt_profile n \<notin> set (profile_deletions d)
      \<and> (\<exists>p \<in> set (profiles d). pf_id p = nt_profile n \<and> pf_owner p = Some account_id)
      \<and> (\<exists>a \<in> set (accounts d). acc_id a = account_id \<and> acc_status a = ''approved'')
      \<and> (\<exists>c \<in> set (channels d). cn_account c = account_id \<and> cn_channel c = ''telegram'' \<and> cn_enabled c \<and> cn_address c = chat)
      \<and> kind_current d now n)"

section \<open>Each event is queued once, for the owner\<close>

lemma recipients_owner:
  assumes "(account_id, chat) \<in> set (recipients d profile_id)"
  shows "profile_id \<notin> set (profile_deletions d)"
    and "\<exists>p \<in> set (profiles d). pf_id p = profile_id \<and> pf_owner p = Some account_id"
    and "\<exists>a \<in> set (accounts d). acc_id a = account_id \<and> acc_status a = ''approved''"
  using assms by (auto simp: recipients_def split: if_splits)

lemma recipients_chat:
  assumes "(account_id, Some chat) \<in> set (recipients d profile_id)"
  shows "\<exists>c \<in> set (channels d). cn_account c = account_id \<and> cn_channel c = ''telegram'' \<and> cn_enabled c \<and> cn_address c = chat"
proof -
  have "Some chat \<in> set (chats_of d account_id)" using assms by (auto simp: recipients_def split: if_splits)
  then have "Some chat \<in> (\<lambda>c. Some (cn_address c)) ` set (filter (\<lambda>c. cn_account c = account_id \<and> cn_channel c = ''telegram'' \<and> cn_enabled c) (channels d))"
    unfolding chats_of_def
    by (cases "filter (\<lambda>c. cn_account c = account_id \<and> cn_channel c = ''telegram'' \<and> cn_enabled c) (channels d)") auto
  then show ?thesis by auto
qed

lemma queue_cases:
  assumes "queue kind profile_id dedup_key timestamp payload device_id expires_at d = Inr e"
  shows "e = d \<or> (\<exists>n. dedup_key \<notin> nt_dedup_key ` set (notifications d) \<and> nt_dedup_key n = dedup_key \<and> nt_kind n = kind \<and> nt_profile n = profile_id
    \<and> nt_deliveries n = map (\<lambda>r. (fst r, telegram_chat d (snd r))) (recipients d profile_id)
    \<and> e = d\<lparr>notifications := notifications d @ [n], drawn := drawn d + length (recipients d profile_id)\<rparr>)"
proof (cases "dedup_key \<in> nt_dedup_key ` set (notifications d) \<or> recipients d profile_id = []")
  case False
  define n where "n = \<lparr>nt_kind = kind, nt_profile = profile_id, nt_dedup_key = dedup_key, nt_device = device_id, nt_expires_at = expires_at,
     nt_payload = payload, nt_created_at = timestamp, nt_deliveries = map (\<lambda>r. (fst r, telegram_chat d (snd r))) (recipients d profile_id)\<rparr>"
  have "e = d\<lparr>notifications := notifications d @ [n], drawn := drawn d + length (recipients d profile_id)\<rparr>"
    using assms False by (auto simp: queue_def n_def)
  with False show ?thesis by (intro disjI2 exI [of _ n]) (simp add: n_def)
qed (use assms in \<open>auto simp: queue_def\<close>)

text \<open>Queueing an event twice is queueing it once, whatever the second attempt carries: the deduplication keys in the
  queue stay distinct, so an owner is told of each event at most once. What is queued goes to the approved owner of a
  profile that is not being deleted, to a chat that is an enabled Telegram channel of that account.\<close>

theorem queue_once:
  assumes q: "queue kind profile_id dedup_key timestamp payload device_id expires_at d = Inr e"
    and u: "distinct (map nt_dedup_key (notifications d))"
  shows "distinct (map nt_dedup_key (notifications e))
    \<and> (dedup_key \<in> nt_dedup_key ` set (notifications e) \<and> kind' \<in> set KINDS
       \<longrightarrow> queue kind' profile_id' dedup_key timestamp' payload' device_id' expires_at' e = Inr e)
    \<and> (n \<in> set (notifications e) - set (notifications d) \<and> (account_id, chat) \<in> set (nt_deliveries n) \<longrightarrow>
       profile_id \<notin> set (profile_deletions d) \<and> (\<exists>p \<in> set (profiles d). pf_id p = profile_id \<and> pf_owner p = Some account_id)
       \<and> (\<exists>a \<in> set (accounts d). acc_id a = account_id \<and> acc_status a = ''approved'')
       \<and> (\<forall>s. chat = Some s \<longrightarrow> (\<exists>c \<in> set (channels d). cn_account c = account_id \<and> cn_channel c = ''telegram'' \<and> cn_enabled c \<and> cn_address c = s)))"
proof -
  have "distinct (map nt_dedup_key (notifications e))"
    using queue_cases [OF q] u by auto
  moreover have "queue kind' profile_id' dedup_key timestamp' payload' device_id' expires_at' e = Inr e"
    if "dedup_key \<in> nt_dedup_key ` set (notifications e)" "kind' \<in> set KINDS" using that by (simp add: queue_def)
  moreover have "profile_id \<notin> set (profile_deletions d) \<and> (\<exists>p \<in> set (profiles d). pf_id p = profile_id \<and> pf_owner p = Some account_id)
       \<and> (\<exists>a \<in> set (accounts d). acc_id a = account_id \<and> acc_status a = ''approved'')
       \<and> (\<forall>s. chat = Some s \<longrightarrow> (\<exists>c \<in> set (channels d). cn_account c = account_id \<and> cn_channel c = ''telegram'' \<and> cn_enabled c \<and> cn_address c = s))"
    if n: "n \<in> set (notifications e) - set (notifications d)" "(account_id, chat) \<in> set (nt_deliveries n)"
  proof -
    have "nt_deliveries n = map (\<lambda>r. (fst r, telegram_chat d (snd r))) (recipients d profile_id)"
      using n(1) queue_cases [OF q] by auto
    with n(2) obtain s where s: "(account_id, s) \<in> set (recipients d profile_id)" "chat = telegram_chat d s" by auto
    then have "chat = Some c \<Longrightarrow> s = Some c" for c by (auto simp: telegram_chat_def split: option.splits if_splits)
    with s recipients_owner [OF s(1)] recipients_chat show ?thesis by blast
  qed
  ultimately show ?thesis by blast
qed

text \<open>A chosen mode is what is read back, and leaves the choices of other accounts alone.\<close>

lemma notify_mode_set:
  assumes "set_notify_mode account_id v d = Inr e"
  shows "notify_mode e account_id = v" "other \<noteq> account_id \<Longrightarrow> notify_mode e other = notify_mode d other"
  using assms by (auto simp: set_notify_mode_def notify_mode_def mode_setting_def map_of_dict_set)

section \<open>Witness\<close>

definition owned_db :: db where
  "owned_db = operation_db\<lparr>profiles := map (\<lambda>p. p\<lparr>pf_owner := Some ''a''\<rparr>) (profiles operation_db),
     accounts := [\<lparr>acc_id = ''a'', acc_role = ''member'', acc_status = ''approved'', acc_revision = 1, acc_display_name = None\<rparr>],
     channels := [\<lparr>cn_account = ''a'', cn_channel = ''telegram'', cn_address = ''42'', cn_enabled = True\<rparr>]\<rparr>"

theorem queue_once_witness:
  "\<exists>e. queue ''quota_reset'' ''p1'' ''quota_reset:q1'' 7 [] None None owned_db = Inr e
     \<and> queue ''quota_warning'' ''p1'' ''quota_reset:q1'' 9 [] None None e = Inr e"
proof -
  define r where "r = queue ''quota_reset'' ''p1'' ''quota_reset:q1'' 7 [] None None owned_db"
  have "is_ok r" unfolding r_def by code_simp
  then obtain e where e: "r = Inr e" by (auto simp: is_ok_iff)
  have "''quota_reset:q1'' \<in> set (map nt_dedup_key (notifications (projr r)))" unfolding r_def by code_simp
  then have "''quota_reset:q1'' \<in> nt_dedup_key ` set (notifications e)" by (simp add: e)
  moreover have "distinct (map nt_dedup_key (notifications owned_db))" "''quota_warning'' \<in> set KINDS" by code_simp+
  ultimately show ?thesis using queue_once [OF e [unfolded r_def]] e [unfolded r_def] by blast
qed

end
