(* ===== verification/Renewals.thy ===== *)
theory Renewals
  imports Service_Notifications Logins
begin

text \<open>
  \<^verbatim>\<open>app/backend/renewals.py\<close>: an owner asks to extend the access of a profile, an administrator approves or rejects. The
  approval runs inside the profile command \<open>renew\<close>, which applies the new term.
\<close>

section \<open>Requests\<close>

definition renewal_key :: "pyval \<Rightarrow> string tx" where
  "renewal_key v = (case (case v of PStr s \<Rightarrow> uuid_str s | _ \<Rightarrow> None) of
     None \<Rightarrow> Inl (AccessDenied ''invalid_idempotency_key'' 422) | Some key \<Rightarrow> Inr key)"

text \<open>\<open>ORDER BY created_at DESC, id DESC LIMIT 1\<close>.\<close>

definition latest_renewal :: "db \<Rightarrow> string \<Rightarrow> renewal_row option" where
  "latest_renewal d profile_id =
     (case order_by (\<lambda>r. (rn_created_at r, rn_id r)) (filter (\<lambda>r. rn_profile r = profile_id) (renewals d)) of
        [] \<Rightarrow> None | rs \<Rightarrow> Some (last rs))"

definition notify_renewal :: "string \<Rightarrow> renewal_row \<Rightarrow> (string \<times> pyval) list \<Rightarrow> instant \<Rightarrow> db \<Rightarrow> db tx" where
  "notify_renewal kind r payload now d = queue kind (rn_profile r) (kind @ '':'' @ rn_id r) now payload None None d"

definition write_renewal :: "string \<Rightarrow> (renewal_row \<Rightarrow> renewal_row) \<Rightarrow> db \<Rightarrow> db" where
  "write_renewal i f d = d\<lparr>renewals := update_where (\<lambda>r. rn_id r = i) f (renewals d)\<rparr>"

text \<open>The days of an approval: the chosen number, or the term of the profile's tariff.\<close>

definition renewal_days :: "db \<Rightarrow> string \<Rightarrow> pyval \<Rightarrow> int tx" where
  "renewal_days d profile_id v =
     (case (if v = PNone then (case profile_tariff d profile_id of Some t \<Rightarrow> map_option PInt (tf_duration_days t) | None \<Rightarrow> None) else Some v) of
        None \<Rightarrow> Inl (AccessDenied ''renewal_days_required'' 422)
      | Some (PInt n) \<Rightarrow> guard (1 \<le> n \<and> n \<le> 3650) invalid_input (Inr n)
      | Some _ \<Rightarrow> Inl invalid_input)"

definition renewed_until :: "instant option \<Rightarrow> int \<Rightarrow> instant \<Rightarrow> instant tx" where
  "renewed_until current days now =
     (let start = (case current of Some t \<Rightarrow> if t > now then t else now | None \<Rightarrow> now)
      in guard (start + days * day \<le> MAX_INSTANT) OverflowError (Inr (start + days * day)))"

definition approve_renewal :: "string \<Rightarrow> string \<Rightarrow> instant option \<Rightarrow> pyval \<Rightarrow> instant \<Rightarrow> db \<Rightarrow> (db \<times> instant) tx" where
  "approve_renewal actor_id profile_id current values now d = (case values of
     PDict c \<Rightarrow>
       guard (fst ` set c \<subseteq> {''request_id'', ''days''} \<and> ''request_id'' \<in> fst ` set c) invalid_input
       (case find (\<lambda>r. Some (rn_id r) = py_str (py_get ''request_id'' c) \<and> rn_profile r = profile_id) (renewals d) of
          None \<Rightarrow> Inl (AccessDenied ''resource_not_found'' 404)
        | Some r \<Rightarrow>
            guard (rn_status r = ''pending'') (AccessDenied ''renewal_decided'' 409)
            (res_bind (renewal_days d profile_id (py_get ''days'' c)) (\<lambda>days.
             res_bind (renewed_until current days now) (\<lambda>expires_at.
             res_bind (notify_renewal ''renewal_approved'' r [(''expires_at'', PInt expires_at), (''days'', PInt days)] now
                 (write_renewal (rn_id r) (\<lambda>r. r\<lparr>rn_status := ''approved'', rn_decided_at := Some now, rn_decided_by := Some actor_id,
                    rn_days := Some days, rn_expires_at := Some expires_at\<rparr>) d)) (\<lambda>e.
               Inr (e, expires_at))))))
   | _ \<Rightarrow> Inl invalid_input)"

definition fresh_renewal :: "string \<Rightarrow> string \<Rightarrow> string \<Rightarrow> string \<Rightarrow> instant \<Rightarrow> renewal_row" where
  "fresh_renewal i profile_id account_id key now = \<lparr>rn_id = i, rn_profile = profile_id, rn_account = account_id, rn_create_key = key,
     rn_status = ''pending'', rn_created_at = now, rn_decided_at = None, rn_decided_by = None, rn_days = None, rn_expires_at = None\<rparr>"

text \<open>The request behind the gate: a repeated or second request gives the one there is.\<close>

definition open_request :: "string \<Rightarrow> string \<Rightarrow> string \<Rightarrow> instant \<Rightarrow> db \<Rightarrow> (db \<times> renewal_row \<times> bool) tx" where
  "open_request account_id profile_id key now d =
     (case find (\<lambda>r. rn_account r = account_id \<and> rn_create_key r = key) (renewals d) of
        Some r \<Rightarrow> Inr (d, r, False)
      | None \<Rightarrow>
     (case find (\<lambda>p. pf_id p = profile_id \<and> pf_owner p = Some account_id \<and> pf_id p \<notin> set (profile_deletions d)) (profiles d) of
        None \<Rightarrow> Inl (AccessDenied ''resource_not_found'' 404)
      | Some p \<Rightarrow>
          guard (pf_expires_at p \<noteq> None) (AccessDenied ''renewal_not_needed'' 409)
          (case find (\<lambda>r. rn_profile r = profile_id \<and> rn_status r = ''pending'') (renewals d) of
             Some r \<Rightarrow> Inr (d, r, False)
           | None \<Rightarrow>
               (let (i, d1) = draw d; r = fresh_renewal i profile_id account_id key now
                in guard (i \<notin> rn_id ` set (renewals d1)) IntegrityError (Inr (d1\<lparr>renewals := renewals d1 @ [r]\<rparr>, r, True))))))"

definition request_renewal :: "actor \<Rightarrow> string \<Rightarrow> pyval \<Rightarrow> instant \<Rightarrow> db \<Rightarrow> (db \<times> renewal_row \<times> bool) tx" where
  "request_renewal actor profile_id command_key now d0 =
     res_bind (require_permission actor ''profiles.self.read'') (\<lambda>_.
     res_bind (renewal_key command_key) (\<lambda>key.
     res_bind (admit False d0) (\<lambda>d. open_request (ac_id (actor_account actor)) profile_id key now d)))"

section \<open>Decisions\<close>

text \<open>A request with what an administrator decides on.\<close>

record renewal_detail =
  rd_request :: renewal_row
  rd_display_name :: string
  rd_profile_expires_at :: "instant option"
  rd_profile_revision :: int
  rd_tariff :: "(string \<times> int option) option"

definition renewal_details :: "db \<Rightarrow> renewal_row \<Rightarrow> renewal_detail list" where
  "renewal_details d r = map (\<lambda>p. \<lparr>rd_request = r, rd_display_name = pf_display_name p, rd_profile_expires_at = pf_expires_at p,
     rd_profile_revision = pf_desired_revision p,
     rd_tariff = map_option (\<lambda>t. (tf_title t, tf_duration_days t)) (profile_tariff d (pf_id p))\<rparr>)
     (filter (\<lambda>p. pf_id p = rn_profile r) (profiles d))"

definition pending_renewals :: "actor \<Rightarrow> nat \<Rightarrow> nat \<Rightarrow> db \<Rightarrow> (nat \<times> renewal_detail list) tx" where
  "pending_renewals actor offset limit d =
     res_bind (require_permission actor ''profiles.manage'') (\<lambda>_.
       (let pending = order_by (\<lambda>r. (rn_created_at r, rn_id r)) (filter (\<lambda>r. rn_status r = ''pending'') (renewals d))
        in Inr (length pending, take limit (drop offset (concat (map (renewal_details d) pending))))))"

definition get_renewal :: "actor \<Rightarrow> string \<Rightarrow> db \<Rightarrow> renewal_detail tx" where
  "get_renewal actor request_id d =
     res_bind (require_permission actor ''profiles.manage'') (\<lambda>_.
       (case concat (map (renewal_details d) (filter (\<lambda>r. rn_id r = request_id) (renewals d))) of
          [] \<Rightarrow> Inl (AccessDenied ''resource_not_found'' 404) | v # _ \<Rightarrow> Inr v))"

definition reject_renewal :: "actor \<Rightarrow> string \<Rightarrow> instant \<Rightarrow> db \<Rightarrow> (db \<times> renewal_row) tx" where
  "reject_renewal actor request_id now d0 =
     res_bind (require_permission actor ''profiles.manage'') (\<lambda>_.
     res_bind (admit False d0) (\<lambda>d.
       (case find (\<lambda>r. rn_id r = request_id) (renewals d) of
          None \<Rightarrow> Inl (AccessDenied ''resource_not_found'' 404)
        | Some r \<Rightarrow>
            if rn_status r = ''rejected'' then Inr (d, r)
            else guard (rn_status r = ''pending'') (AccessDenied ''renewal_decided'' 409)
              (let f = (\<lambda>r. r\<lparr>rn_status := ''rejected'', rn_decided_at := Some now, rn_decided_by := Some (ac_id (actor_account actor))\<rparr>)
               in res_bind (notify_renewal ''renewal_rejected'' r [] now (write_renewal (rn_id r) f d)) (\<lambda>e. Inr (e, f r))))))"

section \<open>Requests are decided once\<close>

text \<open>The ids are a primary key; a profile has one pending request and an account one request per key.\<close>

definition renewals_wf :: "db \<Rightarrow> bool" where
  "renewals_wf d = (distinct (map rn_id (renewals d))
     \<and> distinct (map rn_profile (filter (\<lambda>r. rn_status r = ''pending'') (renewals d)))
     \<and> distinct (map (\<lambda>r. (rn_account r, rn_create_key r)) (renewals d)))"

inductive renewal_step :: "db \<Rightarrow> db \<Rightarrow> bool" where
  requested: "request_renewal actor profile_id key now d = Inr (e, r, created) \<Longrightarrow> renewal_step d e"
| approved: "approve_renewal actor_id profile_id current values now d = Inr (e, t) \<Longrightarrow> renewal_step d e"
| rejected: "reject_renewal actor request_id now d = Inr (e, r) \<Longrightarrow> renewal_step d e"

text \<open>What a step does to the requests: it adds a pending one, decides a pending one, or leaves them alone.\<close>

definition decides :: "renewal_row list \<Rightarrow> renewal_row list \<Rightarrow> bool" where
  "decides rs rs' = (\<exists>i f. (\<forall>r. rn_id (f r) = rn_id r \<and> rn_profile (f r) = rn_profile r \<and> rn_account (f r) = rn_account r
       \<and> rn_create_key (f r) = rn_create_key r \<and> rn_status (f r) \<in> {''approved'', ''rejected''})
     \<and> (\<exists>r \<in> set rs. rn_id r = i \<and> rn_status r = ''pending'') \<and> rs' = update_where (\<lambda>r. rn_id r = i) f rs)"

definition adds :: "renewal_row list \<Rightarrow> renewal_row list \<Rightarrow> bool" where
  "adds rs rs' = (\<exists>r. rs' = rs @ [r] \<and> rn_status r = ''pending'' \<and> rn_id r \<notin> rn_id ` set rs
     \<and> (\<forall>q \<in> set rs. \<not> (rn_profile q = rn_profile r \<and> rn_status q = ''pending''))
     \<and> (\<forall>q \<in> set rs. (rn_account q, rn_create_key q) \<noteq> (rn_account r, rn_create_key r)))"

lemma queue_renewals: "queue kind p key now payload i x d = Inr e \<Longrightarrow> renewals e = renewals d"
  using queue_cases [of kind p key now payload i x d e] by auto

lemma open_request_shape:
  assumes "open_request a profile_id k now d = Inr (e, r, created)"
  shows "renewals e = renewals d \<and> \<not> created \<and> r \<in> set (renewals d) \<or> adds (renewals d) (renewals e) \<and> created \<and> r \<in> set (renewals e)"
proof (cases "find (\<lambda>r. rn_account r = a \<and> rn_create_key r = k) (renewals d)")
  case (Some q)
  with assms find_Some_iff [OF Some] show ?thesis by (simp add: open_request_def)
next
  case None
  note no_key = None
  show ?thesis
  proof (cases "find (\<lambda>r. rn_profile r = profile_id \<and> rn_status r = ''pending'') (renewals d)")
    case (Some q)
    with assms no_key find_Some_iff [OF Some] show ?thesis by (auto simp: open_request_def split: option.splits)
  next
    case None
    with assms no_key obtain i where "renewals e = renewals d @ [fresh_renewal i profile_id a k now]" "created" "i \<notin> rn_id ` set (renewals d)"
      "r = fresh_renewal i profile_id a k now"
      by (auto simp: open_request_def draw_def Let_def split: option.splits)
    then show ?thesis using None no_key by (auto simp: adds_def fresh_renewal_def find_None_iff')
  qed
qed

lemma request_shape:
  assumes "request_renewal actor profile_id key now d = Inr (e, r, created)"
  shows "renewals e = renewals d \<and> \<not> created \<and> r \<in> set (renewals d) \<or> adds (renewals d) (renewals e) \<and> created \<and> r \<in> set (renewals e)"
proof -
  obtain k d1 where "admit False d = Inr d1" "open_request (ac_id (actor_account actor)) profile_id k now d1 = Inr (e, r, created)"
    using assms by (auto simp: request_renewal_def res_bind_Inr_iff)
  with open_request_shape [OF this(2)] admit_Inr [OF this(1)] show ?thesis by simp
qed

lemma decidesI:
  assumes "r \<in> set (renewals d)" and "rn_status r = ''pending''"
    and "\<And>r. rn_id (f r) = rn_id r \<and> rn_profile (f r) = rn_profile r \<and> rn_account (f r) = rn_account r
       \<and> rn_create_key (f r) = rn_create_key r \<and> rn_status (f r) \<in> {''approved'', ''rejected''}"
  shows "decides (renewals d) (renewals (write_renewal (rn_id r) f d))"
  unfolding decides_def write_renewal_def using assms by (intro exI [of _ "rn_id r"] exI [of _ f]) auto

lemma approve_renewalE:
  assumes "approve_renewal actor_id profile_id current values now d = Inr (e, t)"
  obtains c r days where "values = PDict c" "Some (rn_id r) = py_str (py_get ''request_id'' c)" "rn_profile r = profile_id" "r \<in> set (renewals d)"
    "rn_status r = ''pending''" "renewal_days d profile_id (py_get ''days'' c) = Inr days" "renewed_until current days now = Inr t"
    "renewals e = renewals (write_renewal (rn_id r) (\<lambda>r. r\<lparr>rn_status := ''approved'', rn_decided_at := Some now, rn_decided_by := Some actor_id,
        rn_days := Some days, rn_expires_at := Some t\<rparr>) d)"
proof -
  obtain c where c: "values = PDict c" using assms by (cases "values") (simp_all add: approve_renewal_def)
  obtain r where r: "find (\<lambda>r. Some (rn_id r) = py_str (py_get ''request_id'' c) \<and> rn_profile r = profile_id) (renewals d) = Some r"
    using assms c by (cases "find (\<lambda>r. Some (rn_id r) = py_str (py_get ''request_id'' c) \<and> rn_profile r = profile_id) (renewals d)") (simp_all add: approve_renewal_def)
  obtain days where days: "rn_status r = ''pending''" "renewal_days d profile_id (py_get ''days'' c) = Inr days" "renewed_until current days now = Inr t"
    "notify_renewal ''renewal_approved'' r [(''expires_at'', PInt t), (''days'', PInt days)] now
       (write_renewal (rn_id r) (\<lambda>r. r\<lparr>rn_status := ''approved'', rn_decided_at := Some now, rn_decided_by := Some actor_id,
          rn_days := Some days, rn_expires_at := Some t\<rparr>) d) = Inr e"
    using assms c r by (auto simp: approve_renewal_def res_bind_Inr_iff)
  show thesis
    using that [OF c _ _ _ days(1-3)] find_Some_iff [OF r] queue_renewals [OF days(4) [unfolded notify_renewal_def]] by blast
qed

lemma reject_renewalE:
  assumes "reject_renewal actor request_id now d = Inr (e, r)"
  obtains (already) "renewals e = renewals d" "r \<in> set (renewals d)" "rn_status r = ''rejected''"
  | (decided) q f where "q \<in> set (renewals d)" "rn_id q = request_id" "rn_status q = ''pending''" "r = f q"
      "f = (\<lambda>r. r\<lparr>rn_status := ''rejected'', rn_decided_at := Some now, rn_decided_by := Some (ac_id (actor_account actor))\<rparr>)"
      "renewals e = renewals (write_renewal request_id f d)"
proof -
  obtain d1 where d1: "admit False d = Inr d1"
    using assms by (auto simp: reject_renewal_def res_bind_Inr_iff)
  have same: "renewals d1 = renewals d" using admit_Inr [OF d1] by simp
  obtain q where q: "find (\<lambda>r. rn_id r = request_id) (renewals d1) = Some q"
    using assms d1 by (cases "find (\<lambda>r. rn_id r = request_id) (renewals d1)") (auto simp: reject_renewal_def res_bind_Inr_iff)
  let ?f = "\<lambda>r. r\<lparr>rn_status := ''rejected'', rn_decided_at := Some now, rn_decided_by := Some (ac_id (actor_account actor))\<rparr>"
  show thesis
  proof (cases "rn_status q = ''rejected''")
    case True
    with assms d1 q have "e = d1" "r = q" by (auto simp: reject_renewal_def res_bind_Inr_iff)
    with already True same find_Some_iff [OF q] show thesis by simp
  next
    case False
    with assms d1 q have n: "rn_status q = ''pending''" "notify_renewal ''renewal_rejected'' q [] now (write_renewal (rn_id q) ?f d1) = Inr e" "r = ?f q"
      by (auto simp: reject_renewal_def res_bind_Inr_iff)
    have "renewals e = renewals (write_renewal request_id ?f d)"
      using queue_renewals [OF n(2) [unfolded notify_renewal_def]] find_Some_iff [OF q] same by (simp add: write_renewal_def)
    with decided [of q ?f] n find_Some_iff [OF q] same show thesis by simp
  qed
qed

lemma renewal_step_shape:
  assumes "renewal_step d e"
  shows "renewals e = renewals d \<or> adds (renewals d) (renewals e) \<or> decides (renewals d) (renewals e)"
  using assms
proof cases
  case (requested actor profile_id key now r created)
  then show ?thesis using request_shape by blast
next
  case (approved actor_id profile_id current "values" now t)
  then show ?thesis
  proof (cases rule: approve_renewalE)
    case (1 c r days)
    then show ?thesis using decidesI [of r d] by simp
  qed
next
  case (rejected actor request_id now r)
  then show ?thesis
  proof (cases rule: reject_renewalE)
    case already
    then show ?thesis by simp
  next
    case (decided q f)
    then show ?thesis using decidesI [of q d f] by simp
  qed
qed

lemma adds_wf: "renewals_wf d \<Longrightarrow> adds (renewals d) (renewals e) \<Longrightarrow> renewals_wf e"
  by (fastforce simp: adds_def renewals_wf_def)

lemma pending_after:
  assumes "\<And>r. rn_status (f r) \<in> {''approved'', ''rejected''}"
  shows "filter (\<lambda>r. rn_status r = ''pending'') (update_where (\<lambda>r. rn_id r = i) f rs) = filter (\<lambda>r. rn_status r = ''pending'' \<and> rn_id r \<noteq> i) rs"
proof -
  have "rn_status (f r) \<noteq> ''pending''" for r using assms [of r] by auto
  then show ?thesis by (induction rs) (auto simp: update_where_def)
qed

lemma decides_wf: "renewals_wf d \<Longrightarrow> decides (renewals d) (renewals e) \<Longrightarrow> renewals_wf e"
proof -
  assume wf: "renewals_wf d" and "decides (renewals d) (renewals e)"
  then obtain i f where f: "\<And>r. rn_id (f r) = rn_id r \<and> rn_profile (f r) = rn_profile r \<and> rn_account (f r) = rn_account r
       \<and> rn_create_key (f r) = rn_create_key r \<and> rn_status (f r) \<in> {''approved'', ''rejected''}"
    and e: "renewals e = update_where (\<lambda>r. rn_id r = i) f (renewals d)" unfolding decides_def by blast
  have p: "filter (\<lambda>r. rn_status r = ''pending'') (renewals e) = filter (\<lambda>r. rn_id r \<noteq> i) (filter (\<lambda>r. rn_status r = ''pending'') (renewals d))"
    unfolding e using pending_after [of f] f by (simp add: filter_filter conj_commute)
  have "map rn_id (renewals e) = map rn_id (renewals d)"
    "map (\<lambda>r. (rn_account r, rn_create_key r)) (renewals e) = map (\<lambda>r. (rn_account r, rn_create_key r)) (renewals d)"
    unfolding e using f by (auto intro!: map_update_where)
  moreover have "distinct (map rn_profile (filter (\<lambda>r. rn_status r = ''pending'') (renewals e)))"
    unfolding p by (rule distinct_map_filter) (use wf in \<open>simp add: renewals_wf_def\<close>)
  ultimately show ?thesis using wf by (simp add: renewals_wf_def)
qed

lemma renewal_step_keeps:
  assumes "renewal_step d e" and "renewals_wf d" and "r \<in> set (renewals d)"
  shows "if rn_status r = ''pending'' then \<exists>r' \<in> set (renewals e). rn_id r' = rn_id r \<and> rn_profile r' = rn_profile r else r \<in> set (renewals e)"
  using renewal_step_shape [OF assms(1)]
proof (elim disjE)
  assume "decides (renewals d) (renewals e)"
  then obtain i f q where f: "\<And>r. rn_id (f r) = rn_id r \<and> rn_profile (f r) = rn_profile r" and q: "q \<in> set (renewals d)" "rn_id q = i" "rn_status q = ''pending''"
    and e: "renewals e = update_where (\<lambda>r. rn_id r = i) f (renewals d)" unfolding decides_def by blast
  have "rn_id r = i \<Longrightarrow> r = q" using distinct_keyD [of rn_id "renewals d" r q] assms(2,3) q by (simp add: renewals_wf_def)
  then show ?thesis using assms(3) q f unfolding e set_update_where by (cases "rn_id r = i") (force simp: image_iff)+
qed (use assms(3) in \<open>auto simp: adds_def\<close>)

text \<open>C11. A renewal request is decided once. Every sequence of requests, approvals and rejections keeps at most one pending
  request per profile and one request per account and command key; no request is lost, and an approved or rejected
  request is never changed again.\<close>

theorem renewals_decided_once:
  assumes "renewal_step\<^sup>*\<^sup>* d e" and "renewals_wf d"
  shows "renewals_wf e \<and> (r \<in> set (renewals d) \<longrightarrow> (rn_status r \<noteq> ''pending'' \<longrightarrow> r \<in> set (renewals e))
    \<and> (\<exists>r' \<in> set (renewals e). rn_id r' = rn_id r \<and> rn_profile r' = rn_profile r))"
  using assms
proof (induction rule: rtranclp_induct)
  case base
  then show ?case by blast
next
  case (step y z)
  then have wf: "renewals_wf y" by blast
  have wf': "renewals_wf z" using renewal_step_shape [OF step(2)] wf adds_wf [OF wf] decides_wf [OF wf] by (auto simp: renewals_wf_def)
  have keeps: "if rn_status x = ''pending'' then \<exists>r' \<in> set (renewals z). rn_id r' = rn_id x \<and> rn_profile r' = rn_profile x else x \<in> set (renewals z)"
    if "x \<in> set (renewals y)" for x using renewal_step_keeps [OF step(2) wf that] .
  have there: "\<exists>r'' \<in> set (renewals z). rn_id r'' = rn_id x \<and> rn_profile r'' = rn_profile x" if "x \<in> set (renewals y)" for x
    using keeps [OF that] that by (cases "rn_status x = ''pending''") auto
  show ?case
  proof (intro conjI impI)
    assume r: "r \<in> set (renewals d)"
    show "r \<in> set (renewals z)" if "rn_status r \<noteq> ''pending''" using step.IH step.prems r that keeps [of r] by simp
    obtain r' where "r' \<in> set (renewals y)" "rn_id r' = rn_id r" "rn_profile r' = rn_profile r" using step.IH step.prems r by blast
    with there [of r'] show "\<exists>r' \<in> set (renewals z). rn_id r' = rn_id r \<and> rn_profile r' = rn_profile r" by simp
  qed (rule wf')
qed

lemma renewal_days_bounds: "renewal_days d p v = Inr n \<Longrightarrow> 1 \<le> n \<and> n \<le> 3650"
  by (auto simp: renewal_days_def split: option.splits pyval.splits if_splits)

text \<open>C27. An approval extends access. It adds between 1 and 3650 days after the remaining time, or after the present when
  access has expired, so that the new term ends after the present and after the old term; the request records the
  decision, and approving it again is refused.\<close>

theorem approve_renewal_extends:
  assumes wf: "renewals_wf d" and a: "approve_renewal actor_id profile_id current (PDict c) now d = Inr (e, t)"
  shows "(\<exists>days. 1 \<le> days \<and> days \<le> 3650 \<and> t = max now (case current of None \<Rightarrow> now | Some u \<Rightarrow> u) + days * day \<and> t \<le> MAX_INSTANT
      \<and> (\<exists>r \<in> set (renewals e). Some (rn_id r) = py_str (py_get ''request_id'' c) \<and> rn_profile r = profile_id \<and> rn_status r = ''approved''
           \<and> rn_expires_at r = Some t \<and> rn_days r = Some days \<and> rn_decided_by r = Some actor_id))
    \<and> approve_renewal actor' profile_id current' (PDict c) now' e = Inl (AccessDenied ''renewal_decided'' 409)"
proof -
  obtain r days where r: "Some (rn_id r) = py_str (py_get ''request_id'' c)" "rn_profile r = profile_id" "r \<in> set (renewals d)"
    and days: "renewal_days d profile_id (py_get ''days'' c) = Inr days" "renewed_until current days now = Inr t"
    and e: "renewals e = renewals (write_renewal (rn_id r) (\<lambda>r. r\<lparr>rn_status := ''approved'', rn_decided_at := Some now, rn_decided_by := Some actor_id,
        rn_days := Some days, rn_expires_at := Some t\<rparr>) d)"
    using a by (cases rule: approve_renewalE) auto
  let ?f = "\<lambda>r. r\<lparr>rn_status := ''approved'', rn_decided_at := Some now, rn_decided_by := Some actor_id, rn_days := Some days, rn_expires_at := Some t\<rparr>"
  have mem: "?f r \<in> set (renewals e)" using r(3) unfolding e write_renewal_def by (auto simp: set_update_where)
  have "t = max now (case current of None \<Rightarrow> now | Some u \<Rightarrow> u) + days * day \<and> t \<le> MAX_INSTANT"
    using days(2) by (auto simp: renewed_until_def max_def split: option.splits if_splits)
  then have ext: "\<exists>days. 1 \<le> days \<and> days \<le> 3650 \<and> t = max now (case current of None \<Rightarrow> now | Some u \<Rightarrow> u) + days * day \<and> t \<le> MAX_INSTANT
      \<and> (\<exists>r \<in> set (renewals e). Some (rn_id r) = py_str (py_get ''request_id'' c) \<and> rn_profile r = profile_id \<and> rn_status r = ''approved''
           \<and> rn_expires_at r = Some t \<and> rn_days r = Some days \<and> rn_decided_by r = Some actor_id)"
    using renewal_days_bounds [OF days(1)] r(1,2) by (intro exI [of _ days] conjI bexI [OF _ mem]) simp_all
  have ids: "distinct (map rn_id (renewals e))" using wf unfolding e write_renewal_def renewals_wf_def by (simp add: map_update_where)
  have "find (\<lambda>r. Some (rn_id r) = py_str (py_get ''request_id'' c) \<and> rn_profile r = profile_id) (renewals e) = Some (?f r)"
  proof (rule find_unique [OF mem])
    show "Some (rn_id (?f r)) = py_str (py_get ''request_id'' c) \<and> rn_profile (?f r) = profile_id" using r(1,2) by simp
    fix q
    assume q: "q \<in> set (renewals e)" "Some (rn_id q) = py_str (py_get ''request_id'' c) \<and> rn_profile q = profile_id"
    then have "Some (rn_id q) = Some (rn_id r)" using r(1) by simp
    then show "q = ?f r" using distinct_keyD [OF ids q(1) mem] by simp
  qed
  moreover have "fst ` set c \<subseteq> {''request_id'', ''days''} \<and> ''request_id'' \<in> fst ` set c"
    using a by (simp add: approve_renewal_def)
  ultimately have "approve_renewal actor' profile_id current' (PDict c) now' e = Inl (AccessDenied ''renewal_decided'' 409)"
    by (simp add: approve_renewal_def)
  with ext show ?thesis by blast
qed

section \<open>Witnesses\<close>

definition renewal_db :: db where
  "renewal_db = owned_db\<lparr>renewals := [fresh_renewal ''r1'' ''p1'' ''a'' ''k'' 3]\<rparr>"

lemma renewal_db_wf: "renewals_wf renewal_db" by code_simp

definition approval :: "(db \<times> instant) tx" where
  "approval = approve_renewal ''b'' ''p1'' (Some 9) (PDict [(''request_id'', PStr ''r1''), (''days'', PInt 30)]) 5 renewal_db"

lemma approval_ok: "approval = Inr (fst (projr approval), snd (projr approval))"
proof -
  have "is_ok approval" by code_simp
  then show ?thesis by (metis is_ok_projr prod.collapse)
qed

theorem approve_renewal_extends_witness:
  "approve_renewal ''c'' ''p1'' None (PDict [(''request_id'', PStr ''r1''), (''days'', PInt 30)]) 7 (fst (projr approval))
     = Inl (AccessDenied ''renewal_decided'' 409)"
  using approve_renewal_extends [OF renewal_db_wf approval_ok [unfolded approval_def], folded approval_def] by blast

theorem renewals_decided_once_witness: "renewals_wf (fst (projr approval))"
proof -
  have "renewal_step renewal_db (fst (projr approval))" using approval_ok unfolding approval_def by (rule renewal_step.approved)
  then show ?thesis using renewals_decided_once [OF r_into_rtranclp renewal_db_wf] by blast
qed

end
