(* ===== verification/Devices.thy ===== *)
theory Devices
  imports Operations
begin

text \<open>
  \<^verbatim>\<open>app/backend/devices.py\<close>, the adoption of legacy clients in \<^verbatim>\<open>app/backend/device_credentials.py\<close>, and \<open>reconcile\<close> of
  \<^verbatim>\<open>app/backend/grant_policies.py\<close>: the devices of a profile, the confirmation of their removal from every node, and
  the refresh of derived grants. Name-based identifiers (\<open>uuid5(NAMESPACE_URL, text)\<close>) are the argument \<open>u5\<close>, case
  folding is \<open>casefold\<close>. The rewriting of configuration issuances by \<open>insert\<close> is left out with their table.
\<close>

section \<open>Devices\<close>

definition default_device :: "(string \<Rightarrow> string) \<Rightarrow> profile_row \<Rightarrow> instant option \<Rightarrow> instant \<Rightarrow> device_row" where
  "default_device u5 p created_at now =
     \<lparr>dv_id = u5 (''node-plane:default-device:'' @ pf_id p), dv_profile = pf_id p, dv_display_name = ''Device 1'',
      dv_runtime_name = pf_runtime_name p, dv_status = DevActive, dv_revision = 1,
      dv_created_at = (case pf_created_at p of Some t \<Rightarrow> t | None \<Rightarrow> (case created_at of Some t \<Rightarrow> t | None \<Rightarrow> now))\<rparr>"

definition ensure_default :: "(string \<Rightarrow> string) \<Rightarrow> profile_row \<Rightarrow> instant \<Rightarrow> db \<Rightarrow> db \<times> string" where
  "ensure_default u5 p now d = (case profile_devices d (pf_id p) of
     v # _ \<Rightarrow> (d, dv_id v)
   | [] \<Rightarrow> let v = default_device u5 p None now in (d\<lparr>devices := devices d @ [v]\<rparr>, dv_id v))"

definition unnamed_peer :: "db \<Rightarrow> protocol \<Rightarrow> string \<Rightarrow> task_row \<Rightarrow> bool" where
  "unnamed_peer d q profile_id t = (tk_protocol t = q \<and> tk_device t = [] \<and> task_of_profile d profile_id t)"

definition adopt_devices :: "(string \<Rightarrow> string) \<Rightarrow> instant \<Rightarrow> db \<Rightarrow> db" where
  "adopt_devices u5 now d =
     fold (\<lambda>p d. fst (ensure_default u5 p now d))
       (order_by pf_id (filter (\<lambda>p. (\<forall>v \<in> set (devices d). dv_profile v \<noteq> pf_id p)
          \<and> (\<exists>t \<in> set (tasks d). unnamed_peer d Awg (pf_id p) t)) (profiles d))) d"

definition select_active :: "db \<Rightarrow> string \<Rightarrow> string option \<Rightarrow> device_row tx" where
  "select_active d profile_id device_id =
     (if coalesce device_id \<noteq> [] then
        (case find (\<lambda>v. dv_id v = coalesce device_id \<and> dv_profile v = profile_id) (devices d) of
           None \<Rightarrow> Inl (AccessDenied ''resource_not_found'' 404)
         | Some v \<Rightarrow> guard (dv_status v = DevActive) (AccessDenied ''device_unavailable'' 409) (Inr v))
      else
        (case order_by dv_id (filter (\<lambda>v. dv_profile v = profile_id \<and> dv_status v = DevActive) (devices d)) of
           [] \<Rightarrow> Inl (AccessDenied ''device_unavailable'' 409)
         | [v] \<Rightarrow> Inr v
         | _ \<Rightarrow> Inl (AccessDenied ''device_required'' 409)))"

text \<open>\<open>public\<close> leaves out the runtime name.\<close>

record device_view =
  ve_id :: string
  ve_profile :: string
  ve_display_name :: string
  ve_status :: device_status
  ve_revision :: int
  ve_created_at :: instant

definition device_public :: "device_row \<Rightarrow> device_view" where
  "device_public v = \<lparr>ve_id = dv_id v, ve_profile = dv_profile v, ve_display_name = dv_display_name v, ve_status = dv_status v,
     ve_revision = dv_revision v, ve_created_at = dv_created_at v\<rparr>"

definition list_for_profile :: "db \<Rightarrow> string \<Rightarrow> device_view list" where
  "list_for_profile d profile_id =
     map device_public (order_by (\<lambda>v. (dv_created_at v, dv_id v)) (filter (\<lambda>v. dv_profile v = profile_id) (devices d)))"

section \<open>Confirmed removal\<close>

text \<open>The tasks of a peer with their operations, newest first.\<close>

definition task_order :: "db \<Rightarrow> task_row \<Rightarrow> int \<times> instant \<times> string" where
  "task_order d t = (case find_operation d (tk_operation t) of
     Some r \<Rightarrow> (op_desired_revision r, op_created_at r, tk_id t) | None \<Rightarrow> (0, 0, tk_id t))"

definition of_peer :: "db \<Rightarrow> string \<Rightarrow> string \<Rightarrow> task_row \<Rightarrow> bool" where
  "of_peer d profile_id peer_id t = (task_of_profile d profile_id t \<and> tk_device t = peer_id)"

definition peer_tasks :: "db \<Rightarrow> string \<Rightarrow> string \<Rightarrow> task_row list" where
  "peer_tasks d profile_id peer_id = rev (order_by (task_order d) (filter (of_peer d profile_id peer_id) (tasks d)))"

text \<open>\<open>latest.setdefault\<close>: the first task of each node.\<close>

fun latest_per_node :: "string list \<Rightarrow> task_row list \<Rightarrow> task_row list" where
  "latest_per_node seen [] = []"
| "latest_per_node seen (t # ts) =
     (if tk_node t \<in> set seen then latest_per_node seen ts else t # latest_per_node (tk_node t # seen) ts)"

definition verified_retired :: "db \<Rightarrow> string \<Rightarrow> bool" where
  "verified_retired d node_key = (map_of (node_retirements d) node_key = Some ''verified'')"

definition removal_done :: "db \<Rightarrow> task_row \<Rightarrow> bool" where
  "removal_done d t = (verified_retired d (tk_node t) \<or> tk_action t = Delete \<and> tk_status t = Succeeded)"

definition unsettled :: "db \<Rightarrow> task_row \<Rightarrow> bool" where
  "unsettled d t = (\<not> verified_retired d (tk_node t) \<and> tk_status t \<in> {Awaiting, Running, OpBlocked})"

definition settle_retired_peers :: "db \<Rightarrow> db" where
  "settle_retired_peers d =
     fold (\<lambda>r d. if list_all (removal_done d) (latest_per_node [] (peer_tasks d (rp_profile r) (rp_slot r)))
             then d\<lparr>retired_peers := filter (\<lambda>q. rp_slot q \<noteq> rp_slot r) (retired_peers d)\<rparr> else d)
       (order_by rp_slot (retired_peers d)) d"

definition removal_confirmed :: "db \<Rightarrow> device_row \<Rightarrow> bool" where
  "removal_confirmed d v = (let ts = peer_tasks d (dv_profile v) (dv_id v) in
     \<not> list_ex (unsettled d) ts \<and> list_all (removal_done d) (latest_per_node [] ts))"

definition settle_deletions :: "db \<Rightarrow> db" where
  "settle_deletions d = settle_retired_peers
     (fold (\<lambda>v d. if removal_confirmed d v
              then d\<lparr>devices := update_where (\<lambda>q. dv_id q = dv_id v \<and> dv_status q = DevDeleting) (\<lambda>q. q\<lparr>dv_status := DevRetired\<rparr>) (devices d)\<rparr>
              else d)
        (order_by dv_id (filter (\<lambda>v. dv_status v = DevDeleting) (devices d))) d)"

section \<open>Adoption of legacy Xray clients\<close>

definition legacy_xray_device :: "(string \<Rightarrow> string) \<Rightarrow> string \<Rightarrow> string \<times> string" where
  "legacy_xray_device u5 profile_id =
     (u5 (''node-plane:xray-device:'' @ profile_id), ''d_'' @ uuid_hex (u5 (''node-plane:xray-device-runtime:'' @ profile_id)))"

definition device_title :: "nat \<Rightarrow> string" where "device_title n = ''Device '' @ nat_str n"

definition free_number :: "(string \<Rightarrow> string) \<Rightarrow> device_row list \<Rightarrow> nat tx" where
  "free_number casefold own =
     (let names = remdups (map (\<lambda>v. casefold (dv_display_name v)) (filter (\<lambda>v. dv_status v \<noteq> DevRetired) own))
      in case find (\<lambda>n. ''device '' @ nat_str n \<notin> set names) [1..<length names + 2] of
           None \<Rightarrow> Inl StopIteration | Some n \<Rightarrow> Inr n)"

text \<open>The device that takes over the profile's client: an existing one, or a new one.\<close>

definition adopting_device ::
  "(string \<Rightarrow> string) \<Rightarrow> (string \<Rightarrow> string) \<Rightarrow> profile_row \<Rightarrow> device_row list \<Rightarrow> bool \<Rightarrow> instant \<Rightarrow> (device_row \<times> bool) tx" where
  "adopting_device casefold u5 p own granted created_at =
     (let active = filter (\<lambda>v. dv_status v = DevActive) own in
      case find (\<lambda>v. dv_runtime_name v = pf_runtime_name p) active of
        Some v \<Rightarrow> Inr (v, False)
      | None \<Rightarrow> (case active of
          v # _ \<Rightarrow> Inr (v, False)
        | [] \<Rightarrow>
            if own = [] then Inr (default_device u5 p (Some created_at) created_at, True)
            else if granted then
              res_bind (free_number casefold own) (\<lambda>n. let (i, name) = legacy_xray_device u5 (pf_id p) in
                Inr (\<lparr>dv_id = i, dv_profile = pf_id p, dv_display_name = device_title n, dv_runtime_name = name, dv_status = DevActive,
                      dv_revision = 1, dv_created_at = created_at\<rparr>, True))
            else Inr (last own, False)))"

definition adopt_identity ::
  "(string \<Rightarrow> string) \<Rightarrow> (string \<Rightarrow> string) \<Rightarrow> profile_row list \<Rightarrow> device_row list \<Rightarrow> grant_row list \<Rightarrow> device_credential_row list
   \<Rightarrow> string list \<Rightarrow> instant \<Rightarrow> identity_row \<Rightarrow> device_row list \<times> device_credential_row list \<Rightarrow> (device_row list \<times> device_credential_row list) tx" where
  "adopt_identity casefold u5 ps vs gs cs legacy created_at i acc =
     (case find (\<lambda>p. pf_id p = pi_profile i) ps of
        None \<Rightarrow> Inr acc
      | Some p \<Rightarrow>
          if (\<exists>c \<in> set cs. dc_protocol c = Xray \<and> dc_profile c = pf_id p) \<or> pf_id p \<notin> set legacy then Inr acc
          else
            res_bind (adopting_device casefold u5 p
                (order_by (\<lambda>v. (dv_created_at v, dv_id v)) (filter (\<lambda>v. dv_profile v = pf_id p) vs))
                (\<exists>g \<in> set gs. gr_protocol g = Xray \<and> gr_profile g = pf_id p) created_at)
              (\<lambda>(v, new). Inr (fst acc @ (if new then [v] else []),
                 snd acc @ [\<lparr>dc_device = dv_id v, dc_profile = pf_id p, dc_protocol = Xray, dc_runtime_name = pf_runtime_name p,
                             dc_uuid = pi_xray_uuid i, dc_revision = 1\<rparr>])))"

definition adopt_clients ::
  "(string \<Rightarrow> string) \<Rightarrow> (string \<Rightarrow> string) \<Rightarrow> profile_row list \<Rightarrow> device_row list \<Rightarrow> identity_row list \<Rightarrow> grant_row list
   \<Rightarrow> device_credential_row list \<Rightarrow> string list \<Rightarrow> instant \<Rightarrow> (device_row list \<times> device_credential_row list) tx" where
  "adopt_clients casefold u5 ps vs ids gs cs legacy created_at =
     res_fold (adopt_identity casefold u5 ps vs gs cs legacy created_at) (sort_key pi_profile ids) ([], [])"

definition name_peers :: "device_credential_row \<Rightarrow> db \<Rightarrow> db" where
  "name_peers c d = d\<lparr>tasks := update_where (unnamed_peer d Xray (dc_profile c)) (\<lambda>t. t\<lparr>tk_device := dc_device c\<rparr>) (tasks d)\<rparr>"

definition insert_adopted :: "device_row list \<Rightarrow> device_credential_row list \<Rightarrow> db \<Rightarrow> db" where
  "insert_adopted vs cs d =
     fold (\<lambda>c d. name_peers c (d\<lparr>device_credentials := device_credentials d @ [c]\<rparr>)) cs (d\<lparr>devices := devices d @ vs\<rparr>)"

definition adopt_existing :: "(string \<Rightarrow> string) \<Rightarrow> (string \<Rightarrow> string) \<Rightarrow> instant \<Rightarrow> db \<Rightarrow> db tx" where
  "adopt_existing casefold u5 now d =
     res_bind (adopt_clients casefold u5 (profiles d) (devices d) (identities d) (grants d) (device_credentials d)
         (filter (\<lambda>p. \<exists>t \<in> set (tasks d). unnamed_peer d Xray p t) (map op_profile (operations d))) now)
       (\<lambda>(vs, cs). Inr (insert_adopted vs cs d))"

section \<open>Reconciling derived grants\<close>

definition bump_revision :: "string \<Rightarrow> db \<Rightarrow> db" where
  "bump_revision profile_id d = d\<lparr>profiles := update_where (\<lambda>p. pf_id p = profile_id)
     (\<lambda>p. p\<lparr>pf_desired_revision := pf_desired_revision p + 1\<rparr>) (profiles d)\<rparr>"

definition reconciled_profiles :: "db \<Rightarrow> string list" where
  "reconciled_profiles d = sort (remdups (map fst (grant_policies d) @ filter (is_admin_profile d) (map pf_id (profiles d))))"

definition reconcile_profile :: "actor \<Rightarrow> instant \<Rightarrow> string \<Rightarrow> db \<times> string list \<Rightarrow> (db \<times> string list) tx" where
  "reconcile_profile actor now profile_id acc =
     (let previous = profile_targets (fst acc) profile_id; (d, changed) = materialize profile_id (fst acc) in
      if changed then
        res_bind (record_operation (ac_id (actor_account actor)) profile_id previous None now (bump_revision profile_id d))
          (\<lambda>(e, _). Inr (e, snd acc @ [profile_id]))
      else Inr (d, snd acc))"

definition reconcile :: "actor \<Rightarrow> instant \<Rightarrow> db \<Rightarrow> (db \<times> string list) tx" where
  "reconcile actor now d = res_fold (reconcile_profile actor now) (reconciled_profiles d) (d, [])"

section \<open>Removal is confirmed by every node\<close>

lemma set_peer_tasks [simp]: "set (peer_tasks d profile_id peer_id) = {t \<in> set (tasks d). of_peer d profile_id peer_id t}"
  by (simp add: peer_tasks_def)

lemma task_order_id: "task_order d t = task_order d t' \<Longrightarrow> tk_id t = tk_id t'"
  by (auto simp: task_order_def split: option.splits)

lemma peer_tasks_sorted:
  assumes "distinct (map tk_id (tasks d))"
  shows "sorted_wrt (\<lambda>t t'. task_order d t' < task_order d t) (peer_tasks d profile_id peer_id)"
proof -
  let ?xs = "filter (of_peer d profile_id peer_id) (tasks d)"
  have "distinct (map (task_order d) ?xs)"
    unfolding distinct_map
  proof (intro conjI inj_onI)
    show "distinct ?xs" using assms by (simp add: distinct_map)
    show "x = y" if "x \<in> set ?xs" "y \<in> set ?xs" "task_order d x = task_order d y" for x y
      using distinct_keyD [OF assms, of x y] task_order_id [OF that(3)] that by simp
  qed
  then have "distinct (map (task_order d) (order_by (task_order d) ?xs))"
    by (simp add: order_by_def distinct_map)
  moreover have "sorted (map (task_order d) (order_by (task_order d) ?xs))" by (simp add: order_by_def)
  ultimately have "sorted_wrt (<) (map (task_order d) (order_by (task_order d) ?xs))"
    by (simp add: strict_sorted_iff)
  then show ?thesis by (simp add: peer_tasks_def sorted_wrt_rev sorted_wrt_map)
qed

text \<open>The first task of a node in the list is its newest.\<close>

lemma latest_per_node_iff:
  "sorted_wrt (\<lambda>t t'. k t' < k t) ts \<Longrightarrow>
   t \<in> set (latest_per_node seen ts) \<longleftrightarrow>
     t \<in> set ts \<and> tk_node t \<notin> set seen \<and> (\<forall>t' \<in> set ts. tk_node t' = tk_node t \<longrightarrow> (k t' :: 'k::linorder) \<le> k t)"
proof (induction seen ts rule: latest_per_node.induct)
  case (2 seen x ts)
  show ?case
  proof (cases "tk_node x \<in> set seen")
    case True
    with 2 show ?thesis by auto
  next
    case False
    with 2 have "t \<in> set (latest_per_node (tk_node x # seen) ts) \<longleftrightarrow>
       t \<in> set ts \<and> tk_node t \<notin> set (tk_node x # seen) \<and> (\<forall>t' \<in> set ts. tk_node t' = tk_node t \<longrightarrow> k t' \<le> k t)" by simp
    with 2(3) False show ?thesis by (auto simp: less_imp_le not_le)
  qed
qed simp

definition newest :: "db \<Rightarrow> string \<Rightarrow> string \<Rightarrow> task_row \<Rightarrow> bool" where
  "newest d profile_id peer_id t = (\<forall>t' \<in> set (tasks d). of_peer d profile_id peer_id t' \<and> tk_node t' = tk_node t \<longrightarrow> task_order d t' \<le> task_order d t)"

text \<open>What a node has to have reported about a peer's removal: nothing is under way, and its newest task removed it.\<close>

definition revoked_everywhere :: "db \<Rightarrow> string \<Rightarrow> string \<Rightarrow> bool" where
  "revoked_everywhere d profile_id peer_id = (\<forall>t \<in> set (tasks d). of_peer d profile_id peer_id t \<and> \<not> verified_retired d (tk_node t)
     \<longrightarrow> (newest d profile_id peer_id t \<longrightarrow> tk_action t = Delete \<and> tk_status t = Succeeded))"

lemma latest_done_iff:
  assumes "distinct (map tk_id (tasks d))"
  shows "list_all (removal_done d) (latest_per_node [] (peer_tasks d profile_id peer_id)) \<longleftrightarrow> revoked_everywhere d profile_id peer_id"
  unfolding list_all_iff Ball_def latest_per_node_iff [OF peer_tasks_sorted [OF assms]]
  by (auto simp: revoked_everywhere_def removal_done_def newest_def)

lemma removal_confirmed_iff:
  assumes "distinct (map tk_id (tasks d))"
  shows "removal_confirmed d v \<longleftrightarrow> revoked_everywhere d (dv_profile v) (dv_id v)
    \<and> (\<forall>t \<in> set (tasks d). of_peer d (dv_profile v) (dv_id v) t \<and> \<not> verified_retired d (tk_node t)
        \<longrightarrow> tk_status t \<notin> {Awaiting, Running, OpBlocked})"
  unfolding removal_confirmed_def Let_def latest_done_iff [OF assms] by (auto simp: list_ex_iff unsettled_def)

text \<open>Settling changes neither tasks nor operations nor retirements, so each decision is that of the state at the start.\<close>

lemma peer_tasks_cong:
  "tasks e = tasks d \<Longrightarrow> operations e = operations d \<Longrightarrow> peer_tasks e = peer_tasks d"
  by (simp add: peer_tasks_def [abs_def] of_peer_def [abs_def] task_order_def [abs_def] task_of_profile_def find_operation_def)

lemma removal_cong:
  assumes "tasks e = tasks d" and "operations e = operations d" and "node_retirements e = node_retirements d"
  shows "removal_confirmed e = removal_confirmed d" "removal_done e = removal_done d"
proof -
  have v: "verified_retired e = verified_retired d" using assms(3) by (simp add: verified_retired_def [abs_def])
  show "removal_done e = removal_done d" by (simp add: removal_done_def [abs_def] v)
  moreover have "unsettled e = unsettled d" by (simp add: unsettled_def [abs_def] v)
  ultimately show "removal_confirmed e = removal_confirmed d"
    by (simp add: removal_confirmed_def [abs_def] peer_tasks_cong [OF assms(1,2)])
qed

lemma fold_frame: "(\<And>x s. g (f x s) = g s) \<Longrightarrow> g (fold f xs s) = g s"
  by (induction xs arbitrary: s) simp_all

lemma settle_retired_peers_fields [simp]:
  "devices (settle_retired_peers d) = devices d" "tasks (settle_retired_peers d) = tasks d"
  "profiles (settle_retired_peers d) = profiles d" "operations (settle_retired_peers d) = operations d"
  "device_commands (settle_retired_peers d) = device_commands d"
  unfolding settle_retired_peers_def by (rule fold_frame, simp)+

definition retire_confirmed :: "device_row \<Rightarrow> db \<Rightarrow> db" where
  "retire_confirmed v d = (if removal_confirmed d v
     then d\<lparr>devices := update_where (\<lambda>q. dv_id q = dv_id v \<and> dv_status q = DevDeleting) (\<lambda>q. q\<lparr>dv_status := DevRetired\<rparr>) (devices d)\<rparr> else d)"

lemma fold_retire_confirmed:
  "(\<forall>v \<in> set vs. removal_confirmed d v = R (dv_id v)) \<Longrightarrow>
   fold retire_confirmed vs d = d\<lparr>devices := update_where (\<lambda>q. dv_id q \<in> dv_id ` set vs \<and> R (dv_id q) \<and> dv_status q = DevDeleting)
     (\<lambda>q. q\<lparr>dv_status := DevRetired\<rparr>) (devices d)\<rparr>"
proof (induction vs arbitrary: d)
  case Nil
  then show ?case by (simp add: update_where_def)
next
  case (Cons v vs)
  let ?d = "retire_confirmed v d"
  have same: "removal_confirmed ?d = removal_confirmed d" by (rule removal_cong) (simp_all add: retire_confirmed_def)
  have "fold retire_confirmed vs ?d = ?d\<lparr>devices := update_where (\<lambda>q. dv_id q \<in> dv_id ` set vs \<and> R (dv_id q) \<and> dv_status q = DevDeleting)
     (\<lambda>q. q\<lparr>dv_status := DevRetired\<rparr>) (devices ?d)\<rparr>" using Cons.prems by (intro Cons.IH) (simp add: same)
  moreover have "update_where (\<lambda>q. dv_id q \<in> dv_id ` set vs \<and> R (dv_id q) \<and> dv_status q = DevDeleting) (\<lambda>q. q\<lparr>dv_status := DevRetired\<rparr>) (devices ?d)
    = update_where (\<lambda>q. dv_id q \<in> dv_id ` set (v # vs) \<and> R (dv_id q) \<and> dv_status q = DevDeleting) (\<lambda>q. q\<lparr>dv_status := DevRetired\<rparr>) (devices d)"
    using Cons.prems by (cases "R (dv_id v)") (auto simp: retire_confirmed_def update_where_def)
  moreover have "?d\<lparr>devices := vs'\<rparr> = d\<lparr>devices := vs'\<rparr>" for vs' by (simp add: retire_confirmed_def)
  ultimately show ?case by simp
qed

lemma settle_deletions_devices:
  assumes "distinct (map dv_id (devices d))"
  shows "devices (settle_deletions d) = map (\<lambda>v. if dv_status v = DevDeleting \<and> removal_confirmed d v then v\<lparr>dv_status := DevRetired\<rparr> else v) (devices d)"
proof -
  let ?vs = "order_by dv_id (filter (\<lambda>v. dv_status v = DevDeleting) (devices d))"
  define R where "R i = (\<exists>v \<in> set (devices d). dv_id v = i \<and> removal_confirmed d v)" for i
  have R: "R (dv_id v) = removal_confirmed d v" if "v \<in> set (devices d)" for v
    using that distinct_keyD [OF assms that] unfolding R_def by metis
  have "fold retire_confirmed ?vs d = d\<lparr>devices := update_where (\<lambda>q. dv_id q \<in> dv_id ` set ?vs \<and> R (dv_id q) \<and> dv_status q = DevDeleting)
     (\<lambda>q. q\<lparr>dv_status := DevRetired\<rparr>) (devices d)\<rparr>" by (rule fold_retire_confirmed) (simp add: R)
  moreover have "settle_deletions d = settle_retired_peers (fold retire_confirmed ?vs d)"
    by (simp add: settle_deletions_def retire_confirmed_def [abs_def])
  ultimately show ?thesis by (auto simp: update_where_def R)
qed

text \<open>C25. Settling retires a device under deletion exactly when every node that is not retired with proof has confirmed
  its removal: no task of the device is waiting, running or blocked there, and the newest task of each node is a
  deletion that succeeded. No other device changes.\<close>

theorem settle_deletions_exact:
  assumes "distinct (map dv_id (devices d))" and "distinct (map tk_id (tasks d))"
  shows "devices (settle_deletions d) = map (\<lambda>v.
    if dv_status v = DevDeleting
       \<and> (\<forall>t \<in> set (tasks d). of_peer d (dv_profile v) (dv_id v) t \<and> \<not> verified_retired d (tk_node t)
            \<longrightarrow> tk_status t \<notin> {Awaiting, Running, OpBlocked}
              \<and> (newest d (dv_profile v) (dv_id v) t \<longrightarrow> tk_action t = Delete \<and> tk_status t = Succeeded))
    then v\<lparr>dv_status := DevRetired\<rparr> else v) (devices d)"
proof -
  have "removal_confirmed d v \<longleftrightarrow> (\<forall>t \<in> set (tasks d). of_peer d (dv_profile v) (dv_id v) t \<and> \<not> verified_retired d (tk_node t)
            \<longrightarrow> tk_status t \<notin> {Awaiting, Running, OpBlocked}
              \<and> (newest d (dv_profile v) (dv_id v) t \<longrightarrow> tk_action t = Delete \<and> tk_status t = Succeeded))" for v
    unfolding removal_confirmed_iff [OF assms(2)] revoked_everywhere_def by blast
  then show ?thesis by (simp add: settle_deletions_devices [OF assms(1)])
qed

section \<open>Adoption\<close>

lemma nat_str_not_Nil [simp]: "nat_str n \<noteq> []"
  by (subst nat_str.simps) simp

lemma digit_char_inj: "char_of (48 + a) = (char_of (48 + b) :: char) \<Longrightarrow> a < 10 \<Longrightarrow> b < 10 \<Longrightarrow> a = b" for a b :: nat
  by (drule arg_cong [where f = "of_char :: char \<Rightarrow> nat"]) (simp add: of_char_of take_bit_eq_mod)

lemma nat_str_short: "n < 10 \<Longrightarrow> nat_str n = [char_of (48 + n)]"
  by (subst nat_str.simps) simp

lemma nat_str_long: "\<not> n < 10 \<Longrightarrow> nat_str n = nat_str (n div 10) @ [char_of (48 + n mod 10)]"
  by (subst nat_str.simps) simp

lemma nat_str_inj: "nat_str m = nat_str n \<Longrightarrow> m = n"
proof (induction m arbitrary: n rule: nat_str.induct)
  case (1 m)
  consider "m < 10" "n < 10" | "m < 10" "\<not> n < 10" | "\<not> m < 10" "n < 10" | "\<not> m < 10" "\<not> n < 10" by blast
  then show ?case
  proof cases
    case 1
    with \<open>nat_str m = nat_str n\<close> show ?thesis using digit_char_inj [of m n] by (simp add: nat_str_short)
  next
    case 4
    with \<open>nat_str m = nat_str n\<close> have "nat_str (m div 10) = nat_str (n div 10)" "char_of (48 + m mod 10) = (char_of (48 + n mod 10) :: char)"
      by (simp_all add: nat_str_long)
    then have "m div 10 = n div 10" "m mod 10 = n mod 10" using 4(1) 1 digit_char_inj [of "m mod 10" "n mod 10"] by simp_all
    then show ?thesis by (metis div_mult_mod_eq)
  qed (use \<open>nat_str m = nat_str n\<close> in \<open>simp_all add: nat_str_short nat_str_long nat_str_not_Nil [symmetric]\<close>)
qed

text \<open>Among \<open>len(names) + 1\<close> numbers one is free.\<close>

lemma free_number_total: "\<exists>n. free_number casefold own = Inr n \<and> 1 \<le> n
  \<and> (\<forall>v \<in> set own. dv_status v \<noteq> DevRetired \<longrightarrow> casefold (dv_display_name v) \<noteq> ''device '' @ nat_str n)"
proof -
  define names where "names = remdups (map (\<lambda>v. casefold (dv_display_name v)) (filter (\<lambda>v. dv_status v \<noteq> DevRetired) own))"
  have "inj (\<lambda>n. ''device '' @ nat_str n)" by (rule injI) (simp add: nat_str_inj)
  then have "card ((\<lambda>n. ''device '' @ nat_str n) ` {1..<length names + 2}) = length names + 1"
    by (subst card_image) (auto intro: inj_on_subset)
  moreover have "card (set names) = length names" by (rule distinct_card) (simp add: names_def)
  ultimately have "\<not> (\<lambda>n. ''device '' @ nat_str n) ` {1..<length names + 2} \<subseteq> set names"
    using card_mono [OF finite_set, of _ names] by (metis Suc_eq_plus1 not_less_eq_eq le_refl)
  then obtain k where "k \<in> {1..<length names + 2}" "''device '' @ nat_str k \<notin> set names" by blast
  then have "find (\<lambda>n. ''device '' @ nat_str n \<notin> set names) [1..<length names + 2] \<noteq> None"
    unfolding find_None_iff' set_upt by blast
  then obtain n where f: "find (\<lambda>n. ''device '' @ nat_str n \<notin> set names) [1..<length names + 2] = Some n" by blast
  have "1 \<le> n" "''device '' @ nat_str n \<notin> set names" using find_Some_iff [OF f] unfolding set_upt atLeastLessThan_iff by blast+
  moreover have "casefold (dv_display_name v) \<in> set names" if "v \<in> set own" "dv_status v \<noteq> DevRetired" for v
    using that by (simp add: names_def)
  ultimately have "\<forall>v \<in> set own. dv_status v \<noteq> DevRetired \<longrightarrow> casefold (dv_display_name v) \<noteq> ''device '' @ nat_str n"
    by metis
  with f \<open>1 \<le> n\<close> show ?thesis by (simp add: free_number_def names_def Let_def)
qed

lemma adopting_device_ok:
  assumes "\<forall>v \<in> set own. dv_profile v = pf_id p"
  shows "\<exists>v new. adopting_device casefold u5 p own granted created_at = Inr (v, new)
    \<and> dv_profile v = pf_id p \<and> (\<not> new \<longrightarrow> v \<in> set own) \<and> (granted \<or> own = [] \<longrightarrow> dv_status v = DevActive)"
proof -
  let ?active = "filter (\<lambda>v. dv_status v = DevActive) own"
  consider (named) v where "find (\<lambda>v. dv_runtime_name v = pf_runtime_name p) ?active = Some v"
    | (first) v vs where "find (\<lambda>v. dv_runtime_name v = pf_runtime_name p) ?active = None" "?active = v # vs"
    | (none) "?active = []" by (cases "find (\<lambda>v. dv_runtime_name v = pf_runtime_name p) ?active"; cases ?active) auto
  then show ?thesis
  proof cases
    case named
    with find_Some_iff [OF named] assms show ?thesis
      by (intro exI [of _ v] exI [of _ False]) (simp add: adopting_device_def)
  next
    case first
    then have "v \<in> set ?active" by simp
    then have "v \<in> set own" "dv_status v = DevActive" by simp_all
    moreover have "adopting_device casefold u5 p own granted created_at = Inr (v, False)"
      unfolding adopting_device_def Let_def first(1) unfolding first(2) by simp
    ultimately show ?thesis using assms by blast
  next
    case none
    obtain n where "free_number casefold own = Inr n" using free_number_total by blast
    with none assms show ?thesis
      by (auto simp: adopting_device_def default_device_def legacy_xray_device_def)
  qed
qed

text \<open>The clients to adopt: a stored identity of a profile that had a profile-wide client and has no device client yet.\<close>

definition legacy_clients :: "profile_row list \<Rightarrow> device_credential_row list \<Rightarrow> string list \<Rightarrow> identity_row list \<Rightarrow> (string \<times> string \<times> string) list" where
  "legacy_clients ps cs legacy ids = concat (map (\<lambda>i. case find (\<lambda>p. pf_id p = pi_profile i) ps of
     Some p \<Rightarrow> if (\<exists>c \<in> set cs. dc_protocol c = Xray \<and> dc_profile c = pf_id p) \<or> pf_id p \<notin> set legacy then []
               else [(pf_id p, pf_runtime_name p, pi_xray_uuid i)]
   | None \<Rightarrow> []) ids)"

abbreviation client_of :: "device_credential_row \<Rightarrow> string \<times> string \<times> string" where
  "client_of c \<equiv> (dc_profile c, dc_runtime_name c, dc_uuid c)"

definition held_by :: "device_row list \<Rightarrow> grant_row list \<Rightarrow> device_credential_row \<Rightarrow> bool" where
  "held_by vs gs c = (\<exists>v \<in> set vs. dv_id v = dc_device c \<and> dv_profile v = dc_profile c
     \<and> ((\<exists>g \<in> set gs. gr_protocol g = Xray \<and> gr_profile g = dc_profile c) \<longrightarrow> dv_status v = DevActive))"

lemma adopt_identity_ok:
  "\<exists>vs' cs'. adopt_identity casefold u5 ps vs gs cs legacy created_at i acc = Inr (fst acc @ vs', snd acc @ cs')
     \<and> map client_of cs' = legacy_clients ps cs legacy [i] \<and> (\<forall>c \<in> set cs'. held_by (vs @ vs') gs c)"
proof (cases "legacy_clients ps cs legacy [i] = []")
  case True
  then have "adopt_identity casefold u5 ps vs gs cs legacy created_at i acc = Inr acc"
    by (auto simp: adopt_identity_def legacy_clients_def split: option.splits if_splits)
  with True show ?thesis by (intro exI [of _ "[]"]) simp
next
  case False
  then obtain p where p: "find (\<lambda>p. pf_id p = pi_profile i) ps = Some p"
      "\<not> ((\<exists>c \<in> set cs. dc_protocol c = Xray \<and> dc_profile c = pf_id p) \<or> pf_id p \<notin> set legacy)"
    by (auto simp: legacy_clients_def split: option.splits if_splits)
  let ?own = "order_by (\<lambda>v. (dv_created_at v, dv_id v)) (filter (\<lambda>v. dv_profile v = pf_id p) vs)"
  obtain v new where v: "adopting_device casefold u5 p ?own (\<exists>g \<in> set gs. gr_protocol g = Xray \<and> gr_profile g = pf_id p) created_at = Inr (v, new)"
    "dv_profile v = pf_id p" "\<not> new \<longrightarrow> v \<in> set vs" "(\<exists>g \<in> set gs. gr_protocol g = Xray \<and> gr_profile g = pf_id p) \<longrightarrow> dv_status v = DevActive"
    using adopting_device_ok [of ?own p casefold u5 "\<exists>g \<in> set gs. gr_protocol g = Xray \<and> gr_profile g = pf_id p" created_at] by auto
  let ?c = "\<lparr>dc_device = dv_id v, dc_profile = pf_id p, dc_protocol = Xray, dc_runtime_name = pf_runtime_name p,
      dc_uuid = pi_xray_uuid i, dc_revision = 1\<rparr>"
  have "adopt_identity casefold u5 ps vs gs cs legacy created_at i acc = Inr (fst acc @ (if new then [v] else []), snd acc @ [?c])"
    using p v(1) by (simp add: adopt_identity_def if_not_P)
  moreover have "held_by (vs @ (if new then [v] else [])) gs ?c"
    unfolding held_by_def by (rule bexI [of _ v]) (use v in auto)
  moreover have "legacy_clients ps cs legacy [i] = [client_of ?c]" using p by (simp add: legacy_clients_def)
  ultimately show ?thesis by (intro exI [of _ "if new then [v] else []"] exI [of _ "[?c]"]) simp
qed

lemma held_by_mono: "held_by vs gs c \<Longrightarrow> set vs \<subseteq> set ws \<Longrightarrow> held_by ws gs c"
  by (auto simp: held_by_def)

lemma adopt_fold_ok:
  "\<exists>vs' cs'. res_fold (adopt_identity casefold u5 ps vs gs cs legacy created_at) ids acc = Inr (fst acc @ vs', snd acc @ cs')
     \<and> map client_of cs' = legacy_clients ps cs legacy ids \<and> (\<forall>c \<in> set cs'. held_by (vs @ vs') gs c)"
proof (induction ids arbitrary: acc)
  case Nil
  then show ?case by (intro exI [of _ "[]"]) (simp add: legacy_clients_def)
next
  case (Cons i ids)
  obtain v1 c1 where one: "adopt_identity casefold u5 ps vs gs cs legacy created_at i acc = Inr (fst acc @ v1, snd acc @ c1)"
    "map client_of c1 = legacy_clients ps cs legacy [i]" "\<forall>c \<in> set c1. held_by (vs @ v1) gs c" using adopt_identity_ok by blast
  obtain v2 c2 where rest: "res_fold (adopt_identity casefold u5 ps vs gs cs legacy created_at) ids (fst acc @ v1, snd acc @ c1)
      = Inr (fst acc @ v1 @ v2, snd acc @ c1 @ c2)"
    "map client_of c2 = legacy_clients ps cs legacy ids" "\<forall>c \<in> set c2. held_by (vs @ v2) gs c"
    using Cons.IH [of "(fst acc @ v1, snd acc @ c1)"] by auto
  have "\<forall>c \<in> set (c1 @ c2). held_by (vs @ v1 @ v2) gs c"
    using one(3) rest(3) held_by_mono [of "vs @ v1" gs _ "vs @ v1 @ v2"] held_by_mono [of "vs @ v2" gs _ "vs @ v1 @ v2"] by auto
  moreover have "map client_of (c1 @ c2) = legacy_clients ps cs legacy (i # ids)"
    using one(2) rest(2) by (simp add: legacy_clients_def)
  ultimately show ?case using one(1) rest(1) by (intro exI [of _ "v1 @ v2"] exI [of _ "c1 @ c2"]) simp
qed

text \<open>Adoption always succeeds and hands every profile-wide Xray client over unchanged: each profile that had one and
  has no device client yet gets exactly one credential, with its old identifier and runtime name, so that its issued
  links keep working; the credential belongs to a device of that profile, and to an active one if the profile still
  has an Xray grant.\<close>

theorem adopt_clients_complete:
  "\<exists>vs' cs'. adopt_clients casefold u5 ps vs ids gs cs legacy created_at = Inr (vs', cs')
     \<and> map client_of cs' = legacy_clients ps cs legacy (sort_key pi_profile ids) \<and> (\<forall>c \<in> set cs'. held_by (vs @ vs') gs c)"
  using adopt_fold_ok [of casefold u5 ps vs gs cs legacy created_at "sort_key pi_profile ids" "([], [])"]
  by (simp add: adopt_clients_def)

section \<open>Reconciling\<close>

text \<open>What the effective grants of every profile depend on, besides its own policy and grants.\<close>

definition same_access :: "db \<Rightarrow> db \<Rightarrow> bool" where
  "same_access d e = (accounts e = accounts d \<and> map (\<lambda>p. (pf_id p, pf_owner p)) (profiles e) = map (\<lambda>p. (pf_id p, pf_owner p)) (profiles d)
     \<and> nodes e = nodes d \<and> node_regions e = node_regions d \<and> node_drains e = node_drains d \<and> node_retirements e = node_retirements d
     \<and> profile_deletions e = profile_deletions d)"

lemma same_access_refl [simp]: "same_access d d" by (simp add: same_access_def)

lemma same_access_trans: "same_access a b \<Longrightarrow> same_access b c \<Longrightarrow> same_access a c" by (simp add: same_access_def)

lemma is_admin_profile_keys:
  "is_admin_profile d pid \<longleftrightarrow> (\<exists>k \<in> set (map (\<lambda>p. (pf_id p, pf_owner p)) (profiles d)). fst k = pid
     \<and> (\<exists>a \<in> set (accounts d). snd k = Some (acc_id a) \<and> acc_role a = ''admin''))"
  by (auto simp: is_admin_profile_def)

lemma same_access_admin: "same_access d e \<Longrightarrow> is_admin_profile e = is_admin_profile d"
  unfolding same_access_def is_admin_profile_keys [abs_def] by simp

lemma same_access_effective:
  assumes "same_access d e" and "map_of (grant_policies e) pid = map_of (grant_policies d) pid" and "profile_grants e pid = profile_grants d pid"
  shows "effective_grants e pid = effective_grants d pid"
proof -
  have "derivable e = derivable d" using assms(1) by (simp add: derivable_def [abs_def] same_access_def)
  then have "derived e v None None = derived d v None None" for v
    using assms(1) by (intro derived_cong) (simp_all add: same_access_def)
  moreover have "read_policy e pid = read_policy d pid"
    using assms(2) by (simp add: read_policy_def raw_read_def same_access_admin [OF assms(1)] assms(3) split: option.split)
  moreover have "nodes e = nodes d" "profile_deletions e = profile_deletions d" using assms(1) unfolding same_access_def by blast+
  ultimately show ?thesis by (simp add: effective_grants_def Let_def same_access_admin [OF assms(1)])
qed

lemma record_operation_frame:
  assumes "record_operation actor_id profile_id previous scoped now d = Inr (e, x)"
  shows "same_access d e" "grant_policies e = grant_policies d" "grants e = grants d" "profiles e = profiles d" "devices e = devices d"
    "device_commands e = device_commands d"
  using record_operation_outbox [OF assms] by (auto simp: outbox_only_def same_access_def)

lemma record_operation_total: "profile_id \<in> pf_id ` set (profiles d) \<Longrightarrow> \<exists>e oid st. record_operation actor_id profile_id previous scoped now d = Inr (e, oid, st)"
  by (cases "find_profile d profile_id")
     (auto simp: record_operation_def find_profile_def find_None_iff' Let_def draw_def)

lemma materialize_frame:
  "same_access d (fst (materialize pid d))" "q \<noteq> pid \<Longrightarrow> map_of (grant_policies (fst (materialize pid d))) q = map_of (grant_policies d) q"
  "profiles (fst (materialize pid d)) = profiles d"
  by (auto simp: materialize_eq with_member_policy_def store_policy_def same_access_def map_of_dict_set)

lemma bump_revision_frame:
  "same_access d (bump_revision pid d)" "grant_policies (bump_revision pid d) = grant_policies d" "grants (bump_revision pid d) = grants d"
  "pf_id ` set (profiles (bump_revision pid d)) = pf_id ` set (profiles d)" "devices (bump_revision pid d) = devices d"
proof -
  have "map pf_id (profiles (bump_revision pid d)) = map pf_id (profiles d)" unfolding bump_revision_def by (simp add: map_update_where)
  then show "pf_id ` set (profiles (bump_revision pid d)) = pf_id ` set (profiles d)" by (metis set_map)
qed (simp_all add: bump_revision_def same_access_def map_update_where)

text \<open>One profile's turn: its grants become its effective ones, and nothing another profile's access depends on changes.\<close>

lemma reconcile_profile_ok:
  assumes "pid \<in> pf_id ` set (profiles (fst acc))"
  shows "\<exists>e. reconcile_profile actor now pid acc = Inr (e, snd acc @ (if set (effective_grants (fst acc) pid) = set (profile_grants (fst acc) pid) then [] else [pid]))
     \<and> same_access (fst acc) e \<and> pf_id ` set (profiles e) = pf_id ` set (profiles (fst acc))
     \<and> set (profile_grants e pid) = set (effective_grants e pid) \<and> set (effective_grants e pid) = set (effective_grants (fst acc) pid)
     \<and> (\<forall>q. q \<noteq> pid \<longrightarrow> map_of (grant_policies e) q = map_of (grant_policies (fst acc)) q \<and> profile_grants e q = profile_grants (fst acc) q)"
proof -
  obtain d changed where acc: "acc = (d, changed)" by (cases acc)
  let ?m = "fst (materialize pid d)"
  have eff: "set (profile_grants ?m pid) = set (effective_grants ?m pid)" "set (effective_grants ?m pid) = set (effective_grants d pid)"
    using materialize_grants(1) [of pid d] materialize_effective [of pid d] by simp_all
  show ?thesis
  proof (cases "set (effective_grants d pid) = set (profile_grants d pid)")
    case True
    then have "reconcile_profile actor now pid acc = Inr (?m, changed)"
      by (simp add: reconcile_profile_def acc materialize_eq)
    with True eff materialize_frame(1) [of d pid] materialize_frame(3) [of pid d] materialize_frame(2) [of _ pid d] materialize_grants(2) [of _ pid d] show ?thesis by (auto simp: acc)
  next
    case False
    let ?b = "bump_revision pid ?m"
    obtain e oid st where r: "record_operation (ac_id (actor_account actor)) pid (profile_targets d pid) None now ?b = Inr (e, oid, st)"
    proof -
      have "pid \<in> pf_id ` set (profiles ?b)" using assms by (simp add: acc bump_revision_frame materialize_frame)
      from record_operation_total [OF this] show ?thesis using that by blast
    qed
    note f = record_operation_frame [OF r] bump_revision_frame(1) [of ?m pid] bump_revision_frame(2-5) [of pid ?m]
    have "reconcile_profile actor now pid acc = Inr (e, changed @ [pid])"
      using False r by (simp add: reconcile_profile_def acc materialize_eq)
    moreover have "same_access ?m e" using same_access_trans [OF f(7) f(1)] .
    moreover have g: "profile_grants e q = profile_grants ?m q" for q using f by (simp add: profile_grants_def)
    moreover have "effective_grants e pid = effective_grants ?m pid"
      using same_access_effective [OF \<open>same_access ?m e\<close>] f g by simp
    moreover have "pf_id ` set (profiles e) = pf_id ` set (profiles d)"
      using f materialize_frame(3) [of pid d] by simp
    ultimately show ?thesis
      using False eff f materialize_frame(1) [of d pid] materialize_frame(3) [of pid d] materialize_frame(2) [of _ pid d] materialize_grants(2) [of _ pid d] same_access_trans [of d ?m e] by (auto simp: acc)
  qed
qed

lemma reconcile_fold_ok:
  assumes "distinct ps" and "set ps \<subseteq> pf_id ` set (profiles (fst acc))"
  shows "\<exists>e. res_fold (reconcile_profile actor now) ps acc
       = Inr (e, snd acc @ filter (\<lambda>p. set (effective_grants (fst acc) p) \<noteq> set (profile_grants (fst acc) p)) ps)
     \<and> same_access (fst acc) e
     \<and> (\<forall>p \<in> set ps. set (profile_grants e p) = set (effective_grants e p) \<and> set (effective_grants e p) = set (effective_grants (fst acc) p))
     \<and> (\<forall>q. q \<notin> set ps \<longrightarrow> map_of (grant_policies e) q = map_of (grant_policies (fst acc)) q \<and> profile_grants e q = profile_grants (fst acc) q)"
  using assms
proof (induction ps arbitrary: acc)
  case (Cons p ps)
  obtain d changed where acc: "acc = (d, changed)" by (cases acc)
  let ?c = "changed @ (if set (effective_grants d p) = set (profile_grants d p) then [] else [p])"
  obtain e where e: "reconcile_profile actor now p acc = Inr (e, ?c)" "same_access d e" "pf_id ` set (profiles e) = pf_id ` set (profiles d)"
    "set (profile_grants e p) = set (effective_grants e p)" "set (effective_grants e p) = set (effective_grants d p)"
    "\<And>q. q \<noteq> p \<Longrightarrow> map_of (grant_policies e) q = map_of (grant_policies d) q" "\<And>q. q \<noteq> p \<Longrightarrow> profile_grants e q = profile_grants d q"
    using reconcile_profile_ok [of p acc actor now] Cons.prems by (auto simp: acc)
  have eff: "effective_grants e q = effective_grants d q" if "q \<noteq> p" for q
    using same_access_effective [OF e(2)] e(6,7) that by blast
  have "set ps \<subseteq> pf_id ` set (profiles (fst (e, ?c)))" using Cons.prems e(3) by (simp add: acc)
  then obtain f where f: "res_fold (reconcile_profile actor now) ps (e, ?c)
      = Inr (f, ?c @ filter (\<lambda>p. set (effective_grants e p) \<noteq> set (profile_grants e p)) ps)" "same_access e f"
    "\<And>q. q \<in> set ps \<Longrightarrow> set (profile_grants f q) = set (effective_grants f q) \<and> set (effective_grants f q) = set (effective_grants e q)"
    "\<And>q. q \<notin> set ps \<Longrightarrow> map_of (grant_policies f) q = map_of (grant_policies e) q \<and> profile_grants f q = profile_grants e q"
    using Cons.IH [of "(e, ?c)"] Cons.prems(1) unfolding fst_conv snd_conv distinct.simps by blast
  have "filter (\<lambda>q. set (effective_grants e q) \<noteq> set (profile_grants e q)) ps = filter (\<lambda>q. set (effective_grants d q) \<noteq> set (profile_grants d q)) ps"
  proof (rule filter_cong)
    fix q assume "q \<in> set ps"
    with Cons.prems(1) have "q \<noteq> p" by auto
    then show "(set (effective_grants e q) \<noteq> set (profile_grants e q)) = (set (effective_grants d q) \<noteq> set (profile_grants d q))"
      by (simp add: eff e(7))
  qed simp
  then have "res_fold (reconcile_profile actor now) (p # ps) acc
      = Inr (f, changed @ filter (\<lambda>q. set (effective_grants d q) \<noteq> set (profile_grants d q)) (p # ps))"
    using e(1) f(1) by simp
  moreover have "effective_grants f p = effective_grants e p"
    using same_access_effective [OF f(2)] f(4) Cons.prems(1) by simp
  moreover have "set (profile_grants f p) = set (profile_grants e p)" using f(4) [of p] Cons.prems(1) by simp
  moreover have "\<forall>q \<in> set ps. set (effective_grants f q) = set (effective_grants d q)" using f(3) eff Cons.prems(1) by (metis distinct.simps(2))
  moreover have "\<forall>q. q \<notin> set (p # ps) \<longrightarrow> map_of (grant_policies f) q = map_of (grant_policies d) q \<and> profile_grants f q = profile_grants d q"
    using f(4) e(6,7) by simp
  moreover have "same_access d f" using same_access_trans [OF e(2) f(2)] .
  ultimately show ?case using e(4,5) f(3) unfolding acc fst_conv snd_conv by (intro exI [of _ f]) auto
next
  case Nil
  then show ?case by (intro exI [of _ "fst acc"]) simp
qed

text \<open>What a turn writes besides the grants: nothing, or the next revision and one operation at it.\<close>

lemma record_operation_row:
  assumes "record_operation actor_id profile_id previous scoped now d = Inr (e, oid, st)"
  shows "\<exists>row p. operations e = operations d @ [row] \<and> op_id row = oid \<and> op_profile row = profile_id \<and> find_profile d profile_id = Some p
     \<and> op_desired_revision row = pf_desired_revision p"
proof -
  obtain p where p: "find_profile d profile_id = Some p" using assms by (cases "find_profile d profile_id") (auto simp: record_operation_def)
  let ?d1 = "ensure_clients profile_id (ensure_identity profile_id d)"
  obtain short ss k row d3 where d3: "d3 = ?d1\<lparr>drawn := k, operations := operations (?d1\<lparr>drawn := k\<rparr>) @ [row]\<rparr>" "e = fold (insert_task oid p short) ss d3"
    and row: "op_id row = oid" "op_profile row = profile_id" "op_desired_revision row = pf_desired_revision p"
    using record_operation_shape [OF assms p] by blast
  have "operations (fold (insert_task oid p short) ss x) = operations x" for x
    by (induction ss arbitrary: x) (simp_all add: insert_task_def draw_def)
  then have "operations e = operations d @ [row]" by (simp add: d3)
  with p row show ?thesis by blast
qed

lemma reconcile_profile_rows:
  assumes "reconcile_profile actor now pid (d, c) = Inr (e, c')"
  obtains (same) "c' = c" "profiles e = profiles d" "operations e = operations d"
  | (raised) row q where "c' = c @ [pid]" "profiles e = profiles (bump_revision pid d)" "operations e = operations d @ [row]" "op_profile row = pid"
    "find_profile e pid = Some q" "op_desired_revision row = pf_desired_revision q"
proof (cases "set (effective_grants d pid) = set (profile_grants d pid)")
  case True
  then have "e = fst (materialize pid d)" "c' = c" using assms by (auto simp: reconcile_profile_def materialize_eq)
  moreover have "operations (fst (materialize pid d)) = operations d" by (auto simp: materialize_eq with_member_policy_def store_policy_def)
  ultimately show thesis using same materialize_frame(3) by simp
next
  case False
  let ?b = "bump_revision pid (fst (materialize pid d))"
  from False assms obtain oid st where r: "record_operation (ac_id (actor_account actor)) pid (profile_targets d pid) None now ?b = Inr (e, oid, st)" "c' = c @ [pid]"
    by (auto simp: reconcile_profile_def materialize_eq res_bind_Inr_iff split: prod.splits)
  obtain row q where q: "operations e = operations ?b @ [row]" "op_profile row = pid" "find_profile ?b pid = Some q" "op_desired_revision row = pf_desired_revision q"
    using record_operation_row [OF r(1)] by blast
  have "profiles e = profiles (bump_revision pid d)"
    using record_operation_frame(4) [OF r(1)] materialize_frame(3) [of pid d] by (simp add: bump_revision_def)
  moreover have "operations ?b = operations d" by (auto simp: bump_revision_def materialize_eq with_member_policy_def store_policy_def)
  moreover have "find_profile e pid = Some q" using q(3) record_operation_frame(4) [OF r(1)] by (simp add: find_profile_def)
  ultimately show thesis using raised [of row q] r(2) q by simp
qed

definition raised_revisions :: "string list \<Rightarrow> profile_row list \<Rightarrow> profile_row list" where
  "raised_revisions changed ps = map (\<lambda>q. if pf_id q \<in> set changed then q\<lparr>pf_desired_revision := pf_desired_revision q + 1\<rparr> else q) ps"

lemma raised_find: "pid \<notin> set changed \<Longrightarrow> find (\<lambda>q. pf_id q = pid) (raised_revisions changed ps) = find (\<lambda>q. pf_id q = pid) ps"
  by (induction ps) (auto simp: raised_revisions_def)

lemma raised_after: "pid \<notin> set changed \<Longrightarrow> raised_revisions changed (profiles (bump_revision pid d)) = raised_revisions (pid # changed) (profiles d)"
  by (auto simp: raised_revisions_def bump_revision_def update_where_def)

lemma reconcile_fold_rows:
  assumes "res_fold (reconcile_profile actor now) ps (d, c) = Inr (e, c')" and "distinct ps"
  shows "\<exists>changed new. c' = c @ changed \<and> distinct changed \<and> set changed \<subseteq> set ps \<and> profiles e = raised_revisions changed (profiles d)
     \<and> operations e = operations d @ new \<and> map op_profile new = changed
     \<and> (\<forall>r \<in> set new. \<exists>q. find_profile e (op_profile r) = Some q \<and> op_desired_revision r = pf_desired_revision q)"
  using assms
proof (induction ps arbitrary: d c)
  case (Cons p ps)
  obtain d1 c1 where one: "reconcile_profile actor now p (d, c) = Inr (d1, c1)" and rest: "res_fold (reconcile_profile actor now) ps (d1, c1) = Inr (e, c')"
    using Cons.prems(1) by (cases "reconcile_profile actor now p (d, c)") auto
  obtain changed new where ih: "c' = c1 @ changed" "distinct changed" "set changed \<subseteq> set ps" "profiles e = raised_revisions changed (profiles d1)"
    "operations e = operations d1 @ new" "map op_profile new = changed"
    "\<forall>r \<in> set new. \<exists>q. find_profile e (op_profile r) = Some q \<and> op_desired_revision r = pf_desired_revision q"
    using Cons.IH [OF rest] Cons.prems(2) by auto
  have fresh: "p \<notin> set changed" using ih(3) Cons.prems(2) by auto
  from one show ?case
  proof (cases rule: reconcile_profile_rows)
    case same
    with ih show ?thesis by (intro exI [of _ changed] exI [of _ new]) auto
  next
    case (raised row q)
    have "find_profile e p = Some q" using raised(5) raised_find [OF fresh] by (simp add: find_profile_def ih(4))
    with raised ih fresh raised_after [OF fresh, of d] show ?thesis
      by (intro exI [of _ "p # changed"] exI [of _ "row # new"]) auto
  qed
qed (simp add: raised_revisions_def)

text \<open>The profiles that access rules decide about: those with a stored policy, and those of administrators.\<close>

definition governed :: "db \<Rightarrow> string \<Rightarrow> bool" where
  "governed d pid = (pid \<in> fst ` set (grant_policies d)
     \<or> (\<exists>q \<in> set (profiles d). \<exists>a \<in> set (accounts d). pf_id q = pid \<and> pf_owner q = Some (acc_id a) \<and> acc_role a = ''admin''))"

lemma governed_reconciled: "set (reconciled_profiles d) = {p. governed d p}"
  by (auto simp: reconciled_profiles_def governed_def is_admin_profile_def)

text \<open>C26. Reconciling succeeds when every stored policy belongs to a profile, and afterwards every profile with a stored
  policy and every profile of an administrator holds exactly the grants its policy gives it. It reports exactly the
  profiles whose grants were out of date; each of these moves to its next revision and gets one operation at that
  revision, and nothing else is written to the profiles or to the operations. The grants of the other profiles stay.\<close>

theorem reconcile_exact:
  assumes "fst ` set (grant_policies d) \<subseteq> pf_id ` set (profiles d)"
  shows "\<exists>e changed new. reconcile actor now d = Inr (e, changed) \<and> distinct changed
     \<and> set changed = {p. governed d p \<and> set (effective_grants d p) \<noteq> set (profile_grants d p)}
     \<and> (\<forall>p. governed d p \<longrightarrow> set (profile_grants e p) = set (effective_grants e p) \<and> set (effective_grants e p) = set (effective_grants d p))
     \<and> (\<forall>p. \<not> governed d p \<longrightarrow> profile_grants e p = profile_grants d p)
     \<and> profiles e = map (\<lambda>q. if pf_id q \<in> set changed then q\<lparr>pf_desired_revision := pf_desired_revision q + 1\<rparr> else q) (profiles d)
     \<and> operations e = operations d @ new \<and> map op_profile new = changed
     \<and> (\<forall>r \<in> set new. \<exists>q. find_profile e (op_profile r) = Some q \<and> op_desired_revision r = pf_desired_revision q)"
proof -
  have ps: "distinct (reconciled_profiles d)" "set (reconciled_profiles d) \<subseteq> pf_id ` set (profiles (fst (d, [])))"
    using assms by (auto simp: reconciled_profiles_def)
  obtain e changed where e: "reconcile actor now d = Inr (e, changed)"
    "changed = filter (\<lambda>p. set (effective_grants d p) \<noteq> set (profile_grants d p)) (reconciled_profiles d)"
    "\<forall>p \<in> set (reconciled_profiles d). set (profile_grants e p) = set (effective_grants e p) \<and> set (effective_grants e p) = set (effective_grants d p)"
    "\<forall>p. p \<notin> set (reconciled_profiles d) \<longrightarrow> profile_grants e p = profile_grants d p"
    using reconcile_fold_ok [OF ps, of actor now] unfolding reconcile_def fst_conv snd_conv by auto
  obtain new where "profiles e = raised_revisions changed (profiles d)" "operations e = operations d @ new" "map op_profile new = changed"
    "\<forall>r \<in> set new. \<exists>q. find_profile e (op_profile r) = Some q \<and> op_desired_revision r = pf_desired_revision q"
    using reconcile_fold_rows [OF e(1) [unfolded reconcile_def] ps(1)] by auto
  moreover have "distinct changed" "set changed = {p. governed d p \<and> set (effective_grants d p) \<noteq> set (profile_grants d p)}"
    using ps(1) unfolding e(2) governed_reconciled [symmetric] by (auto simp: governed_reconciled)
  ultimately show ?thesis using e(1,3,4) unfolding governed_reconciled raised_revisions_def by (intro exI [of _ e] exI [of _ changed] exI [of _ new]) simp
qed

section \<open>Witnesses\<close>

definition deleted_task :: "string \<Rightarrow> task_row" where
  "deleted_task i = \<lparr>tk_id = i, tk_operation = ''o1'', tk_node = ''n1'', tk_protocol = Awg, tk_device = ''v2'', tk_action = Delete, tk_status = Succeeded,
     tk_intent = \<lparr>in_profile = ''p1'', in_runtime_name = ''d_2'', in_desired_revision = 2, in_node = ''n1'', in_protocol = Awg, in_action = Delete,
       in_expires_at = None, in_xray = None\<rparr>\<rparr>"

definition settle_db :: db where
  "settle_db = operation_db\<lparr>operations := [\<lparr>op_id = ''o1'', op_profile = ''p1'', op_actor = ''a1'', op_desired_revision = 2, op_status = Succeeded, op_created_at = 1\<rparr>],
     tasks := [deleted_task ''t1'']\<rparr>"

theorem settle_deletions_exact_witness: "map dv_status (devices (settle_deletions settle_db)) = [DevActive, DevRetired]"
proof -
  have "distinct (map dv_id (devices settle_db))" "distinct (map tk_id (tasks settle_db))" by code_simp+
  from settle_deletions_exact [OF this] show ?thesis
    by (simp add: settle_db_def operation_db_def deleted_task_def)
qed

theorem reconcile_exact_witness:
  "\<exists>e changed. reconcile sample_owner 5 grant_db = Inr (e, changed) \<and> set (profile_grants e ''p1'') = {(''n1'', Awg)}"
proof -
  have "fst ` set (grant_policies grant_db) \<subseteq> pf_id ` set (profiles grant_db)" by code_simp
  from reconcile_exact [OF this, of sample_owner 5] obtain e changed where r: "reconcile sample_owner 5 grant_db = Inr (e, changed)"
    "\<forall>p. governed grant_db p \<longrightarrow> set (profile_grants e p) = set (effective_grants e p) \<and> set (effective_grants e p) = set (effective_grants grant_db p)"
    by blast
  have "governed grant_db ''p1''" "set (effective_grants grant_db ''p1'') = {(''n1'', Awg)}" by code_simp+
  with r show ?thesis by blast
qed

end
