(* ===== verification/Profile_Commands.thy ===== *)
theory Profile_Commands
  imports Account_Deletions Renewals Devices
begin

text \<open>
  \<^verbatim>\<open>app/backend/profile_commands.py\<close>: the commands on profiles. Each command is checked, applied to the desired state and
  recorded with an operation for the nodes in one transaction; its key makes it take effect once, its revision keeps it
  from overwriting another change. The digest of a request is the argument \<open>fp\<close>, and \<open>fromiso\<close> is
  \<open>datetime.fromisoformat\<close> on a text with an offset, \<open>None\<close> for any other text. The service instance of a grant, which
  the answer also shows, is not modelled.
\<close>

section \<open>Requests\<close>

record profile_request =
  pq_action :: string
  pq_profile :: "string option"
  pq_revision :: pyval
  pq_values :: "(string \<times> pyval) list"

definition ACTIONS :: "string list" where
  "ACTIONS = [''create'', ''edit'', ''grants'', ''policy'', ''delete'', ''tariff'', ''renew'']"

definition request_permission :: "string \<Rightarrow> string" where
  "request_permission action = (if action \<in> {''grants'', ''policy''} then ''grants.manage'' else ''profiles.manage'')"

text \<open>A command that changes access rules, whose actor is looked up once more inside the transaction.\<close>

definition changes_policy :: "profile_request \<Rightarrow> bool" where
  "changes_policy q = (pq_action q = ''policy'' \<or> py_get ''access_policy'' (pq_values q) \<noteq> PNone
     \<or> pq_action q = ''tariff'' \<and> py_get ''apply_access'' (pq_values q) = PBool True)"

definition still_admin :: "db \<Rightarrow> actor \<Rightarrow> bool" where
  "still_admin d actor = (\<exists>a \<in> set (accounts d). acc_id a = ac_id (actor_account actor) \<and> acc_role a = ''admin'' \<and> acc_status a = ''approved'')"

definition may_change_policy :: "actor \<Rightarrow> profile_request \<Rightarrow> db \<Rightarrow> unit tx" where
  "may_change_policy actor q d =
     (if changes_policy q then res_bind (require_permission actor ''grants.manage'') (\<lambda>_. guard (still_admin d actor) (AccessDenied ''permission_denied'' 403) (Inr ()))
      else Inr ())"

section \<open>Changes\<close>

definition owner_is_admin :: "db \<Rightarrow> string option \<Rightarrow> bool" where
  "owner_is_admin d owner = (case owner of None \<Rightarrow> False | Some o_id \<Rightarrow> o_id \<noteq> []
     \<and> (case find (\<lambda>a. acc_id a = o_id) (accounts d) of None \<Rightarrow> False | Some a \<Rightarrow> acc_role a = ''admin''))"

definition checked_expiry :: "(string \<Rightarrow> instant option) \<Rightarrow> db \<Rightarrow> string option \<Rightarrow> pyval \<Rightarrow> instant option tx" where
  "checked_expiry fromiso d owner v =
     (if v = PNone then Inr None
      else guard (\<not> owner_is_admin d owner) (AccessDenied ''admin_expiry_forbidden'' 422)
        (case (case v of PStr s \<Rightarrow> fromiso s | _ \<Rightarrow> None) of None \<Rightarrow> Inl invalid_input | Some t \<Rightarrow> Inr (Some t)))"

definition checked_name :: "pyval \<Rightarrow> string tx" where
  "checked_name v = (case v of PStr s \<Rightarrow> guard (strip s \<noteq> [] \<and> length s \<le> 128) invalid_input (Inr (strip s)) | _ \<Rightarrow> Inl invalid_input)"

text \<open>\<open>UPDATE backend_profiles SET \<dots>, desired_revision = desired_revision + 1 WHERE id = ? AND desired_revision = ?\<close>.\<close>

definition write_profile :: "string \<Rightarrow> int \<Rightarrow> (profile_row \<Rightarrow> profile_row) \<Rightarrow> db \<Rightarrow> db tx" where
  "write_profile profile_id revision f d =
     guard (\<exists>p \<in> set (profiles d). pf_id p = profile_id \<and> pf_desired_revision p = revision) (AccessDenied ''revision_conflict'' 412)
       (Inr (d\<lparr>profiles := update_where (\<lambda>p. pf_id p = profile_id \<and> pf_desired_revision p = revision)
          (\<lambda>p. (f p)\<lparr>pf_desired_revision := pf_desired_revision p + 1\<rparr>) (profiles d)\<rparr>))"

definition apply_policy :: "string \<Rightarrow> access_policy \<Rightarrow> db \<Rightarrow> db" where
  "apply_policy profile_id policy d = fst (materialize profile_id (store_policy profile_id policy d))"

definition has_key :: "string \<Rightarrow> (string \<times> pyval) list \<Rightarrow> bool" where
  "has_key k values = (k \<in> fst ` set values)"

text \<open>The owner of a new profile: the account named, which must have none yet, or a new account.\<close>

definition profile_owner :: "pyval \<Rightarrow> db \<Rightarrow> (db \<times> string) tx" where
  "profile_owner v d = (if v = PNone then (let (i, d1) = draw d in res_bind (insert_account i d1) (\<lambda>d2. Inr (d2, i)))
     else (case (case v of PStr i \<Rightarrow> find (\<lambda>a. acc_id a = i) (accounts d) | _ \<Rightarrow> None) of
        None \<Rightarrow> Inl (AccessDenied ''owner_not_found'' 422)
      | Some a \<Rightarrow>
          guard (acc_id a \<notin> set (account_deletions d)) (AccessDenied ''account_deleting'' 409)
          (guard (Some (acc_id a) \<notin> pf_owner ` set (profiles d)) (AccessDenied ''account_profile_exists'' 409) (Inr (d, acc_id a)))))"

definition new_policy :: "actor \<Rightarrow> (string \<times> pyval) list \<Rightarrow> db \<Rightarrow> access_policy option tx" where
  "new_policy actor values d =
     (let v = py_get ''access_policy'' values in
      if v = PNone then Inr None
      else res_bind (require_permission actor ''grants.manage'') (\<lambda>_.
        guard (\<not> truthy (py_get ''grants'' values)) invalid_input (res_bind (validate_policy d v) (\<lambda>p. Inr (Some p)))))"

definition new_grants :: "actor \<Rightarrow> (string \<times> pyval) list \<Rightarrow> db \<Rightarrow> grant_target list tx" where
  "new_grants actor values d =
     (let v = (case map_of values ''grants'' of None \<Rightarrow> PList [] | Some v \<Rightarrow> v) in
      res_bind (if truthy v then require_permission actor ''grants.manage'' else Inr ()) (\<lambda>_. validate_grants d v))"

definition insert_grants :: "string \<Rightarrow> grant_target list \<Rightarrow> db \<Rightarrow> db" where
  "insert_grants profile_id gs d = d\<lparr>grants := grants d @ map (\<lambda>(n, q). \<lparr>gr_profile = profile_id, gr_node = n, gr_protocol = q\<rparr>) (grant_list gs)\<rparr>"

definition create_command :: "(string \<Rightarrow> instant option) \<Rightarrow> actor \<Rightarrow> (string \<times> pyval) list \<Rightarrow> instant \<Rightarrow> db \<Rightarrow> (db \<times> string) tx" where
  "create_command fromiso actor values now d0 =
     guard (fst ` set values \<subseteq> {''display_name'', ''owner_account_id'', ''grants'', ''expires_at'', ''access_policy''}) invalid_input
     (res_bind (checked_name (py_get ''display_name'' values)) (\<lambda>name.
      res_bind (profile_owner (py_get ''owner_account_id'' values) d0) (\<lambda>(d, owner).
      res_bind (new_policy actor values d) (\<lambda>policy.
      res_bind (new_grants actor values d) (\<lambda>gs.
      res_bind (checked_expiry fromiso d (Some owner) (py_get ''expires_at'' values)) (\<lambda>expires_at.
        (let (i, d1) = draw d; (u, d2) = draw d1 in
         res_bind (insert_profile (new_profile i (''p_'' @ uuid_hex u) name owner expires_at now) d2) (\<lambda>d3.
         res_bind (record_service i owner ''vpn'' d3) (\<lambda>d4.
           (let d5 = insert_grants i gs d4;
                d6 = (case policy of None \<Rightarrow> d5 | Some p \<Rightarrow> apply_policy i p d5)
            in Inr (fst (materialize i d6), i)))))))))))"

section \<open>Commands on a profile\<close>

text \<open>The row and the guards every other command has; administrators' profiles are protected. A display name that is not a
  text never equals the present one.\<close>

definition admin_guard :: "actor \<Rightarrow> string \<Rightarrow> (string \<times> pyval) list \<Rightarrow> profile_row \<Rightarrow> bool \<Rightarrow> unit tx" where
  "admin_guard actor action values p owner_admin =
     (let own = (pf_owner p = Some (ac_id (actor_account actor))) in
      guard (\<not> (action = ''delete'' \<and> (own \<or> owner_admin))) (AccessDenied ''admin_profile_protected'' 409)
      (guard (\<not> (owner_admin \<and> action = ''edit'' \<and> has_key ''display_name'' values
           \<and> map_option strip (py_str (py_get ''display_name'' values)) \<noteq> Some (pf_display_name p) \<and> \<not> own)) (AccessDenied ''admin_name_owner_only'' 403)
      (guard (\<not> (owner_admin \<and> action = ''edit'' \<and> py_get ''frozen'' values = PBool True)) (AccessDenied ''admin_freeze_forbidden'' 422)
      (guard (\<not> (owner_admin \<and> (action \<in> {''grants'', ''policy''} \<or> has_key ''grants'' values \<or> has_key ''access_policy'' values)))
         (AccessDenied ''admin_access_permanent'' 422) (Inr ())))))"

definition command_target :: "actor \<Rightarrow> profile_request \<Rightarrow> db \<Rightarrow> (profile_row \<times> bool) tx" where
  "command_target actor q d =
     guard (pq_revision q \<noteq> PNone) (AccessDenied ''revision_required'' 428)
     (case (case pq_profile q of None \<Rightarrow> None | Some i \<Rightarrow> find_profile d i) of
        None \<Rightarrow> Inl (AccessDenied ''resource_not_found'' 404)
      | Some p \<Rightarrow>
          guard (pf_id p \<notin> set (profile_deletions d)) (AccessDenied ''profile_deleting'' 409)
          (case pq_revision q of
             PInt n \<Rightarrow>
               guard (1 \<le> n) (AccessDenied ''invalid_revision'' 422)
               (guard (pf_desired_revision p = n) (AccessDenied ''revision_conflict'' 412)
               (let owner_admin = is_admin_profile d (pf_id p)
                in res_bind (admin_guard actor (pq_action q) (pq_values q) p owner_admin) (\<lambda>_. Inr (p, owner_admin))))
           | _ \<Rightarrow> Inl (AccessDenied ''invalid_revision'' 422)))"

definition delete_command :: "(string \<times> pyval) list \<Rightarrow> profile_row \<Rightarrow> db \<Rightarrow> db tx" where
  "delete_command values p d =
     guard (values = []) invalid_input
     (write_profile (pf_id p) (pf_desired_revision p) (\<lambda>r. r\<lparr>pf_frozen := True\<rparr>)
       (d\<lparr>profile_deletions := profile_deletions d @ [pf_id p], grants := filter (\<lambda>g. gr_profile g \<noteq> pf_id p) (grants d),
          grant_policies := filter (\<lambda>g. fst g \<noteq> pf_id p) (grant_policies d)\<rparr>))"

text \<open>The owner of a deleted profile leaves, and its devices with it.\<close>

definition delete_devices :: "string \<Rightarrow> db \<Rightarrow> db" where
  "delete_devices profile_id d = d\<lparr>devices := update_where (\<lambda>v. dv_profile v = profile_id \<and> dv_status v = DevActive)
     (\<lambda>v. v\<lparr>dv_status := DevDeleting, dv_revision := dv_revision v + 1\<rparr>) (devices d)\<rparr>"

definition delete_owner :: "profile_row \<Rightarrow> instant \<Rightarrow> site \<Rightarrow> site tx" where
  "delete_owner p now s = (case pf_owner p of
     None \<Rightarrow> Inr s
   | Some o_id \<Rightarrow> if o_id = [] then Inr s else res_bind (begin_deletion o_id now s) (\<lambda>(d, a). Inr (delete_devices (pf_id p) d, a)))"

definition edit_policy :: "actor \<Rightarrow> (string \<times> pyval) list \<Rightarrow> string \<Rightarrow> db \<Rightarrow> db tx" where
  "edit_policy actor values profile_id d =
     (if \<not> has_key ''access_policy'' values then Inr d
      else res_bind (require_permission actor ''grants.manage'') (\<lambda>_.
        guard (\<not> has_key ''grants'' values) invalid_input
        (res_bind (validate_policy d (py_get ''access_policy'' values)) (\<lambda>policy. Inr (apply_policy profile_id policy d)))))"

definition edit_grants :: "actor \<Rightarrow> (string \<times> pyval) list \<Rightarrow> db \<Rightarrow> grant_target list option tx" where
  "edit_grants actor values d =
     (if \<not> has_key ''grants'' values then Inr None
      else res_bind (require_permission actor ''grants.manage'') (\<lambda>_. res_bind (validate_grants d (py_get ''grants'' values)) (\<lambda>gs. Inr (Some gs))))"

text \<open>The columns an edit sets.\<close>

definition edited_name :: "(string \<times> pyval) list \<Rightarrow> profile_row \<Rightarrow> string tx" where
  "edited_name values p = (if has_key ''display_name'' values then checked_name (py_get ''display_name'' values) else Inr (pf_display_name p))"

definition edited_frozen :: "(string \<times> pyval) list \<Rightarrow> profile_row \<Rightarrow> bool tx" where
  "edited_frozen values p = (if has_key ''frozen'' values then (case py_get ''frozen'' values of PBool b \<Rightarrow> Inr b | _ \<Rightarrow> Inl invalid_input) else Inr (pf_frozen p))"

definition edited_expiry :: "(string \<Rightarrow> instant option) \<Rightarrow> db \<Rightarrow> (string \<times> pyval) list \<Rightarrow> profile_row \<Rightarrow> instant option tx" where
  "edited_expiry fromiso d values p = (if has_key ''expires_at'' values then checked_expiry fromiso d (pf_owner p) (py_get ''expires_at'' values) else Inr (pf_expires_at p))"

definition edit_command :: "(string \<Rightarrow> instant option) \<Rightarrow> actor \<Rightarrow> (string \<times> pyval) list \<Rightarrow> profile_row \<Rightarrow> db \<Rightarrow> db tx" where
  "edit_command fromiso actor values p d0 =
     guard (values \<noteq> [] \<and> fst ` set values \<subseteq> {''display_name'', ''frozen'', ''expires_at'', ''grants'', ''access_policy''}) invalid_input
     (res_bind (edit_policy actor values (pf_id p) d0) (\<lambda>d.
      res_bind (edit_grants actor values d) (\<lambda>gs.
      res_bind (edited_name values p) (\<lambda>name.
      res_bind (edited_frozen values p) (\<lambda>frozen.
      res_bind (edited_expiry fromiso d values p) (\<lambda>expires_at.
      res_bind (write_profile (pf_id p) (pf_desired_revision p) (\<lambda>r. r\<lparr>pf_display_name := name, pf_frozen := frozen, pf_expires_at := expires_at\<rparr>) d) (\<lambda>d1.
        Inr (case gs of None \<Rightarrow> d1 | Some gs \<Rightarrow> replace_explicit (pf_id p) gs d1))))))))"

definition tariff_command :: "(string \<times> pyval) list \<Rightarrow> profile_row \<Rightarrow> bool \<Rightarrow> instant \<Rightarrow> db \<Rightarrow> db tx" where
  "tariff_command values p owner_admin now d =
     res_bind (assign_tariff (pf_id p) owner_admin (pf_expires_at p) (PDict values) now d) (\<lambda>(d1, expires_at, policy).
     res_bind (case policy of None \<Rightarrow> Inr d1 | Some a \<Rightarrow> res_bind (validate_policy d1 (policy_json a)) (\<lambda>a'. Inr (apply_policy (pf_id p) a' d1))) (\<lambda>d2.
       write_profile (pf_id p) (pf_desired_revision p) (\<lambda>r. r\<lparr>pf_expires_at := expires_at\<rparr>) d2))"

definition renew_command :: "actor \<Rightarrow> (string \<times> pyval) list \<Rightarrow> profile_row \<Rightarrow> instant \<Rightarrow> db \<Rightarrow> db tx" where
  "renew_command actor values p now d =
     res_bind (approve_renewal (ac_id (actor_account actor)) (pf_id p) (pf_expires_at p) (PDict values) now d) (\<lambda>(d1, expires_at).
       write_profile (pf_id p) (pf_desired_revision p) (\<lambda>r. r\<lparr>pf_expires_at := Some expires_at\<rparr>) d1)"

definition policy_command :: "(string \<times> pyval) list \<Rightarrow> profile_row \<Rightarrow> db \<Rightarrow> db tx" where
  "policy_command values p d =
     res_bind (validate_policy d (PDict values)) (\<lambda>policy. write_profile (pf_id p) (pf_desired_revision p) id (apply_policy (pf_id p) policy d))"

definition grants_command :: "(string \<times> pyval) list \<Rightarrow> profile_row \<Rightarrow> db \<Rightarrow> db tx" where
  "grants_command values p d =
     guard (fst ` set values = {''grants''}) invalid_input
     (res_bind (validate_grants d (py_get ''grants'' values)) (\<lambda>gs.
      res_bind (write_profile (pf_id p) (pf_desired_revision p) id d) (\<lambda>d1. Inr (replace_explicit (pf_id p) gs d1))))"

definition on_db :: "(db \<Rightarrow> db tx) \<Rightarrow> site \<Rightarrow> site tx" where
  "on_db f s = res_bind (f (fst s)) (\<lambda>d. Inr (d, snd s))"

definition change_profile :: "(string \<Rightarrow> instant option) \<Rightarrow> actor \<Rightarrow> profile_request \<Rightarrow> profile_row \<Rightarrow> bool \<Rightarrow> instant \<Rightarrow> site \<Rightarrow> site tx" where
  "change_profile fromiso actor q p owner_admin now s =
     (let action = pq_action q; values = pq_values q in
      if action = ''delete'' then res_bind (on_db (delete_command values p) s) (delete_owner p now)
      else if action = ''edit'' then on_db (edit_command fromiso actor values p) s
      else if action = ''tariff'' then on_db (tariff_command values p owner_admin now) s
      else if action = ''renew'' then on_db (renew_command actor values p now) s
      else if action = ''policy'' then on_db (policy_command values p) s
      else on_db (grants_command values p) s)"

section \<open>The command\<close>

definition profile_result_of :: "db \<Rightarrow> string \<Rightarrow> string \<times> op_status \<Rightarrow> profile_result tx" where
  "profile_result_of d profile_id operation = (case find_profile d profile_id of
     None \<Rightarrow> Inl TypeError
   | Some p \<Rightarrow> Inr \<lparr>ps_profile = p, ps_deleting = is_deleting d profile_id, ps_grants = sort_key target_key (profile_grants d profile_id), ps_operation = operation\<rparr>)"

definition apply_command :: "(string \<Rightarrow> instant option) \<Rightarrow> actor \<Rightarrow> profile_request \<Rightarrow> instant \<Rightarrow> site \<Rightarrow> (site \<times> string) tx" where
  "apply_command fromiso actor q now s =
     (if pq_action q = ''create''
      then res_bind (create_command fromiso actor (pq_values q) now (fst s)) (\<lambda>(d, i). Inr ((d, shared_accounts d (snd s)), i))
      else res_bind (command_target actor q (fst s)) (\<lambda>(p, owner_admin).
        res_bind (change_profile fromiso actor q p owner_admin now s) (\<lambda>s1. Inr (s1, pf_id p))))"

text \<open>The operation, and for a deletion the link to it and the accounts it may settle.\<close>

definition record_change :: "actor \<Rightarrow> profile_request \<Rightarrow> grant_target list \<Rightarrow> string \<Rightarrow> instant \<Rightarrow> site \<Rightarrow> (site \<times> string \<times> op_status) tx" where
  "record_change actor q previous profile_id now s =
     res_bind (record_operation (ac_id (actor_account actor)) profile_id previous None now (fst s)) (\<lambda>(d, operation).
       Inr (if pq_action q = ''delete''
            then let d1 = settle_accounts (d\<lparr>deletion_operations := deletion_operations d @ [(profile_id, fst operation)]\<rparr>) in ((d1, shared_accounts d1 (snd s)), operation)
            else ((d, snd s), operation)))"

definition is_profile_command :: "actor \<Rightarrow> string \<Rightarrow> profile_command_row \<Rightarrow> bool" where
  "is_profile_command actor key c = (pm_principal c = pr_id (actor_principal actor) \<and> pm_actor c = ac_id (actor_account actor) \<and> pm_key c = key)"

definition run_command ::
  "(string \<Rightarrow> instant option) \<Rightarrow> actor \<Rightarrow> string \<Rightarrow> string \<Rightarrow> profile_request \<Rightarrow> instant \<Rightarrow> site \<Rightarrow> (site \<times> profile_result) tx" where
  "run_command fromiso actor key digest q now s =
     (let previous = (case pq_profile q of None \<Rightarrow> [] | Some i \<Rightarrow> profile_targets (fst s) i) in
      res_bind (apply_command fromiso actor q now s) (\<lambda>(s1, i).
      res_bind (record_change actor q previous i now s1) (\<lambda>((d, a), operation).
      res_bind (profile_result_of (fst s1) i operation) (\<lambda>result.
        Inr ((d\<lparr>profile_commands := profile_commands d @ [\<lparr>pm_principal = pr_id (actor_principal actor), pm_actor = ac_id (actor_account actor),
               pm_key = key, pm_fingerprint = digest, pm_result = result\<rparr>]\<rparr>, a), result)))))"

definition execute_profile ::
  "(profile_request \<Rightarrow> string) \<Rightarrow> (string \<Rightarrow> instant option) \<Rightarrow> actor \<Rightarrow> pyval \<Rightarrow> profile_request \<Rightarrow> instant \<Rightarrow> site \<Rightarrow> (site \<times> profile_result) tx" where
  "execute_profile fp fromiso actor command_key q now s =
     (case (case command_key of PStr k \<Rightarrow> uuid_str k | _ \<Rightarrow> None) of
        None \<Rightarrow> Inl (AccessDenied ''invalid_idempotency_key'' 422)
      | Some key \<Rightarrow>
     res_bind (require_permission actor (request_permission (pq_action q))) (\<lambda>_.
     guard (pq_action q \<in> set ACTIONS) (ValueError ''unknown profile command'')
     (res_bind (admit False (fst s)) (\<lambda>d.
      res_bind (may_change_policy actor q d) (\<lambda>_.
        (case find (is_profile_command actor key) (profile_commands d) of
           Some r \<Rightarrow> guard (pm_fingerprint r = fp q) (AccessDenied ''idempotency_conflict'' 409) (Inr ((d, snd s), pm_result r))
         | None \<Rightarrow> run_command fromiso actor key (fp q) q now (d, snd s)))))))"

section \<open>Administrators keep their access\<close>

definition admin_profiles :: "string option \<Rightarrow> db \<Rightarrow> (string \<times> string) list" where
  "admin_profiles account_id d = concat (map (\<lambda>p. case pf_owner p of
     None \<Rightarrow> []
   | Some o_id \<Rightarrow> if (\<exists>a \<in> set (accounts d). acc_id a = o_id \<and> acc_role a = ''admin'') \<and> pf_id p \<notin> set (profile_deletions d) \<and> (account_id = None \<or> account_id = Some o_id) then [(pf_id p, o_id)] else [])
     (profiles d))"

definition restore_admin_profile :: "actor option \<Rightarrow> instant \<Rightarrow> string \<times> string \<Rightarrow> db \<Rightarrow> db tx" where
  "restore_admin_profile actor now po d = (case po of (profile_id, o_id) \<Rightarrow>
     (case find_profile d profile_id of
        None \<Rightarrow> Inl TypeError
      | Some p \<Rightarrow>
          (let previous = profile_targets d profile_id; (d1, changed) = materialize profile_id d in
           if \<not> changed \<and> \<not> pf_frozen p \<and> pf_expires_at p = None then Inr d1
           else res_bind (record_operation (case actor of None \<Rightarrow> o_id | Some a \<Rightarrow> ac_id (actor_account a)) profile_id previous None now
               (d1\<lparr>profiles := update_where (\<lambda>r. pf_id r = profile_id)
                  (\<lambda>r. r\<lparr>pf_frozen := False, pf_expires_at := None, pf_desired_revision := pf_desired_revision r + 1\<rparr>) (profiles d1)\<rparr>)) (\<lambda>(e, _). Inr e))))"

definition restore_admin_expiries :: "actor option \<Rightarrow> string option \<Rightarrow> instant \<Rightarrow> db \<Rightarrow> db tx" where
  "restore_admin_expiries actor account_id now d = res_fold (restore_admin_profile actor now) (admin_profiles account_id d) d"

section \<open>What a command leaves alone\<close>

definition same_rows :: "db \<Rightarrow> db \<Rightarrow> bool" where
  "same_rows d e = (profiles e = profiles d \<and> profile_commands e = profile_commands d \<and> profile_deletions e = profile_deletions d)"

lemma same_rows_refl [simp]: "same_rows d d" by (simp add: same_rows_def)

lemma same_rows_trans: "same_rows a b \<Longrightarrow> same_rows b c \<Longrightarrow> same_rows a c" by (simp add: same_rows_def)

lemma materialize_rows: "same_rows d (fst (materialize i d))" "accounts (fst (materialize i d)) = accounts d"
  by (auto simp: materialize_eq with_member_policy_def store_policy_def same_rows_def)

lemma store_policy_rows: "same_rows d (store_policy i policy d)" "accounts (store_policy i policy d) = accounts d"
  by (simp_all add: store_policy_def same_rows_def)

lemma apply_policy_rows: "same_rows d (apply_policy i policy d)" "accounts (apply_policy i policy d) = accounts d"
  unfolding apply_policy_def by (rule same_rows_trans [OF store_policy_rows(1) materialize_rows(1)], simp add: materialize_rows store_policy_rows)

lemma replace_explicit_rows: "same_rows d (replace_explicit i gs d)" "accounts (replace_explicit i gs d) = accounts d"
  unfolding replace_explicit_def by (rule same_rows_trans [OF store_policy_rows(1) materialize_rows(1)], simp add: materialize_rows store_policy_rows)

lemma assign_tariff_rows: "assign_tariff i owner_admin current (PDict c) now d = Inr (e, x) \<Longrightarrow> same_rows d e \<and> accounts e = accounts d"
  by (cases x) (auto elim!: assign_tariffD simp: same_rows_def link_tariff_def)

lemma notify_renewal_rows: "notify_renewal kind r payload now d = Inr e \<Longrightarrow> same_rows d e \<and> accounts e = accounts d"
  unfolding notify_renewal_def by (drule queue_cases) (auto simp: same_rows_def)

lemma approve_renewal_rows:
  assumes "approve_renewal actor_id i current values now d = Inr (e, t)"
  shows "same_rows d e \<and> accounts e = accounts d"
  using assms by (cases "values") (auto simp: approve_renewal_def res_bind_Inr_iff write_renewal_def same_rows_def split: option.splits dest!: notify_renewal_rows)

lemma record_operation_rows: "record_operation actor_id i previous scoped now d = Inr (e, x) \<Longrightarrow> same_rows d e \<and> accounts e = accounts d"
  by (drule record_operation_outbox) (auto simp: outbox_only_def same_rows_def)

lemma settle_accounts_rows: "same_rows d (settle_accounts d)"
proof -
  have "same_rows d (complete_deletion i d)" for i d by (simp add: same_rows_def complete_deletion_def Accounts.bump_revision_def Let_def)
  then have "same_rows d (fold complete_deletion is d)" for "is" by (induction "is" arbitrary: d) (auto intro: same_rows_trans)
  then show ?thesis by (simp add: settle_accounts_def)
qed

lemma begin_deletion_rows: "begin_deletion i now s = Inr s1 \<Longrightarrow> same_rows (fst s) (fst s1)"
  by (auto simp: begin_deletion_def Let_def mark_deleted_def same_rows_def)

lemma delete_owner_rows: "delete_owner p now s = Inr s1 \<Longrightarrow> same_rows (fst s) (fst s1)"
  by (auto simp: delete_owner_def res_bind_Inr_iff delete_devices_def same_rows_def split: option.splits if_splits dest!: begin_deletion_rows)

lemma record_change_rows: "record_change actor q previous i now s = Inr (s1, x) \<Longrightarrow> same_rows (fst s) (fst s1)"
  using settle_accounts_rows
  by (fastforce simp: record_change_def res_bind_Inr_iff Let_def same_rows_def split: if_splits dest!: record_operation_rows)

text \<open>A command on a profile writes the row it was checked against, once, with the next revision.\<close>

definition written :: "profile_row \<Rightarrow> (profile_row \<Rightarrow> profile_row) \<Rightarrow> profile_row list \<Rightarrow> profile_row list" where
  "written p f = update_where (\<lambda>r. pf_id r = pf_id p \<and> pf_desired_revision r = pf_desired_revision p) (\<lambda>r. (f r)\<lparr>pf_desired_revision := pf_desired_revision r + 1\<rparr>)"

lemma write_profileD:
  "write_profile (pf_id p) (pf_desired_revision p) f d = Inr e \<Longrightarrow> profiles e = written p f (profiles d) \<and> profile_commands e = profile_commands d
     \<and> profile_deletions e = profile_deletions d \<and> accounts e = accounts d"
  by (auto simp: write_profile_def written_def)

definition writes :: "profile_row \<Rightarrow> (profile_row \<Rightarrow> profile_row) \<Rightarrow> db \<Rightarrow> db \<Rightarrow> bool" where
  "writes p f d e = (profiles e = written p f (profiles d) \<and> profile_commands e = profile_commands d \<and> profile_deletions e = profile_deletions d)"

lemma writesI: "same_rows d d1 \<Longrightarrow> write_profile (pf_id p) (pf_desired_revision p) f d1 = Inr d2 \<Longrightarrow> same_rows d2 e \<Longrightarrow> writes p f d e"
  by (drule write_profileD) (simp add: writes_def same_rows_def)

lemma edit_policy_rows: "edit_policy actor values i d = Inr e \<Longrightarrow> same_rows d e \<and> accounts e = accounts d"
  using apply_policy_rows by (fastforce simp: edit_policy_def res_bind_Inr_iff split: if_splits)

lemma edit_command_rows:
  assumes "edit_command fromiso actor values p d = Inr e"
  obtains name frozen expires_at d1 where "writes p (\<lambda>r. r\<lparr>pf_display_name := name, pf_frozen := frozen, pf_expires_at := expires_at\<rparr>) d e"
    "edited_frozen values p = Inr frozen" "edited_expiry fromiso d1 values p = Inr expires_at" "accounts d1 = accounts d"
proof -
  obtain d1 gs name frozen expires_at d2 where x: "edit_policy actor values (pf_id p) d = Inr d1" "edited_frozen values p = Inr frozen"
    "edited_expiry fromiso d1 values p = Inr expires_at"
    "write_profile (pf_id p) (pf_desired_revision p) (\<lambda>r. r\<lparr>pf_display_name := name, pf_frozen := frozen, pf_expires_at := expires_at\<rparr>) d1 = Inr d2"
    "e = (case gs of None \<Rightarrow> d2 | Some gs \<Rightarrow> replace_explicit (pf_id p) gs d2)"
    using assms by (auto simp: edit_command_def res_bind_Inr_iff)
  have "same_rows d2 e" unfolding x(5) using replace_explicit_rows by (cases gs) simp_all
  with that writesI [OF _ x(4)] edit_policy_rows [OF x(1)] x show thesis by blast
qed

lemma tariff_command_rows:
  assumes "tariff_command values p owner_admin now d = Inr e"
  obtains expires_at d1 policy where "writes p (\<lambda>r. r\<lparr>pf_expires_at := expires_at\<rparr>) d e"
    "assign_tariff (pf_id p) owner_admin (pf_expires_at p) (PDict values) now d = Inr (d1, expires_at, policy)"
proof -
  obtain d1 expires_at policy d2 where x: "assign_tariff (pf_id p) owner_admin (pf_expires_at p) (PDict values) now d = Inr (d1, expires_at, policy)"
    "(case policy of None \<Rightarrow> Inr d1 | Some a \<Rightarrow> res_bind (validate_policy d1 (policy_json a)) (\<lambda>a'. Inr (apply_policy (pf_id p) a' d1))) = Inr d2"
    "write_profile (pf_id p) (pf_desired_revision p) (\<lambda>r. r\<lparr>pf_expires_at := expires_at\<rparr>) d2 = Inr e"
    using assms by (auto simp: tariff_command_def res_bind_Inr_iff)
  have "same_rows d1 d2" using x(2) apply_policy_rows(1) by (cases policy) (auto simp: res_bind_Inr_iff)
  then have "same_rows d d2" using assign_tariff_rows [OF x(1)] same_rows_trans by blast
  with that x writesI [OF _ x(3) same_rows_refl] show thesis by blast
qed

lemma renew_command_rows:
  assumes "renew_command actor values p now d = Inr e"
  obtains t d1 where "writes p (\<lambda>r. r\<lparr>pf_expires_at := Some t\<rparr>) d e"
    "approve_renewal (ac_id (actor_account actor)) (pf_id p) (pf_expires_at p) (PDict values) now d = Inr (d1, t)"
proof -
  obtain d1 t where x: "approve_renewal (ac_id (actor_account actor)) (pf_id p) (pf_expires_at p) (PDict values) now d = Inr (d1, t)"
    "write_profile (pf_id p) (pf_desired_revision p) (\<lambda>r. r\<lparr>pf_expires_at := Some t\<rparr>) d1 = Inr e"
    using assms by (auto simp: renew_command_def res_bind_Inr_iff)
  with that writesI [OF _ x(2) same_rows_refl] approve_renewal_rows [OF x(1)] show thesis by blast
qed

lemma policy_command_rows:
  assumes "policy_command values p d = Inr e"
  shows "writes p id d e"
proof -
  obtain policy where "write_profile (pf_id p) (pf_desired_revision p) id (apply_policy (pf_id p) policy d) = Inr e"
    using assms unfolding policy_command_def res_bind_Inr_iff by blast
  then show ?thesis by (rule writesI [OF apply_policy_rows(1) _ same_rows_refl])
qed

lemma grants_command_rows:
  assumes "grants_command values p d = Inr e"
  shows "writes p id d e"
proof -
  obtain gs d1 where "write_profile (pf_id p) (pf_desired_revision p) id d = Inr d1" and e: "e = replace_explicit (pf_id p) gs d1"
    using assms by (auto simp: grants_command_def res_bind_Inr_iff)
  then show ?thesis unfolding e by (intro writesI [OF same_rows_refl _ replace_explicit_rows(1)])
qed

lemmas access_command_rows = policy_command_rows grants_command_rows

lemma delete_command_rows:
  assumes "delete_command values p d = Inr e"
  shows "profiles e = written p (\<lambda>r. r\<lparr>pf_frozen := True\<rparr>) (profiles d) \<and> profile_commands e = profile_commands d \<and> profile_deletions e = profile_deletions d @ [pf_id p]"
  using assms by (auto simp: delete_command_def dest!: write_profileD)

text \<open>The columns a command may write: a term and a freeze of an administrator's profile only when it is renewed or deleted.\<close>

lemma change_profile_rows:
  assumes "change_profile fromiso actor q p owner_admin now s = Inr s1"
  obtains f where "profiles (fst s1) = written p f (profiles (fst s))" "\<And>r. pf_id (f r) = pf_id r \<and> pf_owner (f r) = pf_owner r"
    "profile_commands (fst s1) = profile_commands (fst s)"
    "profile_deletions (fst s1) = profile_deletions (fst s) @ (if pq_action q = ''delete'' then [pf_id p] else [])"
    "owner_admin \<Longrightarrow> owner_is_admin (fst s) (pf_owner p) \<Longrightarrow> admin_guard actor (pq_action q) (pq_values q) p True = Inr () \<Longrightarrow> pq_action q \<noteq> ''renew''
       \<Longrightarrow> (pf_frozen (f p) \<longrightarrow> pf_frozen p) \<and> pf_expires_at (f p) \<in> {None, pf_expires_at p}"
proof -
  let ?goal = "\<lambda>f. profiles (fst s1) = written p f (profiles (fst s)) \<and> (\<forall>r. pf_id (f r) = pf_id r \<and> pf_owner (f r) = pf_owner r)
    \<and> profile_commands (fst s1) = profile_commands (fst s)
    \<and> profile_deletions (fst s1) = profile_deletions (fst s) @ (if pq_action q = ''delete'' then [pf_id p] else [])
    \<and> (owner_admin \<longrightarrow> owner_is_admin (fst s) (pf_owner p) \<longrightarrow> admin_guard actor (pq_action q) (pq_values q) p True = Inr () \<longrightarrow> pq_action q \<noteq> ''renew''
       \<longrightarrow> (pf_frozen (f p) \<longrightarrow> pf_frozen p) \<and> pf_expires_at (f p) \<in> {None, pf_expires_at p})"
  consider (delete) "pq_action q = ''delete''" | (edit) "pq_action q = ''edit''" | (tariff) "pq_action q = ''tariff''" | (renew) "pq_action q = ''renew''"
    | (access) "pq_action q \<notin> {''delete'', ''edit'', ''tariff'', ''renew''}" by blast
  then have "\<exists>f. ?goal f"
  proof cases
    case delete
    then obtain s0 where "on_db (delete_command (pq_values q) p) s = Inr s0" "delete_owner p now s0 = Inr s1"
      using assms by (auto simp: change_profile_def res_bind_Inr_iff)
    with delete_owner_rows [OF this(2)] delete show ?thesis
      by (intro exI [of _ "\<lambda>r. r\<lparr>pf_frozen := True\<rparr>"]) (auto simp: on_db_def res_bind_Inr_iff same_rows_def admin_guard_def Let_def dest!: delete_command_rows)
  next
    case edit
    then have "edit_command fromiso actor (pq_values q) p (fst s) = Inr (fst s1)"
      using assms by (auto simp: change_profile_def on_db_def res_bind_Inr_iff)
    then obtain name frozen expires_at d1 where w: "writes p (\<lambda>r. r\<lparr>pf_display_name := name, pf_frozen := frozen, pf_expires_at := expires_at\<rparr>) (fst s) (fst s1)"
      and e: "edited_frozen (pq_values q) p = Inr frozen" "edited_expiry fromiso d1 (pq_values q) p = Inr expires_at" "accounts d1 = accounts (fst s)"
      by (rule edit_command_rows)
    have "frozen \<longrightarrow> pf_frozen p" if "admin_guard actor (pq_action q) (pq_values q) p True = Inr ()"
      using that e(1) edit by (auto simp: admin_guard_def edited_frozen_def Let_def split: if_splits pyval.splits)
    moreover have "expires_at \<in> {None, pf_expires_at p}" if "owner_is_admin (fst s) (pf_owner p)"
    proof -
      have "owner_is_admin d1 (pf_owner p)" using that unfolding owner_is_admin_def e(3) .
      then show ?thesis using e(2) by (auto simp: edited_expiry_def checked_expiry_def split: if_splits)
    qed
    ultimately show ?thesis using w edit
      by (intro exI [of _ "\<lambda>r. r\<lparr>pf_display_name := name, pf_frozen := frozen, pf_expires_at := expires_at\<rparr>"]) (auto simp: writes_def)
  next
    case tariff
    then have "tariff_command (pq_values q) p owner_admin now (fst s) = Inr (fst s1)"
      using assms by (auto simp: change_profile_def on_db_def res_bind_Inr_iff)
    then obtain expires_at d1 policy where w: "writes p (\<lambda>r. r\<lparr>pf_expires_at := expires_at\<rparr>) (fst s) (fst s1)"
      and a: "assign_tariff (pf_id p) owner_admin (pf_expires_at p) (PDict (pq_values q)) now (fst s) = Inr (d1, expires_at, policy)"
      by (rule tariff_command_rows)
    have "owner_admin \<Longrightarrow> expires_at = pf_expires_at p" using a by (cases rule: assign_tariffD) (auto simp: new_expiry_def)
    with w tariff show ?thesis by (intro exI [of _ "\<lambda>r. r\<lparr>pf_expires_at := expires_at\<rparr>"]) (auto simp: writes_def)
  next
    case renew
    then have "renew_command actor (pq_values q) p now (fst s) = Inr (fst s1)"
      using assms by (auto simp: change_profile_def on_db_def res_bind_Inr_iff)
    then obtain t where "writes p (\<lambda>r. r\<lparr>pf_expires_at := Some t\<rparr>) (fst s) (fst s1)" by (rule renew_command_rows)
    with renew show ?thesis by (intro exI [of _ "\<lambda>r. r\<lparr>pf_expires_at := Some t\<rparr>"]) (auto simp: writes_def)
  next
    case access
    then have "writes p id (fst s) (fst s1)"
      using assms by (auto simp: change_profile_def on_db_def res_bind_Inr_iff Let_def split: if_splits dest: access_command_rows)
    with access show ?thesis by (intro exI [of _ id]) (auto simp: writes_def)
  qed
  then show thesis using that by blast
qed

lemma create_command_commands:
  assumes "create_command fromiso actor values now d = Inr (e, i)"
  shows "profile_commands e = profile_commands d"
proof -
  have owner: "profile_commands d1 = profile_commands d" if "profile_owner v d = Inr (d1, owner)" for v d1 owner
    using that by (auto simp: profile_owner_def insert_account_def draw_def res_bind_Inr_iff split: if_splits option.splits)
  have profile: "insert_profile p d1 = Inr d2 \<Longrightarrow> profile_commands d2 = profile_commands d1" for p d1 d2
    by (auto simp: insert_profile_def)
  have service: "record_service j a v d1 = Inr d2 \<Longrightarrow> profile_commands d2 = profile_commands d1" for j a v d1 d2
    by (auto simp: record_service_def)
  have access: "profile_commands (fst (materialize m (case policy of None \<Rightarrow> insert_grants j gs d1 | Some p \<Rightarrow> apply_policy j p (insert_grants j gs d1)))) = profile_commands d1"
    for m j policy gs d1 using materialize_rows(1) apply_policy_rows(1) by (cases policy) (simp_all add: same_rows_def insert_grants_def)
  obtain v d1 owner p d2 a w d3 where "profile_owner v d = Inr (d1, owner)" "insert_profile p (snd (draw (snd (draw d1)))) = Inr d2"
    "record_service i a w d2 = Inr d3" "profile_commands e = profile_commands d3"
    using assms by (auto simp: create_command_def res_bind_Inr_iff case_prod_unfold Let_def access)
  then show ?thesis using owner profile service by (simp add: draw_def)
qed

lemma apply_command_commands:
  assumes "apply_command fromiso actor q now s = Inr (s1, i)"
  shows "profile_commands (fst s1) = profile_commands (fst s)"
proof (cases "pq_action q = ''create''")
  case True
  then obtain d where "create_command fromiso actor (pq_values q) now (fst s) = Inr (d, i)" "s1 = (d, shared_accounts d (snd s))"
    using assms by (auto simp: apply_command_def res_bind_Inr_iff)
  then show ?thesis using create_command_commands by simp
next
  case False
  then obtain p owner_admin where "change_profile fromiso actor q p owner_admin now s = Inr s1"
    using assms by (auto simp: apply_command_def res_bind_Inr_iff)
  then show ?thesis by (rule change_profile_rows)
qed

text \<open>A command that was accepted is either the answer recorded before, or ran now.\<close>

lemma executed_cases:
  assumes "execute_profile fp fromiso actor (PStr key) q now s = Inr (s1, result)"
  obtains (replayed) k r where "uuid_str key = Some k" "find (is_profile_command actor k) (profile_commands (fst s)) = Some r" "pm_fingerprint r = fp q" "result = pm_result r"
    "s1 = ((fst s)\<lparr>account_guard := account_guard (fst s) + 1\<rparr>, snd s)"
  | (ran) k where "uuid_str key = Some k" "find (is_profile_command actor k) (profile_commands (fst s)) = None" "pq_action q \<in> set ACTIONS"
    "run_command fromiso actor k (fp q) q now ((fst s)\<lparr>account_guard := account_guard (fst s) + 1\<rparr>, snd s) = Inr (s1, result)"
proof -
  obtain k d where k: "uuid_str key = Some k" and d: "admit False (fst s) = Inr d" and act: "pq_action q \<in> set ACTIONS"
    and c: "(case find (is_profile_command actor k) (profile_commands d) of
           Some r \<Rightarrow> guard (pm_fingerprint r = fp q) (AccessDenied ''idempotency_conflict'' 409) (Inr ((d, snd s), pm_result r))
         | None \<Rightarrow> run_command fromiso actor k (fp q) q now (d, snd s)) = Inr (s1, result)"
    using assms by (auto simp: execute_profile_def res_bind_Inr_iff split: option.splits)
  have d': "d = (fst s)\<lparr>account_guard := account_guard (fst s) + 1\<rparr>" by (rule admit_Inr [OF d])
  show thesis
  proof (cases "find (is_profile_command actor k) (profile_commands d)")
    case None
    then show thesis using ran [OF k _ act] c by (simp add: d')
  next
    case (Some r)
    then show thesis using replayed [OF k, of r] c by (simp add: d')
  qed
qed

lemma run_command_cases:
  assumes "run_command fromiso actor k digest q now s = Inr (s1, result)"
  obtains s2 i operation d row where "apply_command fromiso actor q now s = Inr (s2, i)" "same_rows (fst s2) d"
    "profile_result_of (fst s2) i operation = Inr result" "fst s1 = d\<lparr>profile_commands := profile_commands d @ [row]\<rparr>"
    "is_profile_command actor k row" "pm_fingerprint row = digest" "pm_result row = result"
proof -
  define previous where "previous = (case pq_profile q of None \<Rightarrow> [] | Some i \<Rightarrow> profile_targets (fst s) i)"
  obtain s2 i where s2: "apply_command fromiso actor q now s = Inr (s2, i)"
    and rest: "res_bind (record_change actor q previous i now s2) (\<lambda>((d, a), operation).
      res_bind (profile_result_of (fst s2) i operation) (\<lambda>result.
        Inr ((d\<lparr>profile_commands := profile_commands d @ [\<lparr>pm_principal = pr_id (actor_principal actor), pm_actor = ac_id (actor_account actor),
               pm_key = k, pm_fingerprint = digest, pm_result = result\<rparr>]\<rparr>, a), result))) = Inr (s1, result)"
    using assms by (auto simp: run_command_def previous_def [symmetric] res_bind_Inr_iff)
  obtain d a operation where r: "record_change actor q previous i now s2 = Inr ((d, a), operation)" "profile_result_of (fst s2) i operation = Inr result"
    "fst s1 = d\<lparr>profile_commands := profile_commands d @ [\<lparr>pm_principal = pr_id (actor_principal actor), pm_actor = ac_id (actor_account actor),
               pm_key = k, pm_fingerprint = digest, pm_result = result\<rparr>]\<rparr>"
    using rest by (auto simp: res_bind_Inr_iff)
  show thesis using that [OF s2 _ r(2,3)] record_change_rows [OF r(1)] by (simp add: is_profile_command_def)
qed

lemma profile_command_recorded:
  assumes "execute_profile fp fromiso actor (PStr key) q now s = Inr (s1, result)"
  obtains k row where "uuid_str key = Some k" "find (is_profile_command actor k) (profile_commands (fst s1)) = Some row"
    "pm_fingerprint row = fp q" "pm_result row = result"
  using assms
proof (cases rule: executed_cases)
  case (replayed k r)
  then show thesis using that by simp
next
  case (ran k)
  from ran(4) obtain s2 i d row where x: "apply_command fromiso actor q now ((fst s)\<lparr>account_guard := account_guard (fst s) + 1\<rparr>, snd s) = Inr (s2, i)" "same_rows (fst s2) d"
    "fst s1 = d\<lparr>profile_commands := profile_commands d @ [row]\<rparr>" "is_profile_command actor k row" "pm_fingerprint row = fp q" "pm_result row = result"
    by (rule run_command_cases)
  have "profile_commands d = profile_commands (fst s)" using apply_command_commands [OF x(1)] x(2) by (simp add: same_rows_def)
  then show thesis using that [OF ran(1), of row] ran(2) x by (simp add: find_append)
qed

lemma command_targetD:
  assumes "command_target actor q d = Inr (p, owner_admin)"
  shows "pq_profile q = Some (pf_id p)" "p \<in> set (profiles d)" "pf_id p \<notin> set (profile_deletions d)" "pq_revision q = PInt (pf_desired_revision p)"
    "owner_admin = is_admin_profile d (pf_id p)" "admin_guard actor (pq_action q) (pq_values q) p owner_admin = Inr ()"
  using assms
  by (auto simp: command_target_def find_profile_def Let_def res_bind_Inr_iff split: option.splits pyval.splits dest: find_Some_iff)

lemma written_unique:
  assumes "distinct (map pf_id ps)" and "p \<in> set ps"
  shows "written p f ps = map (\<lambda>r. if pf_id r = pf_id p then (f p)\<lparr>pf_desired_revision := pf_desired_revision p + 1\<rparr> else r) ps"
  unfolding written_def update_where_def using distinct_keyD [OF assms(1) _ assms(2)] by (auto intro!: map_cong)

text \<open>What a command other than a creation did to the profiles.\<close>

lemma ran_row:
  assumes ran: "run_command fromiso actor k digest q now s = Inr (s1, result)" and "pq_action q \<noteq> ''create''" and ids: "distinct (map pf_id (profiles (fst s)))"
  obtains p f where "pq_profile q = Some (pf_id p)" "p \<in> set (profiles (fst s))" "pf_id p \<notin> set (profile_deletions (fst s))" "pq_revision q = PInt (pf_desired_revision p)"
    "profiles (fst s1) = map (\<lambda>r. if pf_id r = pf_id p then (f p)\<lparr>pf_desired_revision := pf_desired_revision p + 1\<rparr> else r) (profiles (fst s))"
    "pf_id (f p) = pf_id p" "pf_owner (f p) = pf_owner p"
    "profile_deletions (fst s1) = profile_deletions (fst s) @ (if pq_action q = ''delete'' then [pf_id p] else [])"
    "admin_guard actor (pq_action q) (pq_values q) p (is_admin_profile (fst s) (pf_id p)) = Inr ()"
    "is_admin_profile (fst s) (pf_id p) \<Longrightarrow> owner_is_admin (fst s) (pf_owner p) \<Longrightarrow> pq_action q \<noteq> ''renew''
       \<Longrightarrow> (pf_frozen (f p) \<longrightarrow> pf_frozen p) \<and> pf_expires_at (f p) \<in> {None, pf_expires_at p}"
proof -
  from ran obtain s2 i d row where x: "apply_command fromiso actor q now s = Inr (s2, i)" "same_rows (fst s2) d" "fst s1 = d\<lparr>profile_commands := profile_commands d @ [row]\<rparr>"
    by (rule run_command_cases)
  then obtain p owner_admin where t: "command_target actor q (fst s) = Inr (p, owner_admin)" and c: "change_profile fromiso actor q p owner_admin now s = Inr s2"
    using assms(2) by (auto simp: apply_command_def res_bind_Inr_iff)
  note t = command_targetD [OF t]
  show thesis
  proof (rule change_profile_rows [OF c])
    fix f
    assume f: "profiles (fst s2) = written p f (profiles (fst s))" "\<And>r. pf_id (f r) = pf_id r \<and> pf_owner (f r) = pf_owner r"
      "profile_deletions (fst s2) = profile_deletions (fst s) @ (if pq_action q = ''delete'' then [pf_id p] else [])"
      "owner_admin \<Longrightarrow> owner_is_admin (fst s) (pf_owner p) \<Longrightarrow> admin_guard actor (pq_action q) (pq_values q) p True = Inr () \<Longrightarrow> pq_action q \<noteq> ''renew''
       \<Longrightarrow> (pf_frozen (f p) \<longrightarrow> pf_frozen p) \<and> pf_expires_at (f p) \<in> {None, pf_expires_at p}"
    show thesis
    proof (rule that [of p f])
      show "profiles (fst s1) = map (\<lambda>r. if pf_id r = pf_id p then (f p)\<lparr>pf_desired_revision := pf_desired_revision p + 1\<rparr> else r) (profiles (fst s))"
        using x(2,3) f(1) written_unique [OF ids t(2)] by (simp add: same_rows_def)
      show "profile_deletions (fst s1) = profile_deletions (fst s) @ (if pq_action q = ''delete'' then [pf_id p] else [])"
        using x(2,3) f(3) by (simp add: same_rows_def)
      show "(pf_frozen (f p) \<longrightarrow> pf_frozen p) \<and> pf_expires_at (f p) \<in> {None, pf_expires_at p}"
        if "is_admin_profile (fst s) (pf_id p)" "owner_is_admin (fst s) (pf_owner p)" "pq_action q \<noteq> ''renew''"
        using f(4) that t(5,6) by simp
    qed (use t f(2) in auto)
  qed
qed

lemma guarded_admin [simp]:
  "is_admin_profile (d\<lparr>account_guard := n\<rparr>) = is_admin_profile d" "owner_is_admin (d\<lparr>account_guard := n\<rparr>) = owner_is_admin d"
  by (auto simp: is_admin_profile_def owner_is_admin_def fun_eq_iff split: option.splits)

lemma executed_row:
  assumes run: "execute_profile fp fromiso actor (PStr key) q now s = Inr (s1, result)" and "pq_action q \<noteq> ''create''"
    and key: "uuid_str key = Some k" "find (is_profile_command actor k) (profile_commands (fst s)) = None" and ids: "distinct (map pf_id (profiles (fst s)))"
  obtains p p' where "pq_profile q = Some (pf_id p)" "p \<in> set (profiles (fst s))" "pf_id p \<notin> set (profile_deletions (fst s))" "pq_revision q = PInt (pf_desired_revision p)"
    "profiles (fst s1) = map (\<lambda>r. if pf_id r = pf_id p then p' else r) (profiles (fst s))"
    "pf_id p' = pf_id p" "pf_owner p' = pf_owner p" "pf_desired_revision p' = pf_desired_revision p + 1"
    "profile_deletions (fst s1) = profile_deletions (fst s) @ (if pq_action q = ''delete'' then [pf_id p] else [])"
    "admin_guard actor (pq_action q) (pq_values q) p (is_admin_profile (fst s) (pf_id p)) = Inr ()"
    "is_admin_profile (fst s) (pf_id p) \<Longrightarrow> owner_is_admin (fst s) (pf_owner p) \<Longrightarrow> pq_action q \<noteq> ''renew''
       \<Longrightarrow> (pf_frozen p' \<longrightarrow> pf_frozen p) \<and> pf_expires_at p' \<in> {None, pf_expires_at p}"
proof -
  let ?s = "((fst s)\<lparr>account_guard := account_guard (fst s) + 1\<rparr>, snd s)"
  have ran: "run_command fromiso actor k (fp q) q now ?s = Inr (s1, result)" using run by (cases rule: executed_cases) (use key in auto)
  show thesis
  proof (rule ran_row [OF ran assms(2)], goal_cases)
    case 1
    then show ?case using ids by simp
  next
    case (2 p f)
    show ?case by (rule that [of p "(f p)\<lparr>pf_desired_revision := pf_desired_revision p + 1\<rparr>"]) (use 2 in simp_all)
  qed
qed

text \<open>What a renewal did.\<close>

lemma ran_renewal:
  assumes ran: "run_command fromiso actor k digest q now s = Inr (s1, result)" and act: "pq_action q = ''renew''" and ids: "distinct (map pf_id (profiles (fst s)))"
  obtains p t d1 where "pq_profile q = Some (pf_id p)" "p \<in> set (profiles (fst s))"
    "approve_renewal (ac_id (actor_account actor)) (pf_id p) (pf_expires_at p) (PDict (pq_values q)) now (fst s) = Inr (d1, t)"
    "profiles (fst s1) = map (\<lambda>r. if pf_id r = pf_id p then p\<lparr>pf_expires_at := Some t, pf_desired_revision := pf_desired_revision p + 1\<rparr> else r) (profiles (fst s))"
    "accounts (fst s1) = accounts (fst s)"
proof -
  define previous where "previous = (case pq_profile q of None \<Rightarrow> [] | Some i \<Rightarrow> profile_targets (fst s) i)"
  obtain s2 i d operation row where s2: "apply_command fromiso actor q now s = Inr (s2, i)"
    and d: "record_operation (ac_id (actor_account actor)) i previous None now (fst s2) = Inr (d, operation)" "fst s1 = d\<lparr>profile_commands := profile_commands d @ [row]\<rparr>"
    using ran act by (auto simp: run_command_def previous_def [symmetric] record_change_def Let_def res_bind_Inr_iff)
  obtain p owner_admin where t: "command_target actor q (fst s) = Inr (p, owner_admin)" and c: "renew_command actor (pq_values q) p now (fst s) = Inr (fst s2)"
    using s2 act by (auto simp: apply_command_def change_profile_def on_db_def res_bind_Inr_iff)
  obtain d1 t where x: "approve_renewal (ac_id (actor_account actor)) (pf_id p) (pf_expires_at p) (PDict (pq_values q)) now (fst s) = Inr (d1, t)"
    "write_profile (pf_id p) (pf_desired_revision p) (\<lambda>r. r\<lparr>pf_expires_at := Some t\<rparr>) d1 = Inr (fst s2)"
    using c by (auto simp: renew_command_def res_bind_Inr_iff)
  note t = command_targetD [OF t]
  have "profiles (fst s1) = written p (\<lambda>r. r\<lparr>pf_expires_at := Some t\<rparr>) (profiles (fst s))" "accounts (fst s1) = accounts (fst s)"
    using record_operation_rows [OF d(1)] write_profileD [OF x(2)] approve_renewal_rows [OF x(1)] by (simp_all add: d(2) same_rows_def)
  then show thesis using that [OF t(1,2) x(1)] written_unique [OF ids t(2)] by simp
qed

section \<open>Properties\<close>

text \<open>C12. A profile command takes effect once. When it has been accepted under a key, the same request under that key gives the
  recorded answer and changes nothing but the maintenance guard's counter, and a different request under that key by the
  same actor is refused as a conflict.\<close>

theorem execute_profile_once:
  assumes first: "execute_profile fp fromiso actor (PStr key) q now s = Inr (s1, result)"
    and gate: "admit False (fst s1) = Inr d1" and allowed: "may_change_policy actor q d1 = Inr ()"
  shows "execute_profile fp fromiso actor (PStr key) q later s1 = Inr (((fst s1)\<lparr>account_guard := account_guard (fst s1) + 1\<rparr>, snd s1), result)
    \<and> (\<forall>r. require_permission actor (request_permission (pq_action r)) = Inr () \<and> pq_action r \<in> set ACTIONS \<and> may_change_policy actor r d1 = Inr () \<and> fp r \<noteq> fp q \<longrightarrow>
         execute_profile fp fromiso actor (PStr key) r later s1 = Inl (AccessDenied ''idempotency_conflict'' 409))"
proof -
  from first obtain k row where k: "uuid_str key = Some k" "find (is_profile_command actor k) (profile_commands (fst s1)) = Some row"
    "pm_fingerprint row = fp q" "pm_result row = result" by (rule profile_command_recorded)
  have p: "require_permission actor (request_permission (pq_action q)) = Inr ()" "pq_action q \<in> set ACTIONS"
    using first k(1) by (auto simp: execute_profile_def res_bind_Inr_iff)
  have d1: "d1 = (fst s1)\<lparr>account_guard := account_guard (fst s1) + 1\<rparr>" by (rule admit_Inr [OF gate])
  have "execute_profile fp fromiso actor (PStr key) q later s1 = Inr (((fst s1)\<lparr>account_guard := account_guard (fst s1) + 1\<rparr>, snd s1), result)"
    using k gate allowed p unfolding execute_profile_def by (simp add: d1)
  moreover have "execute_profile fp fromiso actor (PStr key) r later s1 = Inl (AccessDenied ''idempotency_conflict'' 409)"
    if "require_permission actor (request_permission (pq_action r)) = Inr ()" "pq_action r \<in> set ACTIONS" "may_change_policy actor r d1 = Inr ()" "fp r \<noteq> fp q" for r
    using that k gate unfolding execute_profile_def by (simp add: d1)
  ultimately show ?thesis by blast
qed

text \<open>C4. No change is lost. A command other than a creation that runs was made against the profile's present revision; it
  changes that profile alone, keeps its owner and moves it to the next revision. Another command for the same profile
  made against the same revision, by whoever and under whichever new key, is then never accepted.\<close>

theorem revision_fences_commands:
  assumes run: "execute_profile fp fromiso actor (PStr key) q now s = Inr (s1, result)" and "pq_action q \<noteq> ''create''"
    and key: "uuid_str key = Some k" "find (is_profile_command actor k) (profile_commands (fst s)) = None" and ids: "distinct (map pf_id (profiles (fst s)))"
  shows "(\<exists>p \<in> set (profiles (fst s)). \<exists>p'. pq_profile q = Some (pf_id p) \<and> pq_revision q = PInt (pf_desired_revision p) \<and> pf_id p \<notin> set (profile_deletions (fst s))
       \<and> pf_id p' = pf_id p \<and> pf_owner p' = pf_owner p \<and> pf_desired_revision p' = pf_desired_revision p + 1
       \<and> profiles (fst s1) = map (\<lambda>r. if pf_id r = pf_id p then p' else r) (profiles (fst s)))
    \<and> (\<forall>fp' fromiso' actor' key' k' q' later. uuid_str key' = Some k' \<and> find (is_profile_command actor' k') (profile_commands (fst s1)) = None
         \<and> pq_action q' \<noteq> ''create'' \<and> pq_profile q' = pq_profile q \<and> pq_revision q' = pq_revision q
         \<longrightarrow> \<not> is_ok (execute_profile fp' fromiso' actor' (PStr key') q' later s1))"
proof -
  obtain p p' where p: "pq_profile q = Some (pf_id p)" "p \<in> set (profiles (fst s))" "pf_id p \<notin> set (profile_deletions (fst s))" "pq_revision q = PInt (pf_desired_revision p)"
    "profiles (fst s1) = map (\<lambda>r. if pf_id r = pf_id p then p' else r) (profiles (fst s))"
    "pf_id p' = pf_id p" "pf_owner p' = pf_owner p" "pf_desired_revision p' = pf_desired_revision p + 1"
    by (rule executed_row [OF assms])
  have "map pf_id (profiles (fst s1)) = map pf_id (profiles (fst s))" using p(6) by (simp add: p(5))
  then have ids1: "distinct (map pf_id (profiles (fst s1)))" using ids by simp
  have "\<not> is_ok (execute_profile fp' fromiso' actor' (PStr key') q' later s1)"
    if other: "uuid_str key' = Some k'" "find (is_profile_command actor' k') (profile_commands (fst s1)) = None" "pq_action q' \<noteq> ''create''"
      "pq_profile q' = pq_profile q" "pq_revision q' = pq_revision q" for fp' fromiso' actor' key' k' q' later
  proof
    assume "is_ok (execute_profile fp' fromiso' actor' (PStr key') q' later s1)"
    then obtain s2 result2 where "execute_profile fp' fromiso' actor' (PStr key') q' later s1 = Inr (s2, result2)" by (auto simp: is_ok_iff)
    then obtain r where "pq_profile q' = Some (pf_id r)" "r \<in> set (profiles (fst s1))" "pq_revision q' = PInt (pf_desired_revision r)"
      by (rule executed_row [OF _ other(3,1,2) ids1])
    then show False using other(4,5) p by auto
  qed
  then show ?thesis using p by blast
qed

text \<open>C13. Administrators' profiles are protected. Whatever command other than a renewal runs on the profile of an administrator,
  and whoever sends it, the profile is not being deleted, it is not newly frozen, and it gets no term: its term stays
  or is lifted.\<close>

theorem admin_profile_protected:
  assumes run: "execute_profile fp fromiso actor (PStr key) q now s = Inr (s1, result)" and "pq_action q \<notin> {''create'', ''renew''}"
    and key: "uuid_str key = Some k" "find (is_profile_command actor k) (profile_commands (fst s)) = None"
    and ids: "distinct (map pf_id (profiles (fst s)))" "distinct (map acc_id (accounts (fst s)))" "'''' \<notin> acc_id ` set (accounts (fst s))"
    and admin: "is_admin_profile (fst s) i" "pq_profile q = Some i"
  shows "i \<notin> set (profile_deletions (fst s1))
    \<and> (\<forall>p \<in> set (profiles (fst s)). \<forall>p' \<in> set (profiles (fst s1)). pf_id p = i \<and> pf_id p' = i \<longrightarrow>
         (pf_frozen p' \<longrightarrow> pf_frozen p) \<and> pf_expires_at p' \<in> {None, pf_expires_at p})"
proof (rule executed_row [OF run _ key ids(1)])
  fix p p'
  assume p: "pq_profile q = Some (pf_id p)" "p \<in> set (profiles (fst s))" "pf_id p \<notin> set (profile_deletions (fst s))"
    "profiles (fst s1) = map (\<lambda>r. if pf_id r = pf_id p then p' else r) (profiles (fst s))" "pf_id p' = pf_id p"
    "profile_deletions (fst s1) = profile_deletions (fst s) @ (if pq_action q = ''delete'' then [pf_id p] else [])"
    "admin_guard actor (pq_action q) (pq_values q) p (is_admin_profile (fst s) (pf_id p)) = Inr ()"
    and kept: "is_admin_profile (fst s) (pf_id p) \<Longrightarrow> owner_is_admin (fst s) (pf_owner p) \<Longrightarrow> pq_action q \<noteq> ''renew''
       \<Longrightarrow> (pf_frozen p' \<longrightarrow> pf_frozen p) \<and> pf_expires_at p' \<in> {None, pf_expires_at p}"
  have i: "i = pf_id p" using p(1) admin(2) by simp
  obtain r a where a: "r \<in> set (profiles (fst s))" "pf_id r = i" "a \<in> set (accounts (fst s))" "pf_owner r = Some (acc_id a)" "acc_role a = ''admin''"
    using admin(1) by (auto simp: is_admin_profile_def)
  have "r = p" using distinct_keyD [OF ids(1) a(1) p(2)] a(2) i by simp
  moreover have "find (\<lambda>b. acc_id b = acc_id a) (accounts (fst s)) = Some a" using a(3) ids(2) by (auto intro: find_unique distinct_keyD)
  moreover have ne: "acc_id a \<noteq> []" using a(3) ids(3) by (metis imageI)
  ultimately have "owner_is_admin (fst s) (pf_owner p)" using a(4,5) ne by (simp add: owner_is_admin_def)
  then have row: "(pf_frozen p' \<longrightarrow> pf_frozen p) \<and> pf_expires_at p' \<in> {None, pf_expires_at p}" using kept admin(1) assms(2) i by simp
  have "pq_action q \<noteq> ''delete''" using p(7) admin(1) i by (auto simp: admin_guard_def Let_def)
  then show ?thesis using p i row distinct_keyD [OF ids(1) _ p(2)] by (auto split: if_splits)
qed (use assms(2) in auto)

section \<open>Witnesses\<close>

definition command_site :: site where
  "command_site = (owned_db, sample_auth)"

definition freeze_request :: profile_request where
  "freeze_request = \<lparr>pq_action = ''edit'', pq_profile = Some ''p1'', pq_revision = PInt 1, pq_values = [(''frozen'', PBool True)]\<rparr>"

definition frozen_site :: "(site \<times> profile_result) tx" where
  "frozen_site = execute_profile pq_action (\<lambda>t. None) policy_actor (PStr sample_command) freeze_request 5 command_site"

lemma frozen_site_ok: "frozen_site = Inr (fst (projr frozen_site), snd (projr frozen_site))"
proof -
  have "is_ok frozen_site" by code_simp
  then show ?thesis by (metis is_ok_projr prod.collapse)
qed

theorem execute_profile_once_witness:
  "\<exists>s. execute_profile pq_action (\<lambda>t. None) policy_actor (PStr sample_command) freeze_request 99 (fst (projr frozen_site)) = Inr (s, snd (projr frozen_site))"
proof -
  have "is_ok (admit False (fst (fst (projr frozen_site))))" by code_simp
  then obtain d1 where d1: "admit False (fst (fst (projr frozen_site))) = Inr d1" by (auto simp: is_ok_iff)
  have "may_change_policy policy_actor freeze_request d1 = Inr ()" by (simp add: may_change_policy_def changes_policy_def freeze_request_def py_get_def)
  from execute_profile_once [OF frozen_site_ok [unfolded frozen_site_def] d1 [unfolded frozen_site_def] this] show ?thesis unfolding frozen_site_def by blast
qed

lemma command_site_fresh: "uuid_str sample_command = Some sample_command" "find (is_profile_command policy_actor sample_command) (profile_commands (fst command_site)) = None"
  "distinct (map pf_id (profiles (fst command_site)))" "pq_action freeze_request \<noteq> ''create''"
  by code_simp+

theorem revision_fences_commands_witness:
  "\<exists>p \<in> set (profiles (fst command_site)). pq_profile freeze_request = Some (pf_id p) \<and> pq_revision freeze_request = PInt (pf_desired_revision p)"
  using revision_fences_commands [OF frozen_site_ok [unfolded frozen_site_def] command_site_fresh(4,1,2,3)] by blast

text \<open>The profile of an administrator.\<close>

definition promoted_site :: site where
  "promoted_site = (renewal_db\<lparr>accounts := map (\<lambda>a. a\<lparr>acc_role := ''admin''\<rparr>) (accounts renewal_db)\<rparr>, sample_auth)"

definition unfreeze_request :: profile_request where
  "unfreeze_request = \<lparr>pq_action = ''edit'', pq_profile = Some ''p1'', pq_revision = PInt 1, pq_values = [(''frozen'', PBool False)]\<rparr>"

theorem admin_profile_protected_witness: "''p1'' \<notin> set (profile_deletions (fst (fst (projr
    (execute_profile pq_action (\<lambda>t. None) policy_actor (PStr sample_command) unfreeze_request 5 promoted_site)))))"
proof -
  define r where "r = execute_profile pq_action (\<lambda>t. None) policy_actor (PStr sample_command) unfreeze_request 5 promoted_site"
  have "is_ok r" unfolding r_def by code_simp
  then have r: "execute_profile pq_action (\<lambda>t. None) policy_actor (PStr sample_command) unfreeze_request 5 promoted_site = Inr (fst (projr r), snd (projr r))"
    unfolding r_def by (metis is_ok_projr prod.collapse)
  have "pq_action unfreeze_request \<notin> {''create'', ''renew''}" "uuid_str sample_command = Some sample_command"
    "find (is_profile_command policy_actor sample_command) (profile_commands (fst promoted_site)) = None"
    "distinct (map pf_id (profiles (fst promoted_site)))" "distinct (map acc_id (accounts (fst promoted_site)))" "[] \<notin> acc_id ` set (accounts (fst promoted_site))"
    "is_admin_profile (fst promoted_site) ''p1''" "pq_profile unfreeze_request = Some ''p1''" by code_simp+
  from admin_profile_protected [OF r this] show ?thesis unfolding r_def by blast
qed

end
