(* ===== verification/Account_Commands.thy ===== *)
theory Account_Commands
  imports Profile_Commands
begin

text \<open>
  \<^verbatim>\<open>AccountService.update\<close> and \<^verbatim>\<open>end_sessions\<close> of \<^verbatim>\<open>app/backend/accounts.py\<close>: the whole command that changes an
  account's role, status, login or roles. It claims the login, applies the decision of \<open>Accounts\<close>, gives the account its
  profile, lets an administrator's access last or takes a former administrator's away, and records the command.
\<close>

section \<open>Operations\<close>

text \<open>A new login is claimed for the account, which counts as a change of it.\<close>

definition update_login :: "string \<Rightarrow> string option \<Rightarrow> instant \<Rightarrow> site \<Rightarrow> site tx" where
  "update_login account_id login now s = (case login of
     None \<Rightarrow> Inr s
   | Some l \<Rightarrow>
       if current_login (snd s) account_id = Some l then Inr s
       else res_bind (claim_login account_id (PStr l) ''admin'' now (snd s)) (\<lambda>(a, _). Inr (Accounts.bump_revision account_id (fst s), a)))"

text \<open>What follows from the new role for the account's profile and grants.\<close>

definition follow_role :: "actor \<Rightarrow> account_row \<Rightarrow> string \<Rightarrow> instant \<Rightarrow> db \<Rightarrow> db tx" where
  "follow_role actor row next_role now d =
     res_bind (ensure_account_profile (acc_id row) True now d) (\<lambda>(d1, _).
       if next_role = ''admin'' then restore_admin_expiries (Some actor) (Some (acc_id row)) now d1
       else if acc_role row = ''admin'' then res_bind (reconcile actor now d1) (\<lambda>(e, _). Inr e)
       else Inr d1)"

definition update_row :: "actor \<Rightarrow> account_row \<Rightarrow> update_input \<Rightarrow> instant \<Rightarrow> site \<Rightarrow> site tx" where
  "update_row actor row input now s = (case input of (role, status, roles, login, revision) \<Rightarrow>
     (let next_role = (case role of Some r \<Rightarrow> r | None \<Rightarrow> acc_role row);
          next_status = (case status of Some t \<Rightarrow> t | None \<Rightarrow> acc_status row)
      in res_bind (update_login (acc_id row) login now s) (\<lambda>(d, a).
         res_bind (apply_update actor row next_role next_status roles revision d) (\<lambda>d1.
         res_bind (follow_role actor row next_role now d1) (\<lambda>d2. Inr (d2, shared_accounts d2 a))))))"

definition is_account_command :: "actor \<Rightarrow> string \<Rightarrow> account_command_row \<Rightarrow> bool" where
  "is_account_command actor key c = (cm_actor c = ac_id (actor_account actor) \<and> cm_key c = key)"

definition run_update :: "actor \<Rightarrow> string \<Rightarrow> string \<Rightarrow> update_input \<Rightarrow> instant \<Rightarrow> site \<Rightarrow> (site \<times> account_row) tx" where
  "run_update actor account_id key input now s = (case find (\<lambda>a. acc_id a = account_id) (accounts (fst s)) of
     None \<Rightarrow> Inl (AccessDenied ''resource_not_found'' 404)
   | Some row \<Rightarrow>
       guard (account_id \<notin> set (account_deletions (fst s))) (AccessDenied ''account_deleting'' 409)
       (guard (acc_revision row = snd (snd (snd (snd input)))) (AccessDenied ''revision_conflict'' 412)
       (res_bind (update_row actor row input now s) (\<lambda>(d, a).
         (case find (\<lambda>a. acc_id a = account_id) (accounts d) of
            None \<Rightarrow> Inl TypeError
          | Some result \<Rightarrow>
              Inr ((d\<lparr>account_commands := account_commands d @ [\<lparr>cm_actor = ac_id (actor_account actor), cm_key = key, cm_target = account_id,
                 cm_input = input, cm_result = result\<rparr>]\<rparr>, a), result))))))"

definition account_update :: "actor \<Rightarrow> string \<Rightarrow> update_request \<Rightarrow> pyval \<Rightarrow> instant \<Rightarrow> site \<Rightarrow> (site \<times> account_row) tx" where
  "account_update actor account_id rq command_key now s =
     res_bind (require_permission actor ''accounts.manage'') (\<lambda>_.
     case (case command_key of PStr k \<Rightarrow> uuid_str k | _ \<Rightarrow> None) of
       None \<Rightarrow> Inl (AccessDenied ''invalid_idempotency_key'' 422)
     | Some key \<Rightarrow>
     res_bind (checked_update actor rq) (\<lambda>input.
     res_bind (admit False (fst s)) (\<lambda>d1.
     let d = d1\<lparr>account_guard := account_guard d1 + 1\<rparr> in
     guard (still_admin d actor) (AccessDenied ''permission_denied'' 403)
     (case find (is_account_command actor key) (account_commands d) of
       Some c \<Rightarrow> guard (cm_target c = account_id \<and> cm_input c = input) (AccessDenied ''idempotency_conflict'' 409) (Inr ((d, snd s), cm_result c))
     | None \<Rightarrow> run_update actor account_id key input now (d, snd s)))))"

definition end_sessions :: "actor \<Rightarrow> string \<Rightarrow> instant \<Rightarrow> site \<Rightarrow> site tx" where
  "end_sessions actor account_id now s =
     res_bind (require_permission actor ''accounts.manage'') (\<lambda>_.
     guard (account_id \<in> acc_id ` set (accounts (fst s))) (AccessDenied ''resource_not_found'' 404)
       (Inr (fst s, revoke_all account_id None now (snd s))))"

section \<open>What follows keeps the roles\<close>

definition same_roles :: "db \<Rightarrow> db \<Rightarrow> bool" where
  "same_roles d e = (accounts e = accounts d \<and> role_assignments e = role_assignments d \<and> account_commands e = account_commands d)"

lemma same_roles_refl [simp]: "same_roles d d" by (simp add: same_roles_def)

lemma same_roles_trans: "same_roles a b \<Longrightarrow> same_roles b c \<Longrightarrow> same_roles a c" by (simp add: same_roles_def)

lemma materialize_roles: "same_roles d (fst (materialize i d))"
  by (auto simp: materialize_eq with_member_policy_def store_policy_def same_roles_def)

lemma record_operation_roles: "record_operation actor_id i previous scoped now d = Inr (e, x) \<Longrightarrow> same_roles d e"
  by (drule record_operation_outbox) (auto simp: outbox_only_def same_roles_def)

lemma ensure_account_profile_roles: "ensure_account_profile i create now d = Inr (e, p) \<Longrightarrow> same_roles d e"
  by (auto simp: ensure_account_profile_def same_roles_def rename_profile_def insert_profile_def record_service_def draw_def Let_def res_bind_Inr_iff
      split: option.splits if_splits)

lemma res_fold_same_roles:
  assumes "\<And>x d e. f x d = Inr e \<Longrightarrow> same_roles (g d) (g e)"
  shows "res_fold f xs d = Inr e \<Longrightarrow> same_roles (g d) (g e)"
proof (induction xs arbitrary: d)
  case (Cons x xs)
  then obtain d1 where "f x d = Inr d1" "res_fold f xs d1 = Inr e" by (auto simp: res_bind_Inr_iff)
  with Cons.IH assms same_roles_trans show ?case by blast
qed simp

lemma restore_admin_profile_roles:
  assumes "restore_admin_profile actor now po d = Inr e" shows "same_roles d e"
proof -
  obtain i o_id where po: "po = (i, o_id)" by (cases po)
  obtain d1 changed where m: "materialize i d = (d1, changed)" by (cases "materialize i d")
  have d1: "same_roles d d1" using materialize_roles [of d i] m by simp
  have "same_roles d1 e"
    using assms by (auto simp: restore_admin_profile_def po m Let_def res_bind_Inr_iff same_roles_def split: option.splits if_splits dest!: record_operation_roles)
  with d1 show ?thesis by (rule same_roles_trans)
qed

lemma reconcile_profile_roles:
  assumes "reconcile_profile actor now i acc = Inr acc'" shows "same_roles (fst acc) (fst acc')"
proof -
  obtain d1 changed where m: "materialize i (fst acc) = (d1, changed)" by (cases "materialize i (fst acc)")
  have d1: "same_roles (fst acc) d1" using materialize_roles [of "fst acc" i] m by simp
  have "same_roles d1 (fst acc')"
    using assms by (auto simp: reconcile_profile_def m Let_def res_bind_Inr_iff same_roles_def Devices.bump_revision_def split: if_splits dest!: record_operation_roles)
  with d1 show ?thesis by (rule same_roles_trans)
qed

lemma follow_role_roles:
  assumes "follow_role actor row next_role now d = Inr e" shows "same_roles d e"
proof -
  obtain d1 p where e: "ensure_account_profile (acc_id row) True now d = Inr (d1, p)"
    "(if next_role = ''admin'' then restore_admin_expiries (Some actor) (Some (acc_id row)) now d1
       else if acc_role row = ''admin'' then res_bind (reconcile actor now d1) (\<lambda>(e, _). Inr e) else Inr d1) = Inr e"
    using assms by (auto simp: follow_role_def res_bind_Inr_iff)
  have "same_roles d1 e"
    using e(2) res_fold_same_roles [where g = "\<lambda>d. d", OF restore_admin_profile_roles] res_fold_same_roles [where g = fst, OF reconcile_profile_roles]
    by (fastforce simp: restore_admin_expiries_def reconcile_def res_bind_Inr_iff split: if_splits)
  with ensure_account_profile_roles [OF e(1)] show ?thesis by (rule same_roles_trans)
qed

section \<open>The last owner stays\<close>

text \<open>The decision reads the role and the status of the row, and not its revision.\<close>

lemma row_revision:
  "acc_id (row\<lparr>acc_revision := n\<rparr>) = acc_id row" "acc_role (row\<lparr>acc_revision := n\<rparr>) = acc_role row" "acc_status (row\<lparr>acc_revision := n\<rparr>) = acc_status row"
  by simp_all

lemma current_roles_revision: "current_roles d (row\<lparr>acc_revision := n\<rparr>) = current_roles d row"
  unfolding current_roles_def to_account_def account_roles_def row_revision ..

lemma change_state_revision: "change_state actor (row\<lparr>acc_revision := n\<rparr>) nr ns roles d = change_state actor row nr ns roles d"
  unfolding change_state_def current_roles_revision row_revision ..

lemma apply_update_revision: "apply_update actor (row\<lparr>acc_revision := n\<rparr>) nr ns roles k d = apply_update actor row nr ns roles k d"
  unfolding apply_update_def change_state_revision loses_owner_def roles_changed_def current_roles_revision row_revision ..

lemma apply_update_keeps_owner:
  assumes "apply_update actor row nr ns roles n e = Inr d" and "row\<lparr>acc_revision := k\<rparr> \<in> set (accounts e)" and "roles_wf e" and "1 \<le> owners e"
  shows "roles_wf d \<and> 1 \<le> owners d"
  using apply_update_wf [of actor "row\<lparr>acc_revision := k\<rparr>"] apply_update_owner [of actor "row\<lparr>acc_revision := k\<rparr>"] assms
  unfolding apply_update_revision by blast

lemma update_login_row:
  assumes "update_login (acc_id row) login now s = Inr (d, a)" and "row \<in> set (accounts (fst s))" and "roles_wf (fst s)" and "1 \<le> owners (fst s)"
  shows "(\<exists>k. row\<lparr>acc_revision := k\<rparr> \<in> set (accounts d)) \<and> roles_wf d \<and> 1 \<le> owners d"
proof -
  have "row\<lparr>acc_revision := acc_revision row\<rparr> \<in> set (accounts (fst s))" using assms(2) by simp
  moreover have "row\<lparr>acc_revision := acc_revision row + 1\<rparr> \<in> set (accounts (Accounts.bump_revision (acc_id row) (fst s)))"
    using assms(2) by (simp add: Accounts.bump_revision_def set_update_where)
  moreover have "d = fst s \<or> d = Accounts.bump_revision (acc_id row) (fst s)"
    using assms(1) by (auto simp: update_login_def res_bind_Inr_iff split: option.splits if_splits)
  ultimately show ?thesis using assms(3,4) bump_revision_wf bump_revision_owner by blast
qed

lemma same_roles_owner: "same_roles d e \<Longrightarrow> roles_wf d \<and> 1 \<le> owners d \<Longrightarrow> roles_wf e \<and> 1 \<le> owners e"
  using owners_cong [of d e] roles_wf_cong [of d e] by (simp add: same_roles_def)

lemma update_row_owner:
  assumes "update_row actor row input now s = Inr (d, a)" and "row \<in> set (accounts (fst s))" and "roles_wf (fst s)" and "1 \<le> owners (fst s)"
  shows "roles_wf d \<and> 1 \<le> owners d"
proof -
  obtain role status roles login revision where input: "input = (role, status, roles, login, revision)" by (cases input)
  obtain d1 a1 nr ns d2 where l: "update_login (acc_id row) login now s = Inr (d1, a1)"
    and u: "apply_update actor row nr ns roles revision d1 = Inr d2" and f: "follow_role actor row nr now d2 = Inr d"
    using assms(1) by (auto simp: update_row_def input Let_def res_bind_Inr_iff)
  obtain k where "row\<lparr>acc_revision := k\<rparr> \<in> set (accounts d1)" "roles_wf d1" "1 \<le> owners d1"
    using update_login_row [OF l assms(2-4)] by blast
  then have "roles_wf d2 \<and> 1 \<le> owners d2" by (rule apply_update_keeps_owner [OF u])
  then show ?thesis by (rule same_roles_owner [OF follow_role_roles [OF f]])
qed

text \<open>C2. The installation never loses its last owner: every accepted account update, whoever issues it and whatever it asks
  for, with all that follows from it for logins, profiles and grants, keeps the role tables well formed and leaves at
  least one active owner when there was one.\<close>

theorem account_update_keeps_owner:
  assumes "account_update actor account_id rq key now s = Inr (s', result)" and "roles_wf (fst s)" and "1 \<le> owners (fst s)"
  shows "roles_wf (fst s') \<and> 1 \<le> owners (fst s')"
proof -
  obtain k input d1 where ok: "admit False (fst s) = Inr d1"
    and c: "(let d = d1\<lparr>account_guard := account_guard d1 + 1\<rparr> in guard (still_admin d actor) (AccessDenied ''permission_denied'' 403)
     (case find (is_account_command actor k) (account_commands d) of
       Some c \<Rightarrow> guard (cm_target c = account_id \<and> cm_input c = input) (AccessDenied ''idempotency_conflict'' 409) (Inr ((d, snd s), cm_result c))
     | None \<Rightarrow> run_update actor account_id k input now (d, snd s))) = Inr (s', result)"
    using assms(1) unfolding account_update_def res_bind_Inr_iff by (auto simp: res_bind_Inr_iff split: option.splits)
  define d where "d = d1\<lparr>account_guard := account_guard d1 + 1\<rparr>"
  have "same_roles (fst s) d" using admit_Inr [OF ok] by (simp add: same_roles_def d_def)
  then have wf: "roles_wf d \<and> 1 \<le> owners d" using same_roles_owner assms(2,3) by blast
  show ?thesis
  proof (cases "find (is_account_command actor k) (account_commands d)")
    case (Some r)
    then have "fst s' = d" using c by (auto simp: d_def [symmetric])
    with wf show ?thesis by simp
  next
    case None
    then have "run_update actor account_id k input now (d, snd s) = Inr (s', result)" using c by (simp add: d_def [symmetric])
    then obtain row e a c where r: "find (\<lambda>a. acc_id a = account_id) (accounts d) = Some row" "update_row actor row input now (d, snd s) = Inr (e, a)"
      "fst s' = e\<lparr>account_commands := c\<rparr>"
      by (auto simp: run_update_def res_bind_Inr_iff split: option.splits)
    have "roles_wf e \<and> 1 \<le> owners e" using update_row_owner [OF r(2)] find_Some_iff [OF r(1)] wf by simp
    then show ?thesis using owners_cong [of "fst s'" e] roles_wf_cong [of "fst s'" e] by (simp add: r(3))
  qed
qed

text \<open>C40. A renewal is the one command that does not look at the owner's role. Whenever one is accepted for the profile of an
  administrator, the profile, which need not have had a term, gets one of 1 to 3650 days after the remaining time, and
  its owner is still an administrator. The term stands until the worker's next pass lifts it again. In the witness a member asks for a renewal, is promoted by an account update, which lifts the
  term of the profile, and the request is approved after that.\<close>

theorem renewal_gives_admin_a_term:
  assumes run: "execute_profile fp fromiso actor (PStr key) q now s = Inr (s1, result)" and act: "pq_action q = ''renew''"
    and key: "uuid_str key = Some k" "find (is_profile_command actor k) (profile_commands (fst s)) = None" and ids: "distinct (map pf_id (profiles (fst s)))"
    and admin: "is_admin_profile (fst s) i" "pq_profile q = Some i"
  shows "is_admin_profile (fst s1) i \<and> (\<exists>p \<in> set (profiles (fst s)). \<exists>p' \<in> set (profiles (fst s1)). \<exists>days. pf_id p = i \<and> pf_id p' = i \<and> 1 \<le> days \<and> days \<le> 3650
    \<and> pf_expires_at p' = Some (max now (case pf_expires_at p of None \<Rightarrow> now | Some u \<Rightarrow> u) + days * day))"
proof -
  let ?s = "((fst s)\<lparr>account_guard := account_guard (fst s) + 1\<rparr>, snd s)"
  have ran: "run_command fromiso actor k (fp q) q now ?s = Inr (s1, result)" using run by (cases rule: executed_cases) (use key in auto)
  have ids': "distinct (map pf_id (profiles (fst ?s)))" using ids by simp
  obtain p t d1 where p: "pq_profile q = Some (pf_id p)" "p \<in> set (profiles (fst ?s))"
    "approve_renewal (ac_id (actor_account actor)) (pf_id p) (pf_expires_at p) (PDict (pq_values q)) now (fst ?s) = Inr (d1, t)"
    and ps: "profiles (fst s1) = map (\<lambda>r. if pf_id r = pf_id p then p\<lparr>pf_expires_at := Some t, pf_desired_revision := pf_desired_revision p + 1\<rparr> else r) (profiles (fst ?s))"
    and accounts: "accounts (fst s1) = accounts (fst ?s)"
    by (rule ran_renewal [OF ran act ids'])
  let ?p = "p\<lparr>pf_expires_at := Some t, pf_desired_revision := pf_desired_revision p + 1\<rparr>"
  have i: "pf_id p = i" using p(1) admin(2) by simp
  have mem: "?p \<in> set (profiles (fst s1))" using p(2) unfolding ps by force
  obtain days where days: "1 \<le> days" "days \<le> 3650" "renewed_until (pf_expires_at p) days now = Inr t"
    using p(3) by (cases rule: approve_renewalE) (use renewal_days_bounds in blast)
  have "t = max now (case pf_expires_at p of None \<Rightarrow> now | Some u \<Rightarrow> u) + days * day"
    using days(3) by (auto simp: renewed_until_def max_def split: option.splits if_splits)
  with days i mem p(2) have timed: "\<exists>p \<in> set (profiles (fst s)). \<exists>p' \<in> set (profiles (fst s1)). \<exists>days. pf_id p = i \<and> pf_id p' = i \<and> 1 \<le> days \<and> days \<le> 3650
    \<and> pf_expires_at p' = Some (max now (case pf_expires_at p of None \<Rightarrow> now | Some u \<Rightarrow> u) + days * day)"
    by (intro bexI [of _ p] bexI [OF _ mem] exI [of _ days]) simp_all
  obtain r a where a: "r \<in> set (profiles (fst s))" "pf_id r = i" "a \<in> set (accounts (fst s))" "pf_owner r = Some (acc_id a)" "acc_role a = ''admin''"
    using admin(1) by (auto simp: is_admin_profile_def)
  have "r = p" using distinct_keyD [OF ids a(1)] p(2) a(2) i by simp
  then have "is_admin_profile (fst s1) i" using mem a(3-5) i accounts unfolding is_admin_profile_def by (intro bexI [OF _ mem] conjI bexI [of _ a]) simp_all
  with timed show ?thesis by blast
qed

section \<open>Witnesses\<close>

definition sample_site :: site where
  "sample_site = (operation_db\<lparr>accounts := [\<lparr>acc_id = ''a'', acc_role = ''admin'', acc_status = ''approved'', acc_revision = 1, acc_display_name = None\<rparr>,
     \<lparr>acc_id = ''b'', acc_role = ''member'', acc_status = ''approved'', acc_revision = 3, acc_display_name = None\<rparr>]\<rparr>, sample_auth)"

definition owner_request :: update_request where
  "owner_request = \<lparr>uq_role = None, uq_status = None, uq_roles = Some [''owner''], uq_login = Some ''bea.2'', uq_revision = 3\<rparr>"

theorem account_update_keeps_owner_witness:
  "1 \<le> owners (fst (fst (projr (account_update sample_owner ''b'' owner_request (PStr sample_command) 9 sample_site))))"
proof -
  define r where "r = account_update sample_owner ''b'' owner_request (PStr sample_command) 9 sample_site"
  have "is_ok r" unfolding r_def by code_simp
  then have r: "account_update sample_owner ''b'' owner_request (PStr sample_command) 9 sample_site = Inr (fst (projr r), snd (projr r))"
    unfolding r_def by (metis is_ok_projr prod.collapse)
  have "roles_wf (fst sample_site)" "1 \<le> owners (fst sample_site)" by code_simp+
  from account_update_keeps_owner [OF r this] show ?thesis unfolding r_def by blast
qed

text \<open>The member \<open>b\<close> asks for a renewal of a profile that ends, and is promoted.\<close>

definition asked_site :: site where
  "asked_site = ((fst sample_site)\<lparr>profiles := map (\<lambda>p. p\<lparr>pf_owner := Some ''b'', pf_expires_at := Some (9 * day)\<rparr>) (profiles (fst sample_site)),
     renewals := [fresh_renewal ''r1'' ''p1'' ''b'' ''k'' 3]\<rparr>, sample_auth)"

definition promote_request :: update_request where
  "promote_request = \<lparr>uq_role = Some ''admin'', uq_status = None, uq_roles = None, uq_login = None, uq_revision = 3\<rparr>"

definition promoted :: site where
  "promoted = fst (projr (account_update sample_owner ''b'' promote_request (PStr sample_command) 9 asked_site))"

definition renew_request :: profile_request where
  "renew_request = \<lparr>pq_action = ''renew'', pq_profile = Some ''p1'', pq_revision = PInt 2, pq_values = [(''request_id'', PStr ''r1''), (''days'', PInt 30)]\<rparr>"

theorem renewal_gives_admin_a_term_witness:
  "is_ok (account_update sample_owner ''b'' promote_request (PStr sample_command) 9 asked_site)
   \<and> map pf_expires_at (profiles (fst asked_site)) = [Some (9 * day)] \<and> map pf_expires_at (profiles (fst promoted)) = [None]
   \<and> (\<exists>s r. execute_profile pq_action (\<lambda>t. None) policy_actor (PStr sample_command) renew_request 10 promoted = Inr (s, r) \<and> is_admin_profile (fst s) ''p1''
        \<and> (\<exists>p \<in> set (profiles (fst s)). pf_id p = ''p1'' \<and> pf_expires_at p \<noteq> None))"
proof -
  define r where "r = execute_profile pq_action (\<lambda>t. None) policy_actor (PStr sample_command) renew_request 10 promoted"
  have "is_ok r" unfolding r_def by code_simp
  then have r: "execute_profile pq_action (\<lambda>t. None) policy_actor (PStr sample_command) renew_request 10 promoted = Inr (fst (projr r), snd (projr r))"
    unfolding r_def by (metis is_ok_projr prod.collapse)
  have "pq_action renew_request = ''renew''" "uuid_str sample_command = Some sample_command"
    "find (is_profile_command policy_actor sample_command) (profile_commands (fst promoted)) = None"
    "distinct (map pf_id (profiles (fst promoted)))" "is_admin_profile (fst promoted) ''p1''" "pq_profile renew_request = Some ''p1''" by code_simp+
  note renewed = renewal_gives_admin_a_term [OF r this]
  have "is_ok (account_update sample_owner ''b'' promote_request (PStr sample_command) 9 asked_site)"
    "map pf_expires_at (profiles (fst asked_site)) = [Some (9 * day)]" "map pf_expires_at (profiles (fst promoted)) = [None]" by code_simp+
  with r renewed show ?thesis by (metis option.distinct(1))
qed

end
