(* ===== verification/Workstation_Pairings.thy ===== *)
theory Workstation_Pairings
  imports Client_Keys
begin

text \<open>
  \<^verbatim>\<open>app/backend/workstation_pairings.py\<close>: linking Workstation to an account. Workstation asks with its public key and
  gets a short code, a staff member confirms the code, and the key then belongs to that account. The address of the
  cabinet, read by \<open>web_cabinet.origin\<close>, is an argument, and so is what upper-casing makes of a character that is not
  ASCII (\<open>up\<close>, the letters and digits of \<open>c.upper()\<close>).
\<close>

section \<open>Operations\<close>

definition PAIRING_TTL :: int where "PAIRING_TTL = 10 * minute"
definition PER_SOURCE :: nat where "PER_SOURCE = 5"
definition PAIRING_WINDOW :: int where "PAIRING_WINDOW = 15 * minute"
definition PENDING_LIMIT :: nat where "PENDING_LIMIT = 100"

definition code_char :: "(char \<Rightarrow> string) \<Rightarrow> char \<Rightarrow> string" where
  "code_char up c = (if ascii_digit c \<or> ascii_alpha c then [upper_char c] else if of_char c < (128 :: nat) then [] else up c)"

definition code_key :: "(char \<Rightarrow> string) \<Rightarrow> string \<Rightarrow> string" where
  "code_key up s = take 16 (concat (map (code_char up) s))"

definition shown :: "string \<Rightarrow> string" where
  "shown code = take 4 code @ ''-'' @ drop 4 code"

definition require_staff :: "actor \<Rightarrow> unit tx" where
  "require_staff actor =
     guard (pr_kind (actor_principal actor) = ACCOUNT) (AccessDenied ''pairing_not_through_adapter'' 403)
     (guard (ac_role (actor_account actor) = ''admin'') (AccessDenied ''permission_denied'' 403) (Inr ()))"

definition pairing_name :: "string option \<Rightarrow> string" where
  "pairing_name name = (let n = take 64 (join_words (words_from [] (case name of None \<Rightarrow> [] | Some s \<Rightarrow> s))) in if n = [] then ''Workstation'' else n)"

definition draw_code :: "auth_db \<Rightarrow> string \<times> auth_db" where
  "draw_code d = (au_code d (au_drawn d), d\<lparr>au_drawn := Suc (au_drawn d)\<rparr>)"

text \<open>\<open>None\<close> when the search never ends.\<close>

partial_function (option) fresh_code :: "auth_db \<Rightarrow> (string \<times> auth_db) option" where
  [code]: "fresh_code d = (let (code, d1) = draw_code d in if code \<in> wp_code ` set (au_pairings d1) then fresh_code d1 else Some (code, d1))"

definition recent_requests :: "string \<Rightarrow> instant \<Rightarrow> auth_db \<Rightarrow> nat" where
  "recent_requests source now d = length (filter (\<lambda>p. wp_source p = source \<and> wp_created_at p > now - PAIRING_WINDOW) (au_pairings d))"

definition open_pairings :: "instant \<Rightarrow> auth_db \<Rightarrow> nat" where
  "open_pairings now d = length (filter (\<lambda>p. wp_status p = ''pending'' \<and> wp_expires_at p > now) (au_pairings d))"

definition insert_pairing :: "string \<Rightarrow> string \<Rightarrow> string \<Rightarrow> string \<Rightarrow> instant \<Rightarrow> auth_db \<Rightarrow> (auth_db \<times> string) tx" where
  "insert_pairing key code name source now d =
     (let (i, d1) = draw_hex d
      in guard (i \<notin> wp_id ` set (au_pairings d1)) IntegrityError
        (Inr (d1\<lparr>au_pairings := au_pairings d1 @ [\<lparr>wp_id = i, wp_code = code, wp_public_key = key, wp_name = name, wp_source = source, wp_status = ''pending'',
           wp_account = None, wp_key = None, wp_created_at = now, wp_expires_at = now + PAIRING_TTL\<rparr>]\<rparr>, i)))"

text \<open>The answer: the id, the code as shown, when it expires, and the address to open.\<close>

definition pairing_answer :: "string option \<Rightarrow> string \<Rightarrow> string \<Rightarrow> instant \<Rightarrow> string \<times> string \<times> instant \<times> string option" where
  "pairing_answer url i code now = (i, shown code, now + PAIRING_TTL,
     (case url of None \<Rightarrow> None | Some u \<Rightarrow> if u = [] then None else Some (u @ ''/pair?code='' @ shown code)))"

definition request_pairing ::
  "ed25519 \<Rightarrow> string option \<Rightarrow> pyval \<Rightarrow> string option \<Rightarrow> string \<Rightarrow> instant \<Rightarrow> auth_db \<Rightarrow> (auth_db \<times> string \<times> string \<times> instant \<times> string option) tx option" where
  "request_pairing ed url v name source now d0 = (case public_key ed v of
     Inl e \<Rightarrow> Some (Inl e)
   | Inr key \<Rightarrow>
       (let d = d0\<lparr>au_pairings := filter (\<lambda>p. \<not> wp_expires_at p < now - day) (au_pairings d0)\<rparr> in
        if recent_requests source now d \<ge> PER_SOURCE \<or> open_pairings now d \<ge> PENDING_LIMIT then Some (Inl (AccessDenied ''pairing_rate_limited'' 429))
        else if key \<in> ck_public_key ` set (au_client_keys d) then Some (Inl (AccessDenied ''client_key_exists'' 409))
        else map_option (\<lambda>(code, d1). res_bind (insert_pairing key code (pairing_name name) source now d1) (\<lambda>(d2, i). Inr (d2, pairing_answer url i code now)))
          (fresh_code d)))"

text \<open>The state of a request, the id of the key once it is approved, and when the request expires.\<close>

definition pairing_status :: "string \<Rightarrow> instant \<Rightarrow> auth_db \<Rightarrow> (string \<times> string option \<times> instant) tx" where
  "pairing_status pairing_id now d = (case find (\<lambda>p. wp_id p = pairing_id) (au_pairings d) of
     None \<Rightarrow> Inl (AccessDenied ''resource_not_found'' 404)
   | Some p \<Rightarrow>
       (let state = (if wp_status p = ''pending'' \<and> wp_expires_at p \<le> now then ''expired'' else wp_status p)
        in Inr (state, (if state = ''approved'' then wp_key p else None), wp_expires_at p)))"

definition pending_pairing :: "(char \<Rightarrow> string) \<Rightarrow> string \<Rightarrow> instant \<Rightarrow> auth_db \<Rightarrow> pairing_row tx" where
  "pending_pairing up code now d = (case find (\<lambda>p. wp_code p = code_key up code) (au_pairings d) of
     None \<Rightarrow> Inl (AccessDenied ''pairing_not_found'' 404)
   | Some p \<Rightarrow> guard (wp_status p = ''pending'' \<and> \<not> wp_expires_at p \<le> now) (AccessDenied ''pairing_not_found'' 404) (Inr p))"

definition preview_pairing :: "(char \<Rightarrow> string) \<Rightarrow> actor \<Rightarrow> string \<Rightarrow> instant \<Rightarrow> auth_db \<Rightarrow> (string \<times> string \<times> string \<times> instant \<times> instant) tx" where
  "preview_pairing up actor code now d =
     res_bind (require_staff actor) (\<lambda>_. res_bind (pending_pairing up code now d) (\<lambda>p.
       Inr (shown (wp_code p), wp_name p, wp_source p, wp_created_at p, wp_expires_at p)))"

definition settle_pairing :: "string \<Rightarrow> (pairing_row \<Rightarrow> pairing_row) \<Rightarrow> auth_db \<Rightarrow> auth_db" where
  "settle_pairing i f d = d\<lparr>au_pairings := update_where (\<lambda>p. wp_id p = i) f (au_pairings d)\<rparr>"

definition decide_pairing :: "(char \<Rightarrow> string) \<Rightarrow> ed25519 \<Rightarrow> actor \<Rightarrow> string \<Rightarrow> bool \<Rightarrow> instant \<Rightarrow> auth_db \<Rightarrow> (auth_db \<times> string \<times> string) tx" where
  "decide_pairing up ed actor code approve now d =
     res_bind (require_staff actor) (\<lambda>_.
     res_bind (pending_pairing up code now d) (\<lambda>p.
       (let account_id = ac_id (actor_account actor) in
        if approve then
          res_bind (register_key ed ''workstation'' (PStr (wp_public_key p)) (wp_name p) (Some account_id) now d) (\<lambda>(d1, key_id).
            Inr (settle_pairing (wp_id p) (\<lambda>q. q\<lparr>wp_status := ''approved'', wp_account := Some account_id, wp_key := Some key_id\<rparr>) d1, ''approved'', wp_name p))
        else Inr (settle_pairing (wp_id p) (\<lambda>q. q\<lparr>wp_status := ''rejected'', wp_account := Some account_id\<rparr>) d, ''rejected'', wp_name p))))"

definition workstation_keys :: "auth_db \<Rightarrow> string \<Rightarrow> client_key_row list" where
  "workstation_keys d account_id = filter (\<lambda>k. ck_account k = Some account_id \<and> ck_kind k = ''workstation'' \<and> ck_revoked_at k = None) (au_client_keys d)"

definition listed_keys :: "auth_db \<Rightarrow> string \<Rightarrow> client_key_row list" where
  "listed_keys d account_id = order_by ck_created_at (workstation_keys d account_id)"

definition count_keys :: "auth_db \<Rightarrow> string \<Rightarrow> nat" where
  "count_keys d account_id = length (workstation_keys d account_id)"

section \<open>Codes\<close>

lemma fresh_codeD:
  assumes "fresh_code d = Some (code, e)"
  shows "code \<notin> wp_code ` set (au_pairings d) \<and> (\<exists>n. e = d\<lparr>au_drawn := n\<rparr>)"
proof -
  have "fst (code, e) \<notin> wp_code ` set (au_pairings d) \<and> (\<exists>n. snd (code, e) = d\<lparr>au_drawn := n\<rparr>)"
    by (rule fresh_code.raw_induct [OF _ assms, of "\<lambda>d r. fst r \<notin> wp_code ` set (au_pairings d) \<and> (\<exists>n. snd r = d\<lparr>au_drawn := n\<rparr>)"])
       (fastforce simp: Let_def draw_code_def split: if_splits)
  then show ?thesis by simp
qed

text \<open>The search ends when the generator comes to a code that is not in use.\<close>

lemma fresh_code_ends: "au_code d (au_drawn d + k) \<notin> wp_code ` set (au_pairings d) \<Longrightarrow> \<exists>code e. fresh_code d = Some (code, e)"
proof (induction k arbitrary: d)
  case 0
  then show ?case by (subst fresh_code.simps) (simp add: draw_code_def)
next
  case (Suc k)
  show ?case
  proof (cases "au_code d (au_drawn d) \<in> wp_code ` set (au_pairings d)")
    case True
    have "\<exists>code e. fresh_code (d\<lparr>au_drawn := Suc (au_drawn d)\<rparr>) = Some (code, e)" using Suc by (intro Suc.IH) simp
    with True show ?thesis by (subst fresh_code.simps) (simp add: draw_code_def)
  next
    case False
    then show ?thesis by (subst fresh_code.simps) (simp add: draw_code_def)
  qed
qed

text \<open>A code is typed as it is shown, in any case, with or without its dash.\<close>

lemma code_key_shown:
  assumes "list_all (\<lambda>c. ascii_digit c \<or> ascii_upper c) code" and "length code \<le> 16"
  shows "code_key up (shown code) = code" "code_key up code = code"
proof -
  have same: "concat (map (code_char up) s) = s" if "list_all (\<lambda>c. ascii_digit c \<or> ascii_upper c) s" for s
    using that by (induction s) (auto simp: code_char_def upper_char_def ascii_alpha_def ascii_upper_def ascii_lower_def ascii_digit_def Let_def)
  have dash: "code_char up CHR ''-'' = []" by (simp add: code_char_def str_simps)
  have "list_all (\<lambda>c. ascii_digit c \<or> ascii_upper c) (take 4 code)" "list_all (\<lambda>c. ascii_digit c \<or> ascii_upper c) (drop 4 code)"
    using assms(1) unfolding list_all_iff by (auto dest: in_set_takeD in_set_dropD)
  with same dash assms(2) show "code_key up (shown code) = code" by (simp add: code_key_def shown_def)
  show "code_key up code = code" using same [OF assms(1)] assms(2) by (simp add: code_key_def)
qed

section \<open>A link is made once, by the one who confirms it\<close>

text \<open>Ids and codes are unique, and so are the public keys and the ids of keys.\<close>

definition pairings_wf :: "auth_db \<Rightarrow> bool" where
  "pairings_wf d = (distinct (map wp_id (au_pairings d)) \<and> distinct (map wp_code (au_pairings d))
     \<and> distinct (map ck_id (au_client_keys d)) \<and> distinct (map ck_public_key (au_client_keys d)))"

lemma register_keyD:
  assumes "register_key ed kind v name account_id now d = Inr (e, i)"
  obtains key where "public_key ed v = Inr key" "key \<notin> ck_public_key ` set (au_client_keys d)" "i \<notin> ck_id ` set (au_client_keys d)"
    "au_client_keys e = au_client_keys d @ [\<lparr>ck_id = i, ck_kind = kind, ck_public_key = key, ck_account = account_id,
       ck_name = take 64 name, ck_created_at = now, ck_last_used_at = None, ck_revoked_at = None\<rparr>]"
    "au_pairings e = au_pairings d" "au_accounts e = au_accounts d"
  using assms by (auto simp: register_key_def res_bind_Inr_iff draw_hex_def Let_def)

lemma pending_pairingD:
  "pending_pairing up code now d = Inr p \<Longrightarrow> p \<in> set (au_pairings d) \<and> wp_code p = code_key up code \<and> wp_status p = ''pending'' \<and> now < wp_expires_at p"
  by (auto simp: pending_pairing_def split: option.splits dest: find_Some_iff)

lemma settle_pairing_refuses:
  assumes "distinct (map wp_code (au_pairings d))" and "p \<in> set (au_pairings d)" and "wp_code p = code_key up code"
    and "\<And>q. wp_code (f q) = wp_code q" and "wp_status (f p) \<noteq> ''pending''"
  shows "pending_pairing up code later (settle_pairing (wp_id p) f d) = Inl (AccessDenied ''pairing_not_found'' 404)"
proof -
  have "find (\<lambda>q. wp_code q = code_key up code) (au_pairings d) = Some p"
    using assms(2,3) distinct_keyD [OF assms(1)] by (intro find_unique) auto
  then have "find (\<lambda>q. wp_code q = code_key up code) (au_pairings (settle_pairing (wp_id p) f d)) = Some (f p)"
    using assms(4) by (simp add: settle_pairing_def find_update_where)
  then show ?thesis using assms(5) by (simp add: pending_pairing_def)
qed

text \<open>C16. Confirming a code links exactly one key, to the one who confirms it. It needs an account, not the Telegram adapter,
  with staff rights, and a request that is pending and has not expired. An approval registers one Workstation key, with
  the public key and name of the request, for that account and nobody else; a rejection registers none. Either way the
  code is spent: deciding it again is refused, at any time, by anyone.\<close>

theorem pairing_decided_once:
  assumes wf: "pairings_wf d" and dec: "decide_pairing up ed actor code approve now d = Inr (e, st, name)"
  shows "pr_kind (actor_principal actor) = ACCOUNT \<and> ac_role (actor_account actor) = ''admin''
    \<and> (\<exists>p \<in> set (au_pairings d). wp_code p = code_key up code \<and> wp_status p = ''pending'' \<and> now < wp_expires_at p
        \<and> (if approve then \<exists>k. au_client_keys e = au_client_keys d @ [k] \<and> ck_account k = Some (ac_id (actor_account actor)) \<and> ck_kind k = ''workstation''
             \<and> public_key ed (PStr (wp_public_key p)) = Inr (ck_public_key k) \<and> ck_revoked_at k = None
           else au_client_keys e = au_client_keys d))
    \<and> pairings_wf e
    \<and> (\<forall>actor' approve' later. \<exists>err. decide_pairing up ed actor' code approve' later e = Inl err)"
proof -
  let ?a = "ac_id (actor_account actor)"
  obtain p where p: "pending_pairing up code now d = Inr p" and staff: "require_staff actor = Inr ()"
    using dec by (auto simp: decide_pairing_def res_bind_Inr_iff)
  note pp = pending_pairingD [OF p]
  obtain d1 f where e: "e = settle_pairing (wp_id p) f d1" and f: "\<And>q. wp_id (f q) = wp_id q \<and> wp_code (f q) = wp_code q" "wp_status (f p) \<noteq> ''pending''"
    and keys: "if approve then \<exists>k. au_client_keys d1 = au_client_keys d @ [k] \<and> ck_account k = Some ?a \<and> ck_kind k = ''workstation''
             \<and> public_key ed (PStr (wp_public_key p)) = Inr (ck_public_key k) \<and> ck_revoked_at k = None
             \<and> ck_id k \<notin> ck_id ` set (au_client_keys d) \<and> ck_public_key k \<notin> ck_public_key ` set (au_client_keys d)
           else au_client_keys d1 = au_client_keys d"
    and same: "au_pairings d1 = au_pairings d"
  proof (cases approve)
    case True
    then obtain d1 i where r: "register_key ed ''workstation'' (PStr (wp_public_key p)) (wp_name p) (Some ?a) now d = Inr (d1, i)"
      and e: "e = settle_pairing (wp_id p) (\<lambda>q. q\<lparr>wp_status := ''approved'', wp_account := Some ?a, wp_key := Some i\<rparr>) d1"
      using dec p staff by (auto simp: decide_pairing_def Let_def res_bind_Inr_iff)
    obtain key where "public_key ed (PStr (wp_public_key p)) = Inr key" "key \<notin> ck_public_key ` set (au_client_keys d)" "i \<notin> ck_id ` set (au_client_keys d)"
      "au_client_keys d1 = au_client_keys d @ [\<lparr>ck_id = i, ck_kind = ''workstation'', ck_public_key = key, ck_account = Some ?a,
         ck_name = take 64 (wp_name p), ck_created_at = now, ck_last_used_at = None, ck_revoked_at = None\<rparr>]" "au_pairings d1 = au_pairings d"
      by (rule register_keyD [OF r])
    then show thesis by (intro that [OF e]) (simp_all add: True)
  next
    case False
    then have e: "e = settle_pairing (wp_id p) (\<lambda>q. q\<lparr>wp_status := ''rejected'', wp_account := Some ?a\<rparr>) d"
      using dec p staff by (auto simp: decide_pairing_def)
    show thesis by (rule that [OF e]) (simp_all add: False)
  qed
  have ke: "au_client_keys e = au_client_keys d1" unfolding e by (simp add: settle_pairing_def)
  have "pairings_wf e" using wf keys f(1) unfolding pairings_wf_def ke unfolding e settle_pairing_def
    by (auto simp: map_update_where same split: if_splits)
  moreover have "pending_pairing up code later e = Inl (AccessDenied ''pairing_not_found'' 404)" for later
    unfolding e using wf pp f same by (intro settle_pairing_refuses) (simp_all add: pairings_wf_def)
  then have "\<exists>err. decide_pairing up ed actor' code approve' later e = Inl err" for actor' approve' later
    by (cases "require_staff actor'") (auto simp: decide_pairing_def)
  moreover have "pr_kind (actor_principal actor) = ACCOUNT \<and> ac_role (actor_account actor) = ''admin''"
    using staff by (simp add: require_staff_def)
  moreover have "if approve then \<exists>k. au_client_keys e = au_client_keys d @ [k] \<and> ck_account k = Some ?a \<and> ck_kind k = ''workstation''
             \<and> public_key ed (PStr (wp_public_key p)) = Inr (ck_public_key k) \<and> ck_revoked_at k = None
           else au_client_keys e = au_client_keys d" using keys unfolding ke by auto
  ultimately show ?thesis using pp by blast
qed

section \<open>Witness\<close>

definition paired_auth :: auth_db where
  "paired_auth = keyed_auth\<lparr>au_pairings := [\<lparr>wp_id = ''w1'', wp_code = ''K7M2QX9A'', wp_public_key = replicate 43 CHR ''p'', wp_name = ''Desk'', wp_source = ''s'',
     wp_status = ''pending'', wp_account = None, wp_key = None, wp_created_at = 0, wp_expires_at = PAIRING_TTL\<rparr>]\<rparr>"

definition confirmed :: "(auth_db \<times> string \<times> string) tx" where
  "confirmed = decide_pairing (\<lambda>c. []) sample_ed sample_owner ''k7m2-qx9a'' True minute paired_auth"

theorem pairing_decided_once_witness:
  "length (au_client_keys (fst (projr confirmed))) = 2
    \<and> (\<exists>err. decide_pairing (\<lambda>c. []) sample_ed sample_owner ''k7m2-qx9a'' False (2 * minute) (fst (projr confirmed)) = Inl err)"
proof -
  have "is_ok confirmed" "pairings_wf paired_auth" "length (au_client_keys paired_auth) = 1" by code_simp+
  then obtain e st name where c: "confirmed = Inr (e, st, name)" by (auto simp: is_ok_iff)
  from pairing_decided_once [OF \<open>pairings_wf paired_auth\<close> c [unfolded confirmed_def]] \<open>length (au_client_keys paired_auth) = 1\<close>
  show ?thesis by (auto simp: c)
qed

end
