(* ===== verification/Device_Commands.thy ===== *)
theory Device_Commands
  imports Devices
begin

text \<open>
  \<^verbatim>\<open>app/backend/device_commands.py\<close>: creating, renaming, deleting and reissuing a device, each an authorized command that
  takes effect once per command key. Unicode is the arguments of \<open>device_name\<close>: whether a character is in a control
  category, and the normal forms NFC and case-folded NFKC. The digest of a request is the argument \<open>fp\<close>. A command that
  never finds a free runtime name does not return, which is \<^const>\<open>None\<close>.
\<close>

section \<open>Names and limits\<close>

record unicode =
  uc_control :: "char \<Rightarrow> bool"
  uc_nfc :: "string \<Rightarrow> string"
  uc_key :: "string \<Rightarrow> string"

definition device_name :: "unicode \<Rightarrow> pyval \<Rightarrow> (string \<times> string) tx" where
  "device_name uc v = (case v of
     PStr s \<Rightarrow>
       guard (\<not> list_ex (uc_control uc) s) (AccessDenied ''invalid_device_name'' 422)
       (let display = uc_nfc uc (join_words (words_from [] s)) in
        guard (display \<noteq> [] \<and> length display \<le> 64) (AccessDenied ''invalid_device_name'' 422) (Inr (display, uc_key uc display)))
   | _ \<Rightarrow> Inl (AccessDenied ''invalid_device_name'' 422))"

definition device_limit :: "db \<Rightarrow> string \<Rightarrow> pyval tx" where
  "device_limit d profile_id =
     res_bind (effective d (no_target\<lparr>tg_profile := Some profile_id\<rparr>) (Some [''devices.max''])) (\<lambda>values.
       Inr (case map_of values ''devices.max'' of Some v \<Rightarrow> v | None \<Rightarrow> PNone))"

definition active_devices_of :: "db \<Rightarrow> string \<Rightarrow> device_row list" where
  "active_devices_of d profile_id = filter (\<lambda>v. dv_profile v = profile_id \<and> dv_status v = DevActive) (devices d)"

text \<open>\<open>any(\<dots>)\<close> over the profile's devices stops at the first conflict, and at the first stored name that is refused.\<close>

fun name_taken :: "unicode \<Rightarrow> string \<Rightarrow> string \<Rightarrow> device_row list \<Rightarrow> bool tx" where
  "name_taken uc device_id name_key [] = Inr False"
| "name_taken uc device_id name_key (v # vs) =
     (if dv_id v = device_id then name_taken uc device_id name_key vs
      else res_bind (device_name uc (PStr (dv_display_name v))) (\<lambda>(_, k).
        if k = name_key then Inr True else name_taken uc device_id name_key vs))"

section \<open>The command\<close>

record device_request =
  dr_action :: string
  dr_profile :: string
  dr_device :: "string option"
  dr_revision :: pyval
  dr_name :: pyval
  dr_protocol :: string

text \<open>The checks before the transaction; the name and its key of a command that sets one.\<close>

definition checked_request :: "unicode \<Rightarrow> device_request \<Rightarrow> (string \<times> string) option tx" where
  "checked_request uc q =
     guard (dr_action q \<in> {''create'', ''rename'', ''delete'', ''rotate''}) invalid_input
     (guard (dr_action q = ''create'' \<or> coalesce (dr_device q) \<noteq> []) invalid_input
     (guard (dr_protocol q \<in> {''xray'', ''awg''} \<and> (dr_protocol q = ''xray'' \<or> dr_action q = ''rotate'')) invalid_input
     (if dr_action q \<in> {''create'', ''rename''} then res_bind (device_name uc (dr_name q)) (\<lambda>n. Inr (Some n)) else Inr None)))"

text \<open>The actor as the database knows it now, and the profile if the actor may change its devices.\<close>

definition current_actor :: "db \<Rightarrow> actor \<Rightarrow> actor tx" where
  "current_actor d actor = (case load_account d (ac_id (actor_account actor)) of
     None \<Rightarrow> Inl (AccessDenied ''permission_denied'' 403)
   | Some a \<Rightarrow> Inr (actor\<lparr>actor_account := a\<rparr>))"

definition reachable_profile :: "db \<Rightarrow> actor \<Rightarrow> string \<Rightarrow> profile_row tx" where
  "reachable_profile d actor profile_id = (case find_profile d profile_id of
     None \<Rightarrow> Inl (AccessDenied ''resource_not_found'' 404)
   | Some p \<Rightarrow>
       (let own = (pf_owner p = Some (ac_id (actor_account actor))) in
        guard (own \<or> ac_role (actor_account actor) = ''admin'') (AccessDenied ''resource_not_found'' 404)
        (res_bind (require_permission actor (if own then ''configs.self.issue'' else ''profiles.manage'')) (\<lambda>_.
         guard (profile_id \<notin> set (profile_deletions d)) (AccessDenied ''profile_deleting'' 409) (Inr p)))))"

text \<open>A new device needs an active profile and room for it.\<close>

definition may_create :: "db \<Rightarrow> profile_row \<Rightarrow> instant \<Rightarrow> unit tx" where
  "may_create d p now =
     guard (\<not> pf_frozen p) (AccessDenied ''profile_frozen'' 403)
     (guard (case pf_expires_at p of None \<Rightarrow> True | Some t \<Rightarrow> t > now) (AccessDenied ''profile_expired'' 403)
     (guard (\<not> quota_blocked d (pf_id p)) (AccessDenied ''quota_exhausted'' 403)
     (res_bind (device_limit d (pf_id p)) (\<lambda>limit.
       (case limit of
          PNone \<Rightarrow> Inr ()
        | PInt n \<Rightarrow> guard (int (length (active_devices_of d (pf_id p))) < n) (AccessDenied ''device_limit_reached'' 409) (Inr ())
        | _ \<Rightarrow> Inl TypeError)))))"

definition expected_revision :: "db \<Rightarrow> profile_row \<Rightarrow> device_request \<Rightarrow> instant \<Rightarrow> (device_row option \<times> int) tx" where
  "expected_revision d p q now =
     (if dr_action q = ''create'' then
        guard (coalesce (dr_device q) = []) invalid_input
        (res_bind (may_create d p now) (\<lambda>_. Inr (None, pf_desired_revision p)))
      else res_bind (select_active d (pf_id p) (dr_device q)) (\<lambda>v. Inr (Some v, dv_revision v)))"

definition checked_device ::
  "unicode \<Rightarrow> db \<Rightarrow> profile_row \<Rightarrow> device_request \<Rightarrow> (string \<times> string) option \<Rightarrow> instant \<Rightarrow> device_row option tx" where
  "checked_device uc d p q name now =
     guard (dr_revision q \<noteq> PNone) (AccessDenied ''revision_required'' 428)
     (case dr_revision q of
        PInt n \<Rightarrow>
          guard (n \<ge> 1) (AccessDenied ''invalid_revision'' 422)
          (res_bind (expected_revision d p q now) (\<lambda>(v, expected).
           guard (expected = n) (AccessDenied ''revision_conflict'' 412)
           (case name of
              None \<Rightarrow> Inr v
            | Some (_, k) \<Rightarrow>
                res_bind (name_taken uc (coalesce (dr_device q)) k
                    (filter (\<lambda>w. dv_profile w = pf_id p \<and> dv_status w \<noteq> DevRetired) (devices d))) (\<lambda>taken.
                guard (\<not> taken) (AccessDenied ''device_name_conflict'' 409) (Inr v)))))
      | _ \<Rightarrow> Inl (AccessDenied ''invalid_revision'' 422))"

text \<open>A runtime name no profile uses; the table of devices refuses one that another device has.\<close>

partial_function (option) free_profile_name :: "db \<Rightarrow> (string \<times> db) option" where
  [code]: "free_profile_name d =
     (let (u, d1) = draw d; name = ''d_'' @ uuid_hex u in
      if name \<in> pf_runtime_name ` set (profiles d1) then free_profile_name d1 else Some (name, d1))"

definition touch_device :: "string \<Rightarrow> (device_row \<Rightarrow> device_row) \<Rightarrow> db \<Rightarrow> db" where
  "touch_device device_id f d = d\<lparr>devices := update_where (\<lambda>v. dv_id v = device_id) (\<lambda>v. f (v\<lparr>dv_revision := dv_revision v + 1\<rparr>)) (devices d)\<rparr>"

definition create_device :: "string \<Rightarrow> string \<Rightarrow> instant \<Rightarrow> db \<Rightarrow> (db \<times> string) tx option" where
  "create_device profile_id name now d =
     (let (i, d1) = draw d in
      case free_profile_name d1 of
        None \<Rightarrow> None
      | Some (runtime_name, d2) \<Rightarrow>
          let v = \<lparr>dv_id = i, dv_profile = profile_id, dv_display_name = name, dv_runtime_name = runtime_name, dv_status = DevActive,
                   dv_revision = 1, dv_created_at = now\<rparr> in
          Some (guard (i \<notin> dv_id ` set (devices d2) \<and> runtime_name \<notin> dv_runtime_name ` set (devices d2)) IntegrityError
            (Inr (ensure_xray v (d2\<lparr>devices := devices d2 @ [v]\<rparr>), i))))"

definition apply_action ::
  "(string \<Rightarrow> string) \<Rightarrow> device_request \<Rightarrow> (string \<times> string) option \<Rightarrow> device_row option \<Rightarrow> instant \<Rightarrow> db \<Rightarrow> (db \<times> string) tx option" where
  "apply_action u5 q name v now d =
     (let i = coalesce (dr_device q); title = (case name of Some (n, _) \<Rightarrow> n | None \<Rightarrow> []) in
      if dr_action q = ''create'' then create_device (dr_profile q) title now d
      else if dr_action q = ''rename'' then Some (Inr (touch_device i (\<lambda>w. w\<lparr>dv_display_name := title\<rparr>) d, i))
      else if dr_action q = ''rotate'' \<and> dr_protocol q = ''awg'' then
        (case v of None \<Rightarrow> Some (Inl TypeError)
         | Some w \<Rightarrow> map_option (\<lambda>d1. Inr (touch_device i id d1, i)) (rotate_awg u5 w d))
      else if dr_action q = ''rotate'' then
        (case v of None \<Rightarrow> Some (Inl TypeError) | Some w \<Rightarrow> Some (Inr (touch_device i id (rotate_xray w d), i)))
      else Some (Inr (touch_device i (\<lambda>w. w\<lparr>dv_status := DevDeleting\<rparr>) d, i)))"

text \<open>Every change but a new name reaches the nodes: a new profile revision and an operation.\<close>

definition propagate :: "actor \<Rightarrow> device_request \<Rightarrow> instant \<Rightarrow> db \<Rightarrow> (db \<times> (string \<times> op_status) option) tx" where
  "propagate actor q now d =
     (if dr_action q = ''rename'' then Inr (d, None)
      else let d1 = bump_revision (dr_profile q) d in
        res_bind (record_operation (ac_id (actor_account actor)) (dr_profile q) (profile_targets d1 (dr_profile q)) None now d1)
          (\<lambda>(d2, operation). Inr (settle_deletions d2, Some operation)))"

type_synonym device_result = "device_row \<times> int \<times> (string \<times> op_status) option"

definition device_answer :: "string \<Rightarrow> string \<Rightarrow> (string \<times> op_status) option \<Rightarrow> db \<Rightarrow> device_result tx" where
  "device_answer profile_id i operation d =
     (case (find (\<lambda>v. dv_id v = i) (devices d), find_profile d profile_id) of
        (Some v, Some p) \<Rightarrow> Inr (v, pf_desired_revision p, operation)
      | _ \<Rightarrow> Inl TypeError)"

definition finish_command ::
  "actor \<Rightarrow> actor \<Rightarrow> string \<Rightarrow> string \<Rightarrow> device_request \<Rightarrow> instant \<Rightarrow> (db \<times> string) tx \<Rightarrow> (db \<times> device_result) tx" where
  "finish_command actor current key digest q now changed =
     res_bind changed (\<lambda>(d, i).
     res_bind (propagate current q now d) (\<lambda>(d1, operation).
     res_bind (device_answer (dr_profile q) i operation d1) (\<lambda>result.
       Inr (d1\<lparr>device_commands := device_commands d1 @ [\<lparr>dm_principal = pr_id (actor_principal actor), dm_actor = ac_id (actor_account actor),
              dm_key = key, dm_fingerprint = digest, dm_result = result\<rparr>]\<rparr>, result))))"

definition is_device_command :: "actor \<Rightarrow> string \<Rightarrow> device_command_row \<Rightarrow> bool" where
  "is_device_command actor key c = (dm_principal c = pr_id (actor_principal actor) \<and> dm_actor c = ac_id (actor_account actor) \<and> dm_key c = key)"

definition execute_device ::
  "unicode \<Rightarrow> (string \<Rightarrow> string) \<Rightarrow> (device_request \<Rightarrow> string) \<Rightarrow> actor \<Rightarrow> pyval \<Rightarrow> device_request \<Rightarrow> instant \<Rightarrow> db
   \<Rightarrow> (db \<times> device_result) tx option" where
  "execute_device uc u5 fp actor command_key q now d0 =
     (case (case command_key of PStr s \<Rightarrow> uuid_str s | _ \<Rightarrow> None) of
        None \<Rightarrow> Some (Inl (AccessDenied ''invalid_idempotency_key'' 422))
      | Some key \<Rightarrow>
     (case checked_request uc q of
        Inl e \<Rightarrow> Some (Inl e)
      | Inr name \<Rightarrow>
     (case admit False d0 of
        Inl e \<Rightarrow> Some (Inl e)
      | Inr d \<Rightarrow>
     (case res_bind (current_actor d actor) (\<lambda>c. res_bind (reachable_profile d c (dr_profile q)) (\<lambda>p. Inr (c, p))) of
        Inl e \<Rightarrow> Some (Inl e)
      | Inr (c, p) \<Rightarrow>
     (case find (is_device_command actor key) (device_commands d) of
        Some r \<Rightarrow> Some (guard (dm_fingerprint r = fp q) (AccessDenied ''idempotency_conflict'' 409) (Inr (d, dm_result r)))
      | None \<Rightarrow>
     (case checked_device uc d p q name now of
        Inl e \<Rightarrow> Some (Inl e)
      | Inr v \<Rightarrow> map_option (finish_command actor c key (fp q) q now) (apply_action u5 q name v now d)))))))"

section \<open>What an accepted command went through\<close>

lemma execute_deviceD:
  assumes "execute_device uc u5 fp actor command_key q now d0 = Some (Inr (e, result))"
  obtains (replayed) key name d c p r where "command_key = PStr key" "checked_request uc q = Inr name" "admit False d0 = Inr d"
      "current_actor d actor = Inr c" "reachable_profile d c (dr_profile q) = Inr p"
      "find (is_device_command actor (the (uuid_str key))) (device_commands d) = Some r" "dm_fingerprint r = fp q" "e = d" "result = dm_result r"
    | (fresh) key k name d c p v changed where "command_key = PStr key" "uuid_str key = Some k" "checked_request uc q = Inr name" "admit False d0 = Inr d"
      "current_actor d actor = Inr c" "reachable_profile d c (dr_profile q) = Inr p"
      "find (is_device_command actor k) (device_commands d) = None" "checked_device uc d p q name now = Inr v"
      "apply_action u5 q name v now d = Some changed" "finish_command actor c k (fp q) q now changed = Inr (e, result)"
proof -
  obtain key k where key: "command_key = PStr key" "uuid_str key = Some k"
    using assms unfolding execute_device_def by (cases command_key; cases "case command_key of PStr s \<Rightarrow> uuid_str s | _ \<Rightarrow> None") auto
  obtain name where name: "checked_request uc q = Inr name"
    using assms key unfolding execute_device_def by (cases "checked_request uc q") auto
  obtain d where d: "admit False d0 = Inr d"
    using assms key name unfolding execute_device_def by (cases "admit False d0") auto
  obtain c p where c: "current_actor d actor = Inr c" "reachable_profile d c (dr_profile q) = Inr p"
    using assms key name d unfolding execute_device_def
    by (cases "current_actor d actor"; cases "reachable_profile d (projr (current_actor d actor)) (dr_profile q)") auto
  show thesis
  proof (cases "find (is_device_command actor k) (device_commands d)")
    case (Some r)
    with assms key name d c show ?thesis by (intro replayed) (auto simp: execute_device_def)
  next
    case None
    then obtain v where v: "checked_device uc d p q name now = Inr v"
      using assms key name d c unfolding execute_device_def by (cases "checked_device uc d p q name now") auto
    obtain changed where "apply_action u5 q name v now d = Some changed" "finish_command actor c k (fp q) q now changed = Inr (e, result)"
      using assms key name d c None v unfolding execute_device_def by auto
    with key name d c None v show ?thesis by (intro fresh)
  qed
qed

lemma finish_commandD:
  assumes "finish_command actor c k digest q now changed = Inr (e, result)"
  obtains d1 i d2 operation where "changed = Inr (d1, i)" "propagate c q now d1 = Inr (d2, operation)" "device_answer (dr_profile q) i operation d2 = Inr result"
    "e = d2\<lparr>device_commands := device_commands d2 @ [\<lparr>dm_principal = pr_id (actor_principal actor), dm_actor = ac_id (actor_account actor),
              dm_key = k, dm_fingerprint = digest, dm_result = result\<rparr>]\<rparr>"
  using assms unfolding finish_command_def by (auto simp: res_bind_Inr_iff)

lemma admit_fields: "admit r d0 = Inr d \<Longrightarrow> d = d0\<lparr>account_guard := account_guard d0 + 1\<rparr>"
  by (auto simp: admit_def Let_def split: if_splits)

section \<open>Devices stay distinct\<close>

definition devices_wf :: "db \<Rightarrow> bool" where
  "devices_wf d = (distinct (map dv_id (devices d)) \<and> distinct (map dv_runtime_name (devices d)))"

lemma filter_map_same: "(\<And>x. P (f x) = P x) \<Longrightarrow> (\<And>x. P x \<Longrightarrow> f x = x) \<Longrightarrow> filter P (map f xs) = filter P xs"
  by (induction xs) auto

lemma settle_keeps:
  assumes "distinct (map dv_id (devices d))"
  shows "map dv_id (devices (settle_deletions d)) = map dv_id (devices d)" "map dv_runtime_name (devices (settle_deletions d)) = map dv_runtime_name (devices d)"
    "active_devices_of (settle_deletions d) p = active_devices_of d p"
  unfolding active_devices_of_def settle_deletions_devices [OF assms] by (auto intro!: filter_map_same split: if_splits)

lemma propagate_devices:
  assumes "propagate c q now d = Inr (e, operation)"
  shows "devices e = devices d \<or> (\<exists>d2. e = settle_deletions d2 \<and> devices d2 = devices d)"
proof (cases "dr_action q = ''rename''")
  case True
  with assms show ?thesis by (simp add: propagate_def)
next
  case False
  then obtain d2 oid st where "record_operation (ac_id (actor_account c)) (dr_profile q) (profile_targets (bump_revision (dr_profile q) d) (dr_profile q)) None now
      (bump_revision (dr_profile q) d) = Inr (d2, oid, st)" "e = settle_deletions d2"
    using assms by (auto simp: propagate_def Let_def res_bind_Inr_iff)
  with record_operation_frame(5) bump_revision_frame(5) show ?thesis by metis
qed

lemma propagate_wf: "propagate c q now d = Inr (e, operation) \<Longrightarrow> devices_wf d \<Longrightarrow> devices_wf e"
  using propagate_devices [of c q now d e operation] settle_keeps by (auto simp: devices_wf_def)

lemma propagate_active: "propagate c q now d = Inr (e, operation) \<Longrightarrow> devices_wf d \<Longrightarrow> active_devices_of e p = active_devices_of d p"
  using propagate_devices [of c q now d e operation] settle_keeps(3)
  by (auto simp: devices_wf_def) (auto simp: active_devices_of_def)

lemma update_where_names:
  "(\<And>v. dv_id (f v) = dv_id v \<and> dv_runtime_name (f v) = dv_runtime_name v) \<Longrightarrow> devices_wf d
   \<Longrightarrow> devices_wf (d\<lparr>devices := update_where P f (devices d)\<rparr>)"
  by (simp add: devices_wf_def map_update_where)

lemma touch_device_wf:
  "(\<And>v. dv_id (f v) = dv_id v \<and> dv_runtime_name (f v) = dv_runtime_name v) \<Longrightarrow> devices_wf d \<Longrightarrow> devices_wf (touch_device i f d)"
  unfolding touch_device_def by (rule update_where_names) simp_all

lemma runtime_name_used_draw: "runtime_name_used (d\<lparr>drawn := n\<rparr>) = runtime_name_used d"
  by (simp add: runtime_name_used_def [abs_def])

lemma new_runtime_name_unused:
  assumes "new_runtime_name d = Some (name, e)"
  shows "\<not> runtime_name_used d name \<and> (\<exists>n. e = d\<lparr>drawn := n\<rparr>)"
proof -
  have "\<not> runtime_name_used d (fst (name, e)) \<and> (\<exists>n. snd (name, e) = d\<lparr>drawn := n\<rparr>)"
    by (rule new_runtime_name.raw_induct [OF _ assms, of "\<lambda>d r. \<not> runtime_name_used d (fst r) \<and> (\<exists>n. snd r = d\<lparr>drawn := n\<rparr>)"])
       (fastforce simp: Let_def draw_def runtime_name_used_draw split: if_splits)
  then show ?thesis by simp
qed

lemma free_profile_name_frame:
  assumes "free_profile_name d = Some (name, e)"
  shows "\<exists>n. e = d\<lparr>drawn := n\<rparr>"
proof -
  have "\<exists>n. snd (name, e) = d\<lparr>drawn := n\<rparr>"
    by (rule free_profile_name.raw_induct [OF _ assms, of "\<lambda>d r. \<exists>n. snd r = d\<lparr>drawn := n\<rparr>"])
       (fastforce simp: Let_def draw_def split: if_splits)
  then show ?thesis by simp
qed

lemma create_deviceD:
  assumes "create_device profile_id name now d = Some (Inr (e, i))"
  shows "\<exists>v. devices e = devices d @ [v] \<and> dv_id v = i \<and> dv_profile v = profile_id \<and> dv_status v = DevActive
    \<and> i \<notin> dv_id ` set (devices d) \<and> dv_runtime_name v \<notin> dv_runtime_name ` set (devices d) \<and> device_commands e = device_commands d"
proof -
  have "device_commands (ensure_xray v s) = device_commands s" for v s using ensure_xray_outbox [of s v] by (auto simp: outbox_only_def)
  then show ?thesis using assms
    by (auto simp: create_device_def Let_def draw_def split: option.splits dest!: free_profile_name_frame)
qed

lemma rename_distinct:
  "distinct (map dv_runtime_name vs) \<Longrightarrow> name \<notin> dv_runtime_name ` set vs \<Longrightarrow> distinct (map dv_id vs)
   \<Longrightarrow> distinct (map dv_runtime_name (update_where (\<lambda>q. dv_id q = i) (\<lambda>q. q\<lparr>dv_runtime_name := name\<rparr>) vs))"
proof (induction vs)
  case (Cons v vs)
  then show ?case
  proof (cases "dv_id v = i")
    case True
    with Cons.prems have "update_where (\<lambda>q. dv_id q = i) (\<lambda>q. q\<lparr>dv_runtime_name := name\<rparr>) vs = vs"
      by (intro update_where_none) (metis distinct.simps(2) image_eqI list.simps(9) set_map)
    with True Cons.prems show ?thesis by (simp add: update_where_def)
  qed (auto simp: update_where_def split: if_splits)
qed (simp add: update_where_def)

lemma rotate_awg_wf: "rotate_awg u5 v d = Some e \<Longrightarrow> devices_wf d \<Longrightarrow> devices_wf e"
  using rename_distinct [of "devices d"]
  by (auto simp: rotate_awg_def Let_def devices_wf_def map_update_where runtime_name_used_def split: option.splits dest!: new_runtime_name_unused)

lemma rotate_xray_frame [simp]: "devices (rotate_xray v d) = devices d"
  by (simp add: rotate_xray_def Let_def draw_def)

lemma apply_action_wf:
  assumes "apply_action u5 q name v now d = Some (Inr (e, i))" and "devices_wf d"
  shows "devices_wf e"
proof (cases "dr_action q = ''create''")
  case True
  with assms(1) have "\<exists>name. create_device (dr_profile q) name now d = Some (Inr (e, i))" by (auto simp: apply_action_def Let_def)
  with create_deviceD obtain v where "devices e = devices d @ [v]" "dv_id v \<notin> dv_id ` set (devices d)" "dv_runtime_name v \<notin> dv_runtime_name ` set (devices d)"
    by blast
  with assms(2) show ?thesis by (simp add: devices_wf_def)
next
  case False
  have "devices_wf (rotate_xray w d)" for w using assms(2) by (simp add: devices_wf_def)
  with False assms show ?thesis
    by (auto simp: apply_action_def Let_def split: if_splits option.splits intro!: touch_device_wf dest: rotate_awg_wf)
qed

text \<open>Every accepted device command keeps device identifiers and runtime names distinct: a created device and a
  reissued AWG peer get a name no other device has.\<close>

theorem execute_device_wf:
  assumes "execute_device uc u5 fp actor command_key q now d = Some (Inr (e, result))" and "devices_wf d"
  shows "devices_wf e"
  using assms(1)
proof (cases rule: execute_deviceD)
  case replayed
  with assms(2) show ?thesis by (auto dest!: admit_fields simp: devices_wf_def)
next
  case (fresh key k name d1 c p v changed)
  then have "devices_wf d1" using assms(2) by (auto dest!: admit_fields simp: devices_wf_def)
  from fresh(10) obtain d2 i d3 operation where f: "changed = Inr (d2, i)" "propagate c q now d2 = Inr (d3, operation)" "devices e = devices d3"
    by (rule finish_commandD) simp
  with apply_action_wf [of u5 q name v now d1 d2 i] fresh(9) \<open>devices_wf d1\<close> propagate_wf [OF f(2)] have "devices_wf d3" by simp
  then show ?thesis by (simp add: devices_wf_def f(3))
qed

section \<open>The device limit\<close>

lemma effective_guard [simp]: "effective (d\<lparr>account_guard := g\<rparr>) tg keys = effective d tg keys"
proof -
  have r: "resolve_target (d\<lparr>account_guard := g\<rparr>) tg = resolve_target d tg"
    by (simp add: resolve_target_def split: option.split)
  have vals: "profile_values (d\<lparr>account_guard := g\<rparr>) pid = profile_values d pid" for pid
    by (simp add: profile_values_def profile_tariff_def split: option.split)
  have "apply_layer (d\<lparr>account_guard := g\<rparr>) tg' = apply_layer d tg'" for tg'
    by (intro ext) (simp add: apply_layer_def subject_rows_def vals split: layer.split)
  then show ?thesis by (simp add: effective_def r)
qed

definition active_count :: "db \<Rightarrow> string \<Rightarrow> int" where
  "active_count d profile_id = int (length (active_devices_of d profile_id))"

lemma update_where_active:
  "(\<And>v. dv_profile (f v) = dv_profile v) \<Longrightarrow> (\<And>v. dv_status (f v) = DevActive \<Longrightarrow> dv_status v = DevActive)
   \<Longrightarrow> length (filter (\<lambda>v. dv_profile v = p \<and> dv_status v = DevActive) (update_where P f vs))
     \<le> length (filter (\<lambda>v. dv_profile v = p \<and> dv_status v = DevActive) vs)"
  by (induction vs) (auto simp: update_where_def)

lemma touch_device_active:
  "(\<And>v. dv_profile (f v) = dv_profile v) \<Longrightarrow> (\<And>v. dv_status (f v) = DevActive \<Longrightarrow> dv_status v = DevActive)
   \<Longrightarrow> active_count (touch_device i f d) p \<le> active_count d p"
proof -
  assume f: "\<And>v. dv_profile (f v) = dv_profile v" "\<And>v. dv_status (f v) = DevActive \<Longrightarrow> dv_status v = DevActive"
  have "dv_status (f (v\<lparr>dv_revision := n\<rparr>)) = DevActive \<Longrightarrow> dv_status v = DevActive" for v n using f(2) [of "v\<lparr>dv_revision := n\<rparr>"] by simp
  then show ?thesis
    unfolding active_count_def active_devices_of_def touch_device_def using update_where_active [of "\<lambda>v. f (v\<lparr>dv_revision := dv_revision v + 1\<rparr>)"] f(1)
    by simp
qed

lemma rotate_awg_active: "rotate_awg u5 v d = Some e \<Longrightarrow> active_count e p \<le> active_count d p"
  unfolding rotate_awg_def Let_def active_count_def active_devices_of_def
  by (auto split: option.splits dest!: new_runtime_name_unused intro!: update_where_active)

lemma apply_action_active:
  assumes "apply_action u5 q name v now d = Some (Inr (e, i))" and "dr_action q \<noteq> ''create''"
  shows "active_count e p \<le> active_count d p"
proof -
  have "active_count (rotate_xray w d) p = active_count d p" for w by (simp add: active_count_def active_devices_of_def)
  moreover have "active_count (touch_device i id c) p \<le> active_count c p" for c by (rule touch_device_active) simp_all
  moreover have "active_count (touch_device i (\<lambda>w. w\<lparr>dv_display_name := t\<rparr>) d) p \<le> active_count d p" for t by (rule touch_device_active) simp_all
  moreover have "active_count (touch_device i (\<lambda>w. w\<lparr>dv_status := DevDeleting\<rparr>) d) p \<le> active_count d p" by (rule touch_device_active) simp_all
  ultimately show ?thesis using assms rotate_awg_active [of u5 _ d _ p]
    by (auto simp: apply_action_def Let_def split: if_splits option.splits) (metis order_trans)+
qed

lemma create_active:
  assumes "create_device profile_id name now d = Some (Inr (e, i))"
  shows "active_count e p = active_count d p + (if p = profile_id then 1 else 0)"
  using create_deviceD [OF assms] by (auto simp: active_count_def active_devices_of_def)

lemma may_create_limit: "may_create d p now = Inr () \<Longrightarrow> device_limit d (pf_id p) = Inr (PInt n) \<Longrightarrow> active_count d (pf_id p) < n"
  by (auto simp: may_create_def active_count_def)

lemma reachable_profile_id: "reachable_profile d c pid = Inr p \<Longrightarrow> pf_id p = pid"
  unfolding reachable_profile_def find_profile_def
  by (cases "find (\<lambda>p. pf_id p = pid) (profiles d)") (auto simp: Let_def res_bind_Inr_iff dest!: find_Some_iff)

text \<open>C19. No device command raises the number of a profile's active devices above the limit that applies to it: after
  any accepted command the profile has no more active devices than the limit allows or than it had before.\<close>

theorem device_limit_respected:
  assumes x: "execute_device uc u5 fp actor command_key q now d = Some (Inr (e, result))" and wf: "devices_wf d"
    and limit: "device_limit d (dr_profile q) = Inr (PInt n)"
  shows "active_count e (dr_profile q) \<le> max n (active_count d (dr_profile q))"
  using x
proof (cases rule: execute_deviceD)
  case replayed
  then show ?thesis by (auto dest!: admit_fields simp: active_count_def active_devices_of_def)
next
  case (fresh key k name d1 c p v changed)
  have d1: "active_count d1 pid = active_count d pid" "device_limit d1 pid = device_limit d pid" "devices_wf d1" for pid
    using fresh(4) wf by (auto dest!: admit_fields simp: active_count_def active_devices_of_def device_limit_def devices_wf_def)
  from fresh(10) obtain d2 i d3 operation where f: "changed = Inr (d2, i)" "propagate c q now d2 = Inr (d3, operation)" "devices e = devices d3"
    by (rule finish_commandD) simp
  have a: "apply_action u5 q name v now d1 = Some (Inr (d2, i))" using fresh(9) f(1) by simp
  have "active_devices_of e (dr_profile q) = active_devices_of d3 (dr_profile q)" by (simp add: active_devices_of_def f(3))
  also have "\<dots> = active_devices_of d2 (dr_profile q)"
    using propagate_active [OF f(2)] apply_action_wf [OF a d1(3)] .
  finally have e: "active_count e (dr_profile q) = active_count d2 (dr_profile q)" by (simp add: active_count_def)
  show ?thesis
  proof (cases "dr_action q = ''create''")
    case True
    have p: "pf_id p = dr_profile q" using reachable_profile_id [OF fresh(6)] .
    have "may_create d1 p now = Inr ()"
      using fresh(8) True by (cases "may_create d1 p now") (auto simp: checked_device_def expected_revision_def res_bind_Inr_iff split: pyval.splits)
    then have "active_count d1 (dr_profile q) < n" using may_create_limit [of d1 p now n] limit by (simp add: p d1)
    moreover have "active_count d2 (dr_profile q) = active_count d1 (dr_profile q) + 1"
      using a True create_active by (auto simp: apply_action_def Let_def)
    ultimately show ?thesis by (simp add: e)
  next
    case False
    from apply_action_active [OF a False] show ?thesis by (simp add: e d1(1) [symmetric] le_max_iff_disj)
  qed
qed

section \<open>Commands take effect once\<close>

lemma find_snoc_none: "find P xs = None \<Longrightarrow> P x \<Longrightarrow> find P (xs @ [x]) = Some x"
  by (simp add: find_append)

lemma propagate_commands: "propagate c q now d = Inr (e, operation) \<Longrightarrow> device_commands e = device_commands d"
proof (cases "dr_action q = ''rename''")
  case False
  assume "propagate c q now d = Inr (e, operation)"
  with False obtain d2 x where r: "record_operation (ac_id (actor_account c)) (dr_profile q) (profile_targets (bump_revision (dr_profile q) d) (dr_profile q)) None now
      (bump_revision (dr_profile q) d) = Inr (d2, x)" "e = settle_deletions d2"
    by (auto simp: propagate_def Let_def res_bind_Inr_iff)
  obtain oid st where x: "x = (oid, st)" by (cases x)
  have "device_commands (fold retire_confirmed vs s) = device_commands s" for vs s
    by (rule fold_frame) (simp add: retire_confirmed_def)
  then have "device_commands e = device_commands d2"
    by (simp add: r(2) settle_deletions_def retire_confirmed_def [symmetric, abs_def])
  also have "\<dots> = device_commands (bump_revision (dr_profile q) d)"
    using record_operation_frame(6) [OF r(1)] .
  finally show ?thesis by (simp add: bump_revision_def)
qed (simp add: propagate_def)

lemma apply_action_commands:
  assumes "apply_action u5 q name v now d = Some (Inr (e, i))"
  shows "device_commands e = device_commands d"
proof -
  have "device_commands (ensure_xray v s) = device_commands s" for v s using ensure_xray_outbox [of s v] by (auto simp: outbox_only_def)
  then have "device_commands (rotate_xray v s) = device_commands s" for v s by (simp add: rotate_xray_def Let_def draw_def)
  moreover have "device_commands (touch_device i f s) = device_commands s" for i f s by (simp add: touch_device_def)
  moreover have "rotate_awg u5 v d = Some s \<Longrightarrow> device_commands s = device_commands d" for v s
    by (auto simp: rotate_awg_def Let_def split: option.splits dest!: new_runtime_name_unused)
  moreover have "create_device pid n now d = Some (Inr (e, i)) \<Longrightarrow> device_commands e = device_commands d" for pid n
    using create_deviceD by blast
  ultimately show ?thesis using assms
    by (auto simp: apply_action_def Let_def split: if_splits option.splits)
qed

lemma executed_command:
  assumes "execute_device uc u5 fp actor (PStr key) q now d = Some (Inr (e, result))"
  shows "\<exists>k name. uuid_str key = Some k \<and> checked_request uc q = Inr name
     \<and> (\<exists>r. find (is_device_command actor k) (device_commands e) = Some r \<and> dm_fingerprint r = fp q \<and> dm_result r = result)"
  using assms
proof (cases rule: execute_deviceD)
  case (replayed key' name d1 c p r)
  moreover obtain k where "uuid_str key = Some k"
    using assms unfolding execute_device_def by (cases "uuid_str key") auto
  ultimately show ?thesis by auto
next
  case (fresh key' k name d1 c p v changed)
  from fresh(10) obtain d2 i d3 operation where f: "changed = Inr (d2, i)" "propagate c q now d2 = Inr (d3, operation)"
    "device_commands e = device_commands d3 @ [\<lparr>dm_principal = pr_id (actor_principal actor), dm_actor = ac_id (actor_account actor),
              dm_key = k, dm_fingerprint = fp q, dm_result = result\<rparr>]"
    by (rule finish_commandD) simp
  have "device_commands d3 = device_commands d1"
    using propagate_commands [OF f(2)] apply_action_commands [of u5 q name v now d1 d2 i] fresh(9) f(1) by simp
  with f(3) fresh(7) have "find (is_device_command actor k) (device_commands e) = Some \<lparr>dm_principal = pr_id (actor_principal actor),
      dm_actor = ac_id (actor_account actor), dm_key = k, dm_fingerprint = fp q, dm_result = result\<rparr>"
    by (simp add: find_append is_device_command_def)
  with fresh show ?thesis by auto
qed

text \<open>C18. A device command takes effect once. Sent again under its key, while the actor may still reach the profile, it
  returns the first answer and changes nothing but the counter of the maintenance gate, at whatever later time; another
  valid request under the same key is refused.\<close>

theorem execute_device_once:
  assumes first: "execute_device uc u5 fp actor (PStr key) q now d = Some (Inr (e, result))"
    and gate: "admit False e = Inr e1" and current: "current_actor e1 actor = Inr c" and profile: "reachable_profile e1 c (dr_profile q) = Inr p"
  shows "execute_device uc u5 fp actor (PStr key) q later e = Some (Inr (e\<lparr>account_guard := account_guard e + 1\<rparr>, result))
    \<and> (\<forall>r m. checked_request uc r = Inr m \<and> dr_profile r = dr_profile q \<and> fp r \<noteq> fp q \<longrightarrow>
      execute_device uc u5 fp actor (PStr key) r later e = Some (Inl (AccessDenied ''idempotency_conflict'' 409)))"
proof -
  obtain k name row where k: "uuid_str key = Some k" "checked_request uc q = Inr name"
    "find (is_device_command actor k) (device_commands e) = Some row" "dm_fingerprint row = fp q" "dm_result row = result"
    using executed_command [OF first] by blast
  have e1: "e1 = e\<lparr>account_guard := account_guard e + 1\<rparr>" using admit_fields [OF gate] .
  have "execute_device uc u5 fp actor (PStr key) q later e = Some (Inr (e\<lparr>account_guard := account_guard e + 1\<rparr>, result))"
    using k gate current profile unfolding execute_device_def by (simp add: e1)
  moreover have "execute_device uc u5 fp actor (PStr key) r later e = Some (Inl (AccessDenied ''idempotency_conflict'' 409))"
    if "checked_request uc r = Inr m" "dr_profile r = dr_profile q" "fp r \<noteq> fp q" for r m
    using that k gate current profile unfolding execute_device_def by (simp add: e1)
  ultimately show ?thesis by blast
qed

section \<open>Witnesses\<close>

definition ascii_names :: unicode where
  "ascii_names = \<lparr>uc_control = (\<lambda>c. False), uc_nfc = (\<lambda>s. s), uc_key = lower\<rparr>"

definition device_db :: db where
  "device_db = operation_db\<lparr>accounts := [\<lparr>acc_id = ''a'', acc_role = ''admin'', acc_status = ''approved'', acc_revision = 1, acc_display_name = None\<rparr>],
     policies := [\<lparr>vp_id = ''v0'', vp_subject = Installation, vp_profile = None, vp_device = None, vp_node = None,
        vp_protocol = None, vp_key = ''devices.max'', vp_value = PInt 2, vp_revision = 1, vp_updated_at = 0\<rparr>]\<rparr>"

definition create_request :: device_request where
  "create_request = \<lparr>dr_action = ''create'', dr_profile = ''p1'', dr_device = None, dr_revision = PInt 1, dr_name = PStr ''Laptop'', dr_protocol = ''xray''\<rparr>"

definition created :: "(db \<times> device_result) tx option" where
  "created = execute_device ascii_names (\<lambda>s. s) dr_action policy_actor (PStr sample_command) create_request 5 device_db"

definition still_reachable :: "db \<Rightarrow> bool" where
  "still_reachable e = is_ok (res_bind (admit False e) (\<lambda>e1. res_bind (current_actor e1 policy_actor) (\<lambda>c.
     reachable_profile e1 c (dr_profile create_request))))"

lemma created_facts: "case created of Some (Inr (e, r)) \<Rightarrow> still_reachable e | _ \<Rightarrow> False"
  by code_simp

lemma created_ok: "created = Some (Inr (fst (projr (the created)), snd (projr (the created))))"
  and created_reachable: "still_reachable (fst (projr (the created)))"
proof -
  obtain e r where "created = Some (Inr (e, r))" "still_reachable e"
    using created_facts by (auto split: option.splits sum.splits)
  then show "created = Some (Inr (fst (projr (the created)), snd (projr (the created))))" "still_reachable (fst (projr (the created)))"
    by (metis option.sel sum.sel(2) fst_conv snd_conv)+
qed

lemma device_db_wf: "devices_wf device_db" by code_simp

theorem execute_device_wf_witness: "devices_wf (fst (projr (the created)))"
  by (rule execute_device_wf [OF created_ok [unfolded created_def] device_db_wf, folded created_def])

theorem device_limit_respected_witness: "active_count (fst (projr (the created))) ''p1'' \<le> 2"
proof -
  have "device_limit device_db (dr_profile create_request) = Inr (PInt 2)" "active_count device_db ''p1'' = 1" "dr_profile create_request = ''p1''" by code_simp+
  then show ?thesis using device_limit_respected [OF created_ok [unfolded created_def] device_db_wf, folded created_def] by simp
qed

theorem execute_device_once_witness:
  "\<exists>e. execute_device ascii_names (\<lambda>s. s) dr_action policy_actor (PStr sample_command) create_request 99 (fst (projr (the created)))
     = Some (Inr (e, snd (projr (the created))))"
proof -
  obtain e1 c p where "admit False (fst (projr (the created))) = Inr e1" "current_actor e1 policy_actor = Inr c"
    "reachable_profile e1 c (dr_profile create_request) = Inr p"
    using created_reachable by (auto simp: still_reachable_def is_ok_iff res_bind_Inr_iff)
  from execute_device_once [OF created_ok [unfolded created_def] this [unfolded created_def]] show ?thesis unfolding created_def by blast
qed

end
