(* ===== verification/Node_Snapshots.thy ===== *)
theory Node_Snapshots
  imports Operations
begin

text \<open>
  \<^verbatim>\<open>app/backend/node_snapshots.py\<close>: the policy snapshots that agents enforce on their own. The controller resolves one
  snapshot per node, gives a changed snapshot the next revision and sends the current one in every pass. Connection
  limits and speed limits share this delivery, each with its own table; the locale \<open>snapshot_delivery\<close> is what they owe it.
  The digest of a snapshot is the argument \<open>digest\<close>. Every pass reads the clock anew,
  once for all of its nodes.
\<close>

section \<open>Nodes and devices\<close>

definition agent_installed :: "db \<Rightarrow> node_row \<Rightarrow> bool" where
  "agent_installed d n = (nd_applied_revision n > 0 \<or> nd_key n \<in> set (agent_installations d))"

definition target_nodes :: "db \<Rightarrow> node_row list" where
  "target_nodes d = order_by nd_key (filter (\<lambda>n. nd_enabled n \<and> agent_installed d n
     \<and> nd_key n \<notin> fst ` set (node_retirements d) \<and> nd_key n \<notin> set (node_cleanup d)) (nodes d))"

record active_device =
  ad_device :: string
  ad_profile :: string
  ad_name :: string

text \<open>The names a device has on a node: of its Xray clients, or its own as an AWG peer.\<close>

definition device_names :: "db \<Rightarrow> protocol \<Rightarrow> device_row \<Rightarrow> string list" where
  "device_names d p v = (case p of
     Xray \<Rightarrow> map dc_runtime_name (filter (\<lambda>c. dc_device c = dv_id v \<and> dc_protocol c = Xray) (device_credentials d))
   | Awg \<Rightarrow> [dv_runtime_name v])"

definition owner_approved :: "db \<Rightarrow> profile_row \<Rightarrow> bool" where
  "owner_approved d p = (case pf_owner p of None \<Rightarrow> True
     | Some a \<Rightarrow> (\<exists>r \<in> set (accounts d). acc_id r = a \<and> acc_status r = ''approved''))"

definition serves :: "db \<Rightarrow> string \<Rightarrow> protocol \<Rightarrow> instant \<Rightarrow> profile_row \<Rightarrow> bool" where
  "serves d node_key protocol now p = ((\<exists>g \<in> set (grants d). gr_profile g = pf_id p \<and> gr_node g = node_key \<and> gr_protocol g = protocol)
     \<and> \<not> pf_frozen p \<and> \<not> quota_blocked d (pf_id p) \<and> owner_approved d p \<and> pf_id p \<notin> set (profile_deletions d)
     \<and> (case pf_expires_at p of None \<Rightarrow> True | Some t \<Rightarrow> t > now))"

definition active_devices :: "db \<Rightarrow> string \<Rightarrow> protocol \<Rightarrow> instant \<Rightarrow> active_device list" where
  "active_devices d node_key protocol now = order_by ad_name (concat (map (\<lambda>v.
     map (\<lambda>name. \<lparr>ad_device = dv_id v, ad_profile = dv_profile v, ad_name = name\<rparr>)
       (if dv_status v = DevActive \<and> (\<exists>p \<in> set (profiles d). pf_id p = dv_profile v \<and> serves d node_key protocol now p)
        then device_names d protocol v else [])) (devices d)))"

section \<open>Planning\<close>

datatype snapshot_table = AdmissionTable | ShapingTable

definition table_rows :: "snapshot_table \<Rightarrow> db \<Rightarrow> snapshot_row list" where
  "table_rows t d = (case t of AdmissionTable \<Rightarrow> admission d | ShapingTable \<Rightarrow> shaping d)"

definition put_rows :: "snapshot_table \<Rightarrow> snapshot_row list \<Rightarrow> db \<Rightarrow> db" where
  "put_rows t rs d = (case t of AdmissionTable \<Rightarrow> d\<lparr>admission := rs\<rparr> | ShapingTable \<Rightarrow> d\<lparr>shaping := rs\<rparr>)"

definition row_of :: "snapshot_table \<Rightarrow> db \<Rightarrow> string \<Rightarrow> snapshot_row option" where
  "row_of t d node_key = find (\<lambda>r. sn_node r = node_key) (table_rows t d)"

definition first_row :: "string \<Rightarrow> string \<Rightarrow> snapshot_row" where
  "first_row node_key value = \<lparr>sn_node = node_key, sn_revision = 1, sn_digest = value, sn_applied_revision = 0, sn_status = Pending,
     sn_checked_at = None, sn_events_boot = [], sn_events_sequence = 0, sn_outcomes = []\<rparr>"

type_synonym 'c send = "string \<times> int \<times> 'c list"

definition plan_node ::
  "('c list \<Rightarrow> string) \<Rightarrow> snapshot_table \<Rightarrow> (db \<Rightarrow> node_row \<Rightarrow> 'c list tx) \<Rightarrow> node_row \<Rightarrow> db \<times> 'c send list \<Rightarrow> (db \<times> 'c send list) tx"
where
  "plan_node digest t snapshot n acc = (let d = fst acc; sends = snd acc in
     res_bind (snapshot d n) (\<lambda>clients.
       (case row_of t d (nd_key n) of
          None \<Rightarrow>
            if clients = [] then Inr acc
            else Inr (put_rows t (table_rows t d @ [first_row (nd_key n) (digest clients)]) d, sends @ [(nd_key n, 1, clients)])
        | Some r \<Rightarrow>
            if sn_digest r \<noteq> digest clients then
              Inr (put_rows t (update_where (\<lambda>r. sn_node r = nd_key n)
                     (\<lambda>r'. r'\<lparr>sn_revision := sn_revision r + 1, sn_digest := digest clients, sn_status := Pending\<rparr>) (table_rows t d)) d,
                   sends @ [(nd_key n, sn_revision r + 1, clients)])
            else Inr (d, sends @ [(nd_key n, sn_revision r, clients)]))))"

definition plan ::
  "('c list \<Rightarrow> string) \<Rightarrow> snapshot_table \<Rightarrow> (db \<Rightarrow> node_row \<Rightarrow> 'c list tx) \<Rightarrow> db \<Rightarrow> (db \<times> 'c send list) tx"
where
  "plan digest t snapshot d = res_fold (plan_node digest t snapshot) (target_nodes d) (d, [])"

section \<open>Outcomes\<close>

definition outcome ::
  "int \<Rightarrow> int option \<Rightarrow> delivery_status \<Rightarrow> (protocol \<times> string) list option \<Rightarrow> instant \<Rightarrow> snapshot_row \<Rightarrow> snapshot_row"
where
  "outcome sent in_force status extra now r =
     (case in_force of
        None \<Rightarrow> r\<lparr>sn_status := status, sn_checked_at := Some now\<rparr>
      | Some held \<Rightarrow>
          if held > sent then r\<lparr>sn_revision := held + 1, sn_status := Pending, sn_checked_at := Some now\<rparr>
          else if held = sent then
            (let s = r\<lparr>sn_applied_revision := sent, sn_status := UpToDate, sn_checked_at := Some now\<rparr>
             in case extra of None \<Rightarrow> s | Some os \<Rightarrow> s\<lparr>sn_outcomes := os\<rparr>)
          else r\<lparr>sn_status := status, sn_checked_at := Some now\<rparr>)"

definition record_delivery ::
  "snapshot_table \<Rightarrow> string \<Rightarrow> int \<Rightarrow> int option \<Rightarrow> delivery_status \<Rightarrow> (protocol \<times> string) list option \<Rightarrow> instant \<Rightarrow> db \<Rightarrow> db"
where
  "record_delivery t node_key sent in_force status extra now d =
     put_rows t (update_where (\<lambda>r. sn_node r = node_key \<and> sn_revision r = sent) (outcome sent in_force status extra now) (table_rows t d)) d"

text \<open>A failed call with the name of its gRPC status, when it has one.\<close>

definition failure_status :: "string option \<Rightarrow> delivery_status" where
  "failure_status code = (if code = Some ''UNIMPLEMENTED'' then Outdated else Unavailable)"

section \<open>A pass\<close>

text \<open>The driver sends a snapshot to a node: it answers with the revision the agent holds and, for speed limits, the
  outcome per protocol. \<open>after\<close> is what a client does after a delivered snapshot.\<close>

type_synonym ('c, 'w) driver = "'w \<Rightarrow> string \<Rightarrow> int \<Rightarrow> 'c list \<Rightarrow> 'w \<times> (string option, int \<times> (protocol \<times> string) list option) result"

definition deliver :: "snapshot_table \<Rightarrow> ('c, 'w) driver \<Rightarrow> (string \<Rightarrow> db \<Rightarrow> db) \<Rightarrow> instant \<Rightarrow> 'c send \<Rightarrow> 'w \<times> db \<Rightarrow> 'w \<times> db" where
  "deliver t driver after now s wd =
     (case s of (node_key, revision, clients) \<Rightarrow>
      case driver (fst wd) node_key revision clients of
        (w, Inl code) \<Rightarrow> (w, record_delivery t node_key revision None (failure_status code) None now (snd wd))
      | (w, Inr (in_force, extra)) \<Rightarrow>
          (w, after node_key (record_delivery t node_key revision (Some in_force) Unavailable extra now (snd wd))))"

definition sync ::
  "('c list \<Rightarrow> string) \<Rightarrow> snapshot_table \<Rightarrow> (db \<Rightarrow> node_row \<Rightarrow> 'c list tx) \<Rightarrow> ('c, 'w) driver \<Rightarrow> (string \<Rightarrow> db \<Rightarrow> db) \<Rightarrow> instant
     \<Rightarrow> 'w \<times> db \<Rightarrow> (('w \<times> db) \<times> 'c send list) tx"
where
  "sync digest t snapshot driver after now wd =
     (if paused (snd wd) then Inr (wd, [])
      else res_bind (plan digest t snapshot (snd wd)) (\<lambda>(d, sends).
        Inr (fold (deliver t driver after now) sends (fst wd, d), sends)))"

section \<open>The agent\<close>

text \<open>The snapshot an agent holds (\<^verbatim>\<open>rust/node-agent\<close>): it refuses a snapshot that is not valid, ignores a revision that is not
  newer than its own, and answers with the revision in force. What is valid is the argument \<open>valid\<close>: each kind of limits has
  its own checks. The agents of all nodes are a function of the node key.\<close>

record 'c agent =
  ag_revision :: int
  ag_clients :: "'c list"

definition agent_store :: "int \<Rightarrow> 'c list \<Rightarrow> 'c agent \<Rightarrow> 'c agent" where
  "agent_store revision clients a = (if revision \<le> ag_revision a then a else \<lparr>ag_revision = revision, ag_clients = clients\<rparr>)"

definition agent_apply :: "('c list \<Rightarrow> bool) \<Rightarrow> int \<Rightarrow> 'c list \<Rightarrow> 'c agent \<Rightarrow> 'c agent \<times> (string option, int) result" where
  "agent_apply valid revision clients a =
     (if \<not> valid clients then (a, Inl (Some ''INVALID_ARGUMENT''))
      else (let b = agent_store revision clients a in (b, Inr (ag_revision b))))"

text \<open>What both kinds of limits accept as the name of an Xray client.\<close>

definition valid_email :: "string \<Rightarrow> bool" where
  "valid_email name = (name \<noteq> [] \<and> length name \<le> 64
     \<and> list_all (\<lambda>c. ascii_alpha c \<or> ascii_digit c \<or> c \<in> {CHR ''_'', CHR ''-''}) name)"

text \<open>The calls of a pass to the agents. \<open>reach\<close> says which agents answer; an agent whose journal cannot be written answers
  with the same status as one that cannot be reached, and keeps its snapshot too.\<close>

definition agents_driver ::
  "('c list \<Rightarrow> bool) \<Rightarrow> (string \<Rightarrow> bool) \<Rightarrow> ('c list \<Rightarrow> (protocol \<times> string) list option) \<Rightarrow> ('c, string \<Rightarrow> 'c agent) driver"
where
  "agents_driver valid reach outcomes w node_key revision clients =
     (if reach node_key then
        (case agent_apply valid revision clients (w node_key) of
           (a, Inl code) \<Rightarrow> (w(node_key := a), Inl code)
         | (a, Inr held) \<Rightarrow> (w(node_key := a), Inr (held, outcomes (ag_clients a))))
      else (w, Inl (Some ''UNAVAILABLE'')))"

section \<open>The delivery state of one node\<close>

text \<open>What the delivery is about: per node a revision with the digest it stands for, the revision confirmed and the status.
  The other columns belong to the clients of the delivery.\<close>

record slot =
  sl_revision :: int
  sl_digest :: string
  sl_applied :: int
  sl_status :: delivery_status

definition slot_of :: "snapshot_row \<Rightarrow> slot" where
  "slot_of r = \<lparr>sl_revision = sn_revision r, sl_digest = sn_digest r, sl_applied = sn_applied_revision r, sl_status = sn_status r\<rparr>"

definition slot :: "snapshot_table \<Rightarrow> db \<Rightarrow> string \<Rightarrow> slot option" where
  "slot t d node_key = map_option slot_of (row_of t d node_key)"

definition next_slot :: "('c list \<Rightarrow> string) \<Rightarrow> 'c list \<Rightarrow> slot option \<Rightarrow> slot option" where
  "next_slot digest clients s = (case s of
     None \<Rightarrow> if clients = [] then None else Some \<lparr>sl_revision = 1, sl_digest = digest clients, sl_applied = 0, sl_status = Pending\<rparr>
   | Some x \<Rightarrow> Some (if sl_digest x = digest clients then x
       else x\<lparr>sl_revision := sl_revision x + 1, sl_digest := digest clients, sl_status := Pending\<rparr>))"

definition confirm :: "int \<Rightarrow> int \<Rightarrow> slot \<Rightarrow> slot" where
  "confirm sent held x =
     (if sl_revision x \<noteq> sent then x
      else if held > sent then x\<lparr>sl_revision := held + 1, sl_status := Pending\<rparr>
      else if held = sent then x\<lparr>sl_applied := sent, sl_status := UpToDate\<rparr>
      else x\<lparr>sl_status := Unavailable\<rparr>)"

definition unreached :: "int \<Rightarrow> slot \<Rightarrow> slot" where
  "unreached sent x = (if sl_revision x = sent then x\<lparr>sl_status := Unavailable\<rparr> else x)"

definition delivered :: "bool \<Rightarrow> int \<Rightarrow> 'c list \<Rightarrow> 'c agent \<times> slot option \<Rightarrow> 'c agent \<times> slot option" where
  "delivered up sent clients as =
     (if up then (let a = agent_store sent clients (fst as) in (a, map_option (confirm sent (ag_revision a)) (snd as)))
      else (fst as, map_option (unreached sent) (snd as)))"

lemma next_slot_None: "next_slot digest clients s = None \<Longrightarrow> s = None"
  by (auto simp: next_slot_def split: option.splits)

text \<open>One pass over one node.\<close>

definition node_pass :: "('c list \<Rightarrow> string) \<Rightarrow> bool \<Rightarrow> 'c list \<Rightarrow> 'c agent \<times> slot option \<Rightarrow> 'c agent \<times> slot option" where
  "node_pass digest up clients as = (case next_slot digest clients (snd as) of
     None \<Rightarrow> as | Some x \<Rightarrow> delivered up (sl_revision x) clients (fst as, Some x))"

text \<open>A controller and an agent are in step when the agent holds no newer revision, and holds the recorded snapshot when it
  holds the recorded revision. A node that never had a snapshot has an agent without one. This is how they start, and
  what a pass keeps whether or not the agent answers. A restore of the controller forgets the recorded revisions.\<close>

definition in_step :: "('c list \<Rightarrow> string) \<Rightarrow> 'c agent \<times> slot option \<Rightarrow> bool" where
  "in_step digest as = (case snd as of
     None \<Rightarrow> ag_revision (fst as) = 0
   | Some x \<Rightarrow> ag_revision (fst as) \<le> sl_revision x
       \<and> (ag_revision (fst as) = sl_revision x \<longrightarrow> digest (ag_clients (fst as)) = sl_digest x))"

text \<open>The agent enforces the snapshot, and the controller knows it.\<close>

definition enforced :: "'c list \<Rightarrow> 'c agent \<times> slot option \<Rightarrow> bool" where
  "enforced clients as = (ag_clients (fst as) = clients \<and> (\<exists>x. snd as = Some x \<and> sl_status x = UpToDate \<and> sl_revision x = ag_revision (fst as)
     \<and> sl_applied x = ag_revision (fst as)))"

lemmas pass_defs = node_pass_def next_slot_def delivered_def agent_store_def confirm_def unreached_def Let_def

lemma in_step_pass: "in_step digest as \<Longrightarrow> in_step digest (node_pass digest up clients as)"
  by (cases as; cases "snd as") (auto simp: in_step_def pass_defs)

text \<open>The snapshots that may be seen in a sequence of passes are those sent and the one the agent holds at first.\<close>

lemma holds_known: "ag_clients (fst as) \<in> S \<Longrightarrow> clients \<in> S \<Longrightarrow> ag_clients (fst (node_pass digest up clients as)) \<in> S"
  by (cases as; cases "snd as") (auto simp: pass_defs)

lemma slot_kept: "clients \<noteq> [] \<or> snd as \<noteq> None \<Longrightarrow> snd (node_pass digest up clients as) \<noteq> None"
  by (cases as; cases "snd as") (auto simp: pass_defs)

lemma enforced_in_step:
  assumes "in_step digest as" and "digest (ag_clients (fst as)) = digest clients \<longrightarrow> ag_clients (fst as) = clients"
    and "clients \<noteq> [] \<or> snd as \<noteq> None"
  shows "enforced clients (node_pass digest True clients as)"
  using assms by (cases as; cases "snd as") (auto simp: in_step_def enforced_def pass_defs)

text \<open>One answered pass brings an agent in step, ahead of the controller or behind it, unless it holds the very revision that
  is used next.\<close>

definition startable :: "('c list \<Rightarrow> string) \<Rightarrow> 'c list \<Rightarrow> 'c agent \<times> slot option \<Rightarrow> bool" where
  "startable digest clients as = (in_step digest as
     \<or> (\<forall>x. next_slot digest clients (snd as) = Some x \<longrightarrow> ag_revision (fst as) \<noteq> sl_revision x))"

lemma brought_in_step:
  assumes "startable digest clients as" and "clients \<noteq> [] \<or> snd as \<noteq> None"
  shows "in_step digest (node_pass digest True clients as)"
  using assms in_step_pass [of digest as True clients] unfolding startable_def
  by (cases as; cases "snd as") (auto simp: in_step_def pass_defs split: if_splits)

text \<open>An agent that holds the very revision the controller is about to use again keeps its own snapshot, and is recorded as up to date.\<close>

definition mistaken :: "('c list \<Rightarrow> string) \<Rightarrow> 'c list \<Rightarrow> 'c agent \<Rightarrow> 'c agent \<times> slot option \<Rightarrow> bool" where
  "mistaken digest clients a as = (fst as = a \<and> (\<exists>x. snd as = Some x \<and> sl_revision x = ag_revision a \<and> sl_digest x = digest clients
     \<and> sl_status x = UpToDate))"

lemma mistaken_pass:
  "mistaken digest clients a as \<Longrightarrow> mistaken digest clients a (node_pass digest True clients as)"
  "clients \<noteq> [] \<Longrightarrow> ag_revision a = 1 \<Longrightarrow> mistaken digest clients a (node_pass digest True clients (a, None))"
  by (cases as; auto simp: mistaken_def pass_defs)+

lemma put_rows_simps [simp]:
  "table_rows t (put_rows t rs d) = rs" "put_rows t rs' (put_rows t rs d) = put_rows t rs' d" "put_rows t (table_rows t d) d = d"
  "target_nodes (put_rows t rs d) = target_nodes d" "paused (put_rows t rs d) = paused d"
  by (cases t; simp add: table_rows_def put_rows_def target_nodes_def agent_installed_def paused_def gate_active_def
      cleanup_active_def restore_active_def)+

lemma row_of_update:
  assumes "\<And>r. sn_node (f r) = sn_node r"
  shows "row_of t (put_rows t (update_where q f (table_rows t d)) d) m = map_option (\<lambda>r. if q r then f r else r) (row_of t d m)"
  unfolding row_of_def put_rows_simps by (rule find_update_where) (simp add: assms)

lemma row_of_node: "row_of t d m = Some r \<Longrightarrow> sn_node r = m"
  unfolding row_of_def using find_Some_iff by fastforce

lemma slot_record:
  "slot t (record_delivery t k sent (Some held) Unavailable extra now d) m = (if m = k then map_option (confirm sent held) (slot t d m) else slot t d m)"
  "slot t (record_delivery t k sent None Unavailable extra now d) m = (if m = k then map_option (unreached sent) (slot t d m) else slot t d m)"
  unfolding slot_def record_delivery_def
  by (subst row_of_update; auto simp: outcome_def Let_def option.map_comp slot_of_def confirm_def unreached_def
      split: option.split dest: row_of_node intro!: option.map_cong)+

definition send_of ::
  "('c list \<Rightarrow> string) \<Rightarrow> snapshot_table \<Rightarrow> (db \<Rightarrow> node_row \<Rightarrow> 'c list tx) \<Rightarrow> db \<Rightarrow> node_row \<Rightarrow> 'c send list"
where
  "send_of digest t snapshot d n = (case next_slot digest (projr (snapshot d n)) (slot t d (nd_key n)) of
     None \<Rightarrow> [] | Some x \<Rightarrow> [(nd_key n, sl_revision x, projr (snapshot d n))])"

text \<open>A sequence of passes, each at its time and with the agents that answer it.\<close>

primrec passes ::
  "('c list \<Rightarrow> string) \<Rightarrow> snapshot_table \<Rightarrow> (instant \<Rightarrow> db \<Rightarrow> node_row \<Rightarrow> 'c list tx) \<Rightarrow> ('c list \<Rightarrow> bool)
     \<Rightarrow> ('c list \<Rightarrow> (protocol \<times> string) list option) \<Rightarrow> (instant \<Rightarrow> string \<Rightarrow> db \<Rightarrow> db) \<Rightarrow> (instant \<times> (string \<Rightarrow> bool)) list
     \<Rightarrow> (string \<Rightarrow> 'c agent) \<times> db \<Rightarrow> ((string \<Rightarrow> 'c agent) \<times> db) tx"
where
  "passes digest t snapshot valid outcomes after [] wd = Inr wd"
| "passes digest t snapshot valid outcomes after (p # ts) wd =
     res_bind (sync digest t (snapshot (fst p)) (agents_driver valid (snd p) outcomes) (after (fst p)) (fst p) wd)
       (\<lambda>r. passes digest t snapshot valid outcomes after ts (fst r))"

locale snapshot_delivery =
  fixes t :: snapshot_table
    and snapshot :: "instant \<Rightarrow> db \<Rightarrow> node_row \<Rightarrow> 'c list tx"
    and after :: "instant \<Rightarrow> string \<Rightarrow> db \<Rightarrow> db"
  assumes snapshot_put: "snapshot u (put_rows t rs d) n = snapshot u d n"
    and after_snapshot: "snapshot u (after now k d) n = snapshot u d n"
    and after_targets: "target_nodes (after now k d) = target_nodes d"
    and after_paused: "paused (after now k d) = paused d"
    and after_slot: "slot t (after now k d) m = slot t d m"
begin

lemma plan_node_ok:
  assumes "snapshot now d n = Inr clients"
  obtains rs where "plan_node digest t (snapshot now) n (d, s) = Inr (put_rows t rs d, s @ send_of digest t (snapshot now) d n)"
    "\<And>m. slot t (put_rows t rs d) m = (if m = nd_key n then next_slot digest clients (slot t d m) else slot t d m)"
proof (cases "row_of t d (nd_key n)")
  case None
  show thesis
  proof (cases "clients = []")
    case True
    with None assms that [of "table_rows t d"] show thesis
      by (simp add: plan_node_def send_of_def slot_def next_slot_def)
  next
    case False
    have "slot t (put_rows t (table_rows t d @ [first_row (nd_key n) (digest clients)]) d) m
        = (if m = nd_key n then next_slot digest clients (slot t d m) else slot t d m)" for m
      using None False by (auto simp: slot_def row_of_def find_append first_row_def slot_of_def next_slot_def split: option.split)
    with None False assms that [of "table_rows t d @ [first_row (nd_key n) (digest clients)]"] show thesis
      by (simp add: plan_node_def send_of_def slot_def next_slot_def)
  qed
next
  case (Some r)
  show thesis
  proof (cases "sn_digest r = digest clients")
    case True
    with Some assms that [of "table_rows t d"] show thesis
      by (simp add: plan_node_def send_of_def slot_def slot_of_def next_slot_def)
  next
    case False
    let ?f = "\<lambda>r'. r'\<lparr>sn_revision := sn_revision r + 1, sn_digest := digest clients, sn_status := Pending\<rparr>"
    let ?rs = "update_where (\<lambda>r. sn_node r = nd_key n) ?f (table_rows t d)"
    have "slot t (put_rows t ?rs d) m = (if m = nd_key n then next_slot digest clients (slot t d m) else slot t d m)" for m
      unfolding slot_def using False Some
      by (subst row_of_update, simp) (cases "row_of t d m"; auto simp: slot_of_def next_slot_def dest: row_of_node)
    with False Some assms that [of ?rs] show thesis
      by (simp add: plan_node_def send_of_def slot_def slot_of_def next_slot_def)
  qed
qed

lemma plan_fold:
  assumes "distinct (map nd_key ns)" and "\<forall>n \<in> set ns. is_ok (snapshot now d n)"
  shows "\<exists>rs. res_fold (plan_node digest t (snapshot now)) ns (d, s) = Inr (put_rows t rs d, s @ concat (map (send_of digest t (snapshot now) d) ns))
    \<and> (\<forall>m. slot t (put_rows t rs d) m = (case find (\<lambda>n. nd_key n = m) ns of None \<Rightarrow> slot t d m
          | Some n \<Rightarrow> next_slot digest (projr (snapshot now d n)) (slot t d m)))"
  using assms
proof (induction ns arbitrary: d s)
  case Nil
  then show ?case by (intro exI [of _ "table_rows t d"]) simp
next
  case (Cons n ns)
  then obtain clients where c: "snapshot now d n = Inr clients" by (auto simp: is_ok_iff)
  obtain rs where rs: "plan_node digest t (snapshot now) n (d, s) = Inr (put_rows t rs d, s @ send_of digest t (snapshot now) d n)"
    and one: "\<And>m. slot t (put_rows t rs d) m = (if m = nd_key n then next_slot digest clients (slot t d m) else slot t d m)"
    using plan_node_ok [OF c] by metis
  obtain rs' where rs': "res_fold (plan_node digest t (snapshot now)) ns (put_rows t rs d, s @ send_of digest t (snapshot now) d n)
        = Inr (put_rows t rs' d, (s @ send_of digest t (snapshot now) d n) @ concat (map (send_of digest t (snapshot now) (put_rows t rs d)) ns))"
    and rest: "\<And>m. slot t (put_rows t rs' d) m = (case find (\<lambda>n. nd_key n = m) ns of None \<Rightarrow> slot t (put_rows t rs d) m
          | Some n \<Rightarrow> next_slot digest (projr (snapshot now d n)) (slot t (put_rows t rs d) m))"
    using Cons.IH [of "put_rows t rs d" "s @ send_of digest t (snapshot now) d n", unfolded put_rows_simps snapshot_put] Cons.prems
    by (auto simp del: append_assoc)
  have away: "k \<in> set ns \<Longrightarrow> nd_key k \<noteq> nd_key n" for k using Cons.prems(1) by (auto simp: image_iff)
  have same: "map (send_of digest t (snapshot now) (put_rows t rs d)) ns = map (send_of digest t (snapshot now) d) ns"
    using away by (intro map_cong refl) (simp add: send_of_def snapshot_put one split: option.split)
  have "find (\<lambda>k. nd_key k = nd_key n) ns = None" using away by (simp add: find_None_iff')
  then show ?case using rs rs' [unfolded same] rest one c by (intro exI [of _ rs']) (auto split: option.split)
qed

lemma record_frame [simp]:
  "snapshot u (record_delivery t k sent held st extra now d) n = snapshot u d n"
  "target_nodes (record_delivery t k sent held st extra now d) = target_nodes d" "paused (record_delivery t k sent held st extra now d) = paused d"
  by (simp_all add: record_delivery_def snapshot_put)

lemma deliver_one:
  assumes "deliver t (agents_driver valid reach outcomes) (after now) now (k, sent, clients) (w, d) = (w', d')"
  shows "(w' m, slot t d' m) = (if m = k then delivered (reach k \<and> valid clients) sent clients (w m, slot t d m) else (w m, slot t d m))"
    and "snapshot u d' n = snapshot u d n" "target_nodes d' = target_nodes d" "paused d' = paused d"
  using assms by (auto simp: deliver_def agents_driver_def agent_apply_def Let_def delivered_def slot_record after_slot after_snapshot after_targets
      after_paused failure_status_def split: if_splits)

lemma deliver_all:
  assumes "distinct (map fst sends)" and "fold (deliver t (agents_driver valid reach outcomes) (after now) now) sends (w, d) = (w', d')"
  shows "(w' m, slot t d' m) = (case map_of sends m of None \<Rightarrow> (w m, slot t d m)
      | Some (sent, clients) \<Rightarrow> delivered (reach m \<and> valid clients) sent clients (w m, slot t d m))"
    and "snapshot u d' n = snapshot u d n" "target_nodes d' = target_nodes d" "paused d' = paused d"
proof -
  have "(w' m, slot t d' m) = (case map_of sends m of None \<Rightarrow> (w m, slot t d m)
      | Some (sent, clients) \<Rightarrow> delivered (reach m \<and> valid clients) sent clients (w m, slot t d m))
    \<and> snapshot u d' n = snapshot u d n \<and> target_nodes d' = target_nodes d \<and> paused d' = paused d"
    using assms
  proof (induction sends arbitrary: w d)
    case Nil
    then show ?case by simp
  next
    case (Cons s sends)
    obtain k sent clients where s: "s = (k, sent, clients)" by (cases s)
    obtain w1 d1 where one: "deliver t (agents_driver valid reach outcomes) (after now) now (k, sent, clients) (w, d) = (w1, d1)"
      by (cases "deliver t (agents_driver valid reach outcomes) (after now) now (k, sent, clients) (w, d)")
    note step = deliver_one [OF one]
    have "m = k \<Longrightarrow> map_of sends m = None" using Cons.prems(1) s by (simp add: map_of_eq_None_iff)
    with Cons.IH [of w1 d1] Cons.prems one s step(1) [of m] step(2-4) show ?case
      by (cases "m = k") (auto split: option.split)
  qed
  then show "(w' m, slot t d' m) = (case map_of sends m of None \<Rightarrow> (w m, slot t d m)
      | Some (sent, clients) \<Rightarrow> delivered (reach m \<and> valid clients) sent clients (w m, slot t d m))"
    "snapshot u d' n = snapshot u d n" "target_nodes d' = target_nodes d" "paused d' = paused d" by blast+
qed

lemma sends_of_nodes:
  assumes "distinct (map nd_key ns)"
  shows "distinct (map fst (concat (map (send_of digest t (snapshot now) d) ns)))"
    and "map_of (concat (map (send_of digest t (snapshot now) d) ns)) m = (case find (\<lambda>n. nd_key n = m) ns of None \<Rightarrow> None
      | Some n \<Rightarrow> map_option (\<lambda>x. (sl_revision x, projr (snapshot now d n))) (next_slot digest (projr (snapshot now d n)) (slot t d m)))"
proof -
  have sub: "fst ` set (concat (map (send_of digest t (snapshot now) d) ns)) \<subseteq> nd_key ` set ns" for ns
    by (force simp: send_of_def split: option.splits)
  show "distinct (map fst (concat (map (send_of digest t (snapshot now) d) ns)))" using assms
  proof (induction ns)
    case (Cons n ns)
    then show ?case using sub [of ns] by (auto simp: send_of_def split: option.split)
  qed simp
  show "map_of (concat (map (send_of digest t (snapshot now) d) ns)) m = (case find (\<lambda>n. nd_key n = m) ns of None \<Rightarrow> None
      | Some n \<Rightarrow> map_option (\<lambda>x. (sl_revision x, projr (snapshot now d n))) (next_slot digest (projr (snapshot now d n)) (slot t d m)))"
    using assms
  proof (induction ns)
    case (Cons n ns)
    have "nd_key n = m \<Longrightarrow> find (\<lambda>n. nd_key n = m) ns = None" using Cons.prems by (fastforce simp: find_None_iff' image_iff)
    with Cons show ?case by (auto simp: send_of_def split: option.split)
  qed simp
qed

text \<open>A pass acts on every node apart.\<close>

lemma sync_nodes:
  assumes keys: "distinct (map nd_key (target_nodes d))" and free: "\<not> paused d" and ok: "\<forall>n \<in> set (target_nodes d). is_ok (snapshot now d n)"
  obtains w' d' sends where "sync digest t (snapshot now) (agents_driver valid reach outcomes) (after now) now (w, d) = Inr ((w', d'), sends)"
    "\<And>u n. snapshot u d' n = snapshot u d n" "target_nodes d' = target_nodes d" "paused d' = paused d"
    "\<And>m. (w' m, slot t d' m) = (case find (\<lambda>n. nd_key n = m) (target_nodes d) of None \<Rightarrow> (w m, slot t d m)
       | Some n \<Rightarrow> node_pass digest (reach m \<and> valid (projr (snapshot now d n))) (projr (snapshot now d n)) (w m, slot t d m))"
proof -
  let ?sends = "concat (map (send_of digest t (snapshot now) d) (target_nodes d))"
  obtain rs where rs: "plan digest t (snapshot now) d = Inr (put_rows t rs d, ?sends)"
    and slots: "\<And>m. slot t (put_rows t rs d) m = (case find (\<lambda>n. nd_key n = m) (target_nodes d) of None \<Rightarrow> slot t d m
          | Some n \<Rightarrow> next_slot digest (projr (snapshot now d n)) (slot t d m))"
    using plan_fold [OF keys ok, of digest "[]"] unfolding plan_def by auto
  obtain w' d' where fold: "fold (deliver t (agents_driver valid reach outcomes) (after now) now) ?sends (w, put_rows t rs d) = (w', d')"
    by (cases "fold (deliver t (agents_driver valid reach outcomes) (after now) now) ?sends (w, put_rows t rs d)")
  note all = deliver_all [OF sends_of_nodes(1) [OF keys] fold]
  have "(w' m, slot t d' m) = (case find (\<lambda>n. nd_key n = m) (target_nodes d) of None \<Rightarrow> (w m, slot t d m)
       | Some n \<Rightarrow> node_pass digest (reach m \<and> valid (projr (snapshot now d n))) (projr (snapshot now d n)) (w m, slot t d m))" for m
    unfolding all(1) [of m] sends_of_nodes(2) [OF keys] slots by (auto simp: node_pass_def dest: next_slot_None split: option.split)
  moreover have "sync digest t (snapshot now) (agents_driver valid reach outcomes) (after now) now (w, d) = Inr ((w', d'), ?sends)"
    using rs fold free by (simp add: sync_def)
  ultimately show thesis using that all(2-4) by (simp add: snapshot_put)
qed

lemma passes_nodes:
  assumes "distinct (map nd_key (target_nodes d))" and "\<not> paused d"
    and "\<forall>p \<in> set ts. \<forall>n \<in> set (target_nodes d). is_ok (snapshot (fst p) d n)"
  shows "\<exists>w' d'. passes digest t snapshot valid outcomes after ts (w, d) = Inr (w', d')
    \<and> (\<forall>m. (w' m, slot t d' m) = (case find (\<lambda>n. nd_key n = m) (target_nodes d) of None \<Rightarrow> (w m, slot t d m)
       | Some n \<Rightarrow> fold (\<lambda>p. node_pass digest (snd p m \<and> valid (projr (snapshot (fst p) d n))) (projr (snapshot (fst p) d n))) ts (w m, slot t d m)))"
  using assms
proof (induction ts arbitrary: w d)
  case Nil
  then show ?case by (simp split: option.split)
next
  case (Cons p ts)
  have free: "\<not> paused d" and ok: "\<forall>n \<in> set (target_nodes d). is_ok (snapshot (fst p) d n)" using Cons.prems by auto
  obtain w1 d1 sends where one: "sync digest t (snapshot (fst p)) (agents_driver valid (snd p) outcomes) (after (fst p)) (fst p) (w, d) = Inr ((w1, d1), sends)"
    and frame: "\<And>u n. snapshot u d1 n = snapshot u d n" "target_nodes d1 = target_nodes d" "paused d1 = paused d"
    and nodes: "\<And>m. (w1 m, slot t d1 m) = (case find (\<lambda>n. nd_key n = m) (target_nodes d) of None \<Rightarrow> (w m, slot t d m)
       | Some n \<Rightarrow> node_pass digest (snd p m \<and> valid (projr (snapshot (fst p) d n))) (projr (snapshot (fst p) d n)) (w m, slot t d m))"
    by (rule sync_nodes [OF Cons.prems(1) free ok, where digest = digest and reach = "snd p" and valid = valid and outcomes = outcomes and w = w]) (rule that)
  obtain w' d' where rest: "passes digest t snapshot valid outcomes after ts (w1, d1) = Inr (w', d')"
    and nodes': "\<And>m. (w' m, slot t d' m) = (case find (\<lambda>n. nd_key n = m) (target_nodes d) of None \<Rightarrow> (w1 m, slot t d1 m)
       | Some n \<Rightarrow> fold (\<lambda>p. node_pass digest (snd p m \<and> valid (projr (snapshot (fst p) d n))) (projr (snapshot (fst p) d n))) ts (w1 m, slot t d1 m))"
    using Cons.IH [of d1 w1, unfolded frame] Cons.prems by auto
  have "passes digest t snapshot valid outcomes after (p # ts) (w, d) = Inr (w', d')" by (simp add: one rest)
  moreover have "(w' m, slot t d' m) = (case find (\<lambda>n. nd_key n = m) (target_nodes d) of None \<Rightarrow> (w m, slot t d m)
       | Some n \<Rightarrow> fold (\<lambda>p. node_pass digest (snd p m \<and> valid (projr (snapshot (fst p) d n))) (projr (snapshot (fst p) d n))) (p # ts) (w m, slot t d m))" for m
    using nodes [of m] nodes' [of m] by (cases "find (\<lambda>n. nd_key n = m) (target_nodes d)") simp_all
  ultimately show ?case by blast
qed

lemma passes_node:
  assumes "distinct (map nd_key (target_nodes d))" and "\<not> paused d"
    and "\<forall>p \<in> set ts. \<forall>n \<in> set (target_nodes d). is_ok (snapshot (fst p) d n)" and "n \<in> set (target_nodes d)"
  shows "\<exists>w' d'. passes digest t snapshot valid outcomes after ts (w, d) = Inr (w', d')
    \<and> (w' (nd_key n), slot t d' (nd_key n))
      = fold (\<lambda>p. node_pass digest (snd p (nd_key n) \<and> valid (projr (snapshot (fst p) d n))) (projr (snapshot (fst p) d n))) ts
          (w (nd_key n), slot t d (nd_key n))"
proof -
  have "find (\<lambda>k. nd_key k = nd_key n) (target_nodes d) = Some n"
    using assms(4) distinct_keyD [OF assms(1)] by (intro find_unique) auto
  then show ?thesis using passes_nodes [OF assms(1-3), of digest valid outcomes w] by fastforce
qed

text \<open>Two answered passes enforce the snapshot of the second, however many passes there are between them, whether or not the
  agent answers those, and whatever changes from one to the next.\<close>

lemma enforced_once_reached:
  assumes "distinct (map nd_key (target_nodes d))" and "\<not> paused d"
    and ok: "\<forall>p \<in> set ([(now, reach)] @ ts @ [(now', reach')]). \<forall>n \<in> set (target_nodes d). is_ok (snapshot (fst p) d n)"
    and n: "n \<in> set (target_nodes d)" "snapshot now d n = Inr clients" "snapshot now' d n = Inr clients'"
      "clients \<noteq> [] \<or> slot t d (nd_key n) \<noteq> None" "valid clients" "valid clients'"
    and start: "startable digest clients (w (nd_key n), slot t d (nd_key n))"
    and digest: "inj_on digest (insert (ag_clients (w (nd_key n))) {c. \<exists>p \<in> set ([(now, reach)] @ ts @ [(now', reach')]). snapshot (fst p) d n = Inr c})"
    and up: "reach (nd_key n)" "reach' (nd_key n)"
  shows "\<exists>w' d'. passes digest t snapshot valid outcomes after ([(now, reach)] @ ts @ [(now', reach')]) (w, d) = Inr (w', d')
    \<and> enforced clients' (w' (nd_key n), slot t d' (nd_key n))"
proof -
  let ?S = "insert (ag_clients (w (nd_key n))) {c. \<exists>p \<in> set ([(now, reach)] @ ts @ [(now', reach')]). snapshot (fst p) d n = Inr c}"
  let ?c = "\<lambda>p. projr (snapshot (fst p) d n)"
  let ?f = "\<lambda>p. node_pass digest (snd p (nd_key n) \<and> valid (?c p)) (?c p)"
  let ?one = "node_pass digest True clients (w (nd_key n), slot t d (nd_key n))"
  have known: "?c p \<in> ?S" if "p \<in> set ts" for p
  proof -
    have "is_ok (snapshot (fst p) d n)" using that ok n(1) by auto
    then have "snapshot (fst p) d n = Inr (?c p)" by (rule is_ok_projr)
    with that show ?thesis by auto
  qed
  have later: "in_step digest (fold ?f ps as) \<and> ag_clients (fst (fold ?f ps as)) \<in> ?S \<and> snd (fold ?f ps as) \<noteq> None"
    if "set ps \<subseteq> set ts" "in_step digest as" "ag_clients (fst as) \<in> ?S" "snd as \<noteq> None" for ps as
    using that
  proof (induction ps arbitrary: as)
    case (Cons p ps)
    have "?c p \<in> ?S" by (rule known) (use Cons.prems(1) in simp)
    then have "ag_clients (fst (?f p as)) \<in> ?S" by (rule holds_known [OF Cons.prems(3)])
    with Cons.IH [OF _ in_step_pass [OF Cons.prems(2)] _ slot_kept] Cons.prems(1,4) show ?case by simp
  qed simp
  have "clients \<in> ?S" "clients' \<in> ?S" using n(2,3) by auto
  then have "ag_clients (fst ?one) \<in> ?S" by (intro holds_known) simp_all
  moreover have "clients \<noteq> [] \<or> snd (w (nd_key n), slot t d (nd_key n)) \<noteq> None" using n(4) by simp
  ultimately have as: "in_step digest (fold ?f ts ?one)" "ag_clients (fst (fold ?f ts ?one)) \<in> ?S" "snd (fold ?f ts ?one) \<noteq> None"
    using later [OF subset_refl brought_in_step [OF start]] slot_kept by blast+
  have "digest (ag_clients (fst (fold ?f ts ?one))) = digest clients' \<longrightarrow> ag_clients (fst (fold ?f ts ?one)) = clients'"
    using inj_onD [OF digest, of _ clients'] as \<open>clients' \<in> ?S\<close> by blast
  with as have "enforced clients' (node_pass digest True clients' (fold ?f ts ?one))" by (intro enforced_in_step) blast+
  moreover obtain w' d' where "passes digest t snapshot valid outcomes after ([(now, reach)] @ ts @ [(now', reach')]) (w, d) = Inr (w', d')"
    "(w' (nd_key n), slot t d' (nd_key n)) = node_pass digest True clients' (fold ?f ts ?one)"
    using passes_node [OF assms(1-3) n(1), of digest valid outcomes w] n(2,3,5,6) up by auto
  ultimately show ?thesis by metis
qed

lemma mistaken_forever:
  assumes "distinct (map nd_key (target_nodes d))" and "\<not> paused d"
    and "\<forall>p \<in> set ts. \<forall>n \<in> set (target_nodes d). is_ok (snapshot (fst p) d n)"
    and n: "n \<in> set (target_nodes d)" "\<forall>p \<in> set ts. snapshot (fst p) d n = Inr clients" "clients \<noteq> []" "valid clients"
    and none: "slot t d (nd_key n) = None" "ag_revision (w (nd_key n)) = 1" and up: "\<forall>p \<in> set ts. snd p (nd_key n)" "ts \<noteq> []"
  shows "\<exists>w' d'. passes digest t snapshot valid outcomes after ts (w, d) = Inr (w', d')
    \<and> mistaken digest clients (w (nd_key n)) (w' (nd_key n), slot t d' (nd_key n))"
proof -
  let ?a = "w (nd_key n)"
  let ?f = "\<lambda>p. node_pass digest (snd p (nd_key n) \<and> valid (projr (snapshot (fst p) d n))) (projr (snapshot (fst p) d n))"
  obtain p ps where ts: "ts = p # ps" using up(2) by (cases ts) auto
  have later: "mistaken digest clients ?a (fold ?f qs as)" if "mistaken digest clients ?a as" "set qs \<subseteq> set ts" for as qs
    using that up(1) n(2,4) by (induction qs arbitrary: as) (simp_all add: mistaken_pass(1))
  have "mistaken digest clients ?a (?f p (?a, None))" using mistaken_pass(2) [OF n(3) none(2), of digest] up(1) n(2,4) ts by simp
  from later [OF this, of ps] have "mistaken digest clients ?a (fold ?f ts (?a, None))" using ts by auto
  then show ?thesis using passes_node [OF assms(1-3) n(1), of digest valid outcomes w] none(1) by auto
qed

end

end
