(* ===== verification/Calendar.thy ===== *)
theory Calendar
  imports Schema
begin

text \<open>
  The proleptic Gregorian calendar of Python's \<^verbatim>\<open>datetime\<close> and \<^verbatim>\<open>calendar.monthrange\<close>, as the components that work with
  dates use it: the number of a day, the date of a day number, and wall-clock times. A wall-clock time is the number of
  microseconds from 1970-01-01 00:00 on the same clock. A time zone is a pair of conversions; the constructor
  \<open>fixed_zone\<close> is a zone without transitions, of which UTC is one, and \<open>shift_zone\<close> is a zone that changes its offset once.
\<close>

section \<open>Days\<close>

definition is_leap :: "int \<Rightarrow> bool" where
  "is_leap y = (y mod 4 = 0 \<and> (y mod 100 \<noteq> 0 \<or> y mod 400 = 0))"

definition month_lengths :: "int \<Rightarrow> int list" where
  "month_lengths y = [31, if is_leap y then 29 else 28, 31, 30, 31, 30, 31, 31, 30, 31, 30, 31]"

text \<open>\<open>monthrange(year, month)[1]\<close>.\<close>

definition days_in_month :: "int \<Rightarrow> int \<Rightarrow> int" where
  "days_in_month y m = month_lengths y ! nat (m - 1)"

text \<open>The days before a year and before a month of it, counted from 0001-01-01.\<close>

definition days_before_year :: "int \<Rightarrow> int" where
  "days_before_year y = (let z = y - 1 in z * 365 + z div 4 - z div 100 + z div 400)"

definition days_before_month :: "int \<Rightarrow> int \<Rightarrow> int" where
  "days_before_month y m = sum_list (take (nat (m - 1)) (month_lengths y))"

definition day_number :: "int \<Rightarrow> int \<Rightarrow> int \<Rightarrow> int" where
  "day_number y m d = days_before_year y + days_before_month y m + (d - 1)"

definition year_of :: "int \<Rightarrow> int" where
  "year_of k = (let y = k * 400 div 146097 + 1 in if days_before_year (y + 1) \<le> k then y + 1 else y)"

fun month_in :: "int list \<Rightarrow> int \<Rightarrow> int \<Rightarrow> int \<times> int" where
  "month_in [] m k = (m, k + 1)"
| "month_in (l # ls) m k = (if k < l then (m, k + 1) else month_in ls (m + 1) (k - l))"

definition date_of :: "int \<Rightarrow> int \<times> int \<times> int" where
  "date_of k = (let y = year_of k in (y, month_in (month_lengths y) 1 (k - days_before_year y)))"

lemma div_succ: "0 < n \<Longrightarrow> (a + 1) div n = a div n + (if (a + 1) mod n = 0 then 1 else 0)" for a n :: int
proof -
  assume n: "0 < n"
  have a: "a = n * (a div n) + a mod n" and r: "0 \<le> a mod n" "a mod n < n" using n by simp_all
  show ?thesis
  proof (cases "a mod n + 1 = n")
    case True
    have "a + 1 = n * (a div n) + (a mod n + 1)" using a by simp
    then have e: "a + 1 = n * (a div n + 1)" unfolding True by (simp add: distrib_left)
    then have "(a + 1) mod n = 0" by simp
    moreover have "(a + 1) div n = a div n + 1" unfolding e using n by simp
    ultimately show ?thesis by simp
  next
    case False
    have e: "a + 1 = n * (a div n) + (a mod n + 1)" using a by simp
    have "(a + 1) div n = a div n" by (rule int_div_pos_eq [OF e]) (use r False in linarith)+
    moreover have "(a + 1) mod n = a mod n + 1" by (rule int_mod_pos_eq [OF e]) (use r False in linarith)+
    ultimately show ?thesis using r by simp
  qed
qed

lemma sum_month_lengths: "sum_list (month_lengths y) = (if is_leap y then 366 else 365)"
  by (simp add: month_lengths_def)

lemma leap_step:
  "b - a = (if p then 1 else 0) \<Longrightarrow> d - c = (if q then 1 else 0) \<Longrightarrow> f - e = (if r then 1 else 0) \<Longrightarrow> (q \<Longrightarrow> p) \<Longrightarrow> (r \<Longrightarrow> q)
   \<Longrightarrow> y * 365 + b - d + f = (y - 1) * 365 + a - c + e + (if p \<and> (\<not> q \<or> r) then 366 else 365)" for a b c d e f y :: int
  by (cases p; cases q; cases r) auto

lemma days_before_next_year: "days_before_year (y + 1) = days_before_year y + sum_list (month_lengths y)"
proof -
  have d: "y div n - (y - 1) div n = (if y mod n = 0 then 1 else 0)" if "0 < n" for n :: int
    using div_succ [OF that, of "y - 1"] by simp
  have m: "y mod 100 = 0 \<Longrightarrow> y mod 4 = 0" "y mod 400 = 0 \<Longrightarrow> y mod 100 = 0"
    unfolding mod_eq_0_iff_dvd by (rule dvd_trans [of _ 100] dvd_trans [of _ 400]; simp)+
  have "y * 365 + y div 4 - y div 100 + y div 400 = (y - 1) * 365 + (y - 1) div 4 - (y - 1) div 100 + (y - 1) div 400
      + (if y mod 4 = 0 \<and> (y mod 100 \<noteq> 0 \<or> y mod 400 = 0) then 366 else 365)"
    by (rule leap_step) (rule d m, simp | rule d m, assumption)+
  then show ?thesis unfolding days_before_year_def Let_def sum_month_lengths is_leap_def add_diff_cancel_right' .
qed

lemma century_bounds:
  fixes a b c r s t z :: int
  assumes "4 * a + r = z" "100 * b + s = z" "400 * c + t = z" "0 \<le> r" "r < 4" "0 \<le> s" "s < 100" "0 \<le> t" "t < 400"
  shows "400 * (z * 365 + a - b + c) \<le> 146097 * z + 396" "146097 * z - 699 \<le> 400 * (z * 365 + a - b + c)"
proof -
  have "400 * (z * 365 + a - b + c) = 146097 * z - 100 * r + 4 * s - t" using assms(1-3) by (simp add: algebra_simps)
  then show "400 * (z * 365 + a - b + c) \<le> 146097 * z + 396" "146097 * z - 699 \<le> 400 * (z * 365 + a - b + c)"
    using assms(4-) by linarith+
qed

lemma days_before_year_bounds:
  "400 * days_before_year y \<le> 146097 * (y - 1) + 396" "146097 * (y - 1) - 699 \<le> 400 * days_before_year y"
  using century_bounds [OF mult_div_mod_eq [of 4 "y - 1"] mult_div_mod_eq [of 100 "y - 1"] mult_div_mod_eq [of 400 "y - 1"]]
  unfolding days_before_year_def Let_def by simp_all

lemma euclid_bounds: "b * q + r = a \<Longrightarrow> 0 \<le> r \<Longrightarrow> r < b \<Longrightarrow> b * q \<le> a \<and> a < b * (q + 1)" for a b q r :: int
  by (simp add: distrib_left)

lemma year_of_bounds: "days_before_year (year_of k) \<le> k" "k < days_before_year (year_of k + 1)"
proof -
  define e where "e = k * 400 div 146097"
  have e: "146097 * e \<le> k * 400" "k * 400 < 146097 * (e + 1)"
    using euclid_bounds [OF mult_div_mod_eq [of 146097 "k * 400"]] unfolding e_def by simp_all
  have "400 * days_before_year (e + 1) \<le> 400 * k + 396" using days_before_year_bounds(1) [of "e + 1"] e by simp
  then have lo: "days_before_year (e + 1) \<le> k" by linarith
  have "400 * days_before_year (e + 2) > 400 * k - 700" using days_before_year_bounds(2) [of "e + 2"] e by simp
  then have "k - 2 < days_before_year (e + 2)" by linarith
  moreover have "days_before_year (e + 2) + 365 \<le> days_before_year (e + 3)"
    using days_before_next_year [of "e + 2"] unfolding sum_month_lengths add.assoc by (simp split: if_splits)
  ultimately have hi: "k < days_before_year (e + 3)" by linarith
  have y: "year_of k = (if days_before_year (e + 2) \<le> k then e + 2 else e + 1)"
    unfolding year_of_def Let_def e_def [symmetric] add.assoc by simp
  show "days_before_year (year_of k) \<le> k" using lo by (simp add: y)
  show "k < days_before_year (year_of k + 1)" using hi by (simp add: y ac_simps)
qed

lemma month_in_ok:
  assumes "0 \<le> k" and "k < sum_list ls" and "\<forall>l \<in> set ls. 0 < l"
  shows "\<exists>i < length ls. month_in ls m k = (m + int i, k - sum_list (take i ls) + 1) \<and> sum_list (take i ls) \<le> k \<and> k < sum_list (take i ls) + ls ! i"
  using assms
proof (induction ls arbitrary: m k)
  case (Cons l ls)
  show ?case
  proof (cases "k < l")
    case True
    with Cons.prems show ?thesis by (intro exI [of _ 0]) simp
  next
    case False
    with Cons.prems Cons.IH [of "k - l" "m + 1"] obtain i where "i < length ls"
      "month_in ls (m + 1) (k - l) = (m + 1 + int i, k - l - sum_list (take i ls) + 1)"
      "sum_list (take i ls) \<le> k - l" "k - l < sum_list (take i ls) + ls ! i" by auto
    with False show ?thesis by (intro exI [of _ "Suc i"]) auto
  qed
qed simp

text \<open>The date of a day number is a real date with that number.\<close>

theorem date_of_ok:
  assumes "date_of k = (y, m, d)"
  shows "1 \<le> m" "m \<le> 12" "1 \<le> d" "d \<le> days_in_month y m" "day_number y m d = k"
proof -
  let ?y = "year_of k" and ?r = "k - days_before_year (year_of k)"
  have "0 \<le> ?r" "?r < sum_list (month_lengths ?y)" using year_of_bounds [of k] days_before_next_year [of ?y] by simp_all
  moreover have "\<forall>l \<in> set (month_lengths ?y). 0 < l" "length (month_lengths ?y) = 12" by (simp_all add: month_lengths_def)
  ultimately obtain i where i: "i < 12" "month_in (month_lengths ?y) 1 ?r = (1 + int i, ?r - sum_list (take i (month_lengths ?y)) + 1)"
    "sum_list (take i (month_lengths ?y)) \<le> ?r" "?r < sum_list (take i (month_lengths ?y)) + month_lengths ?y ! i"
    using month_in_ok [of ?r "month_lengths ?y" 1] by auto
  with assms have "y = ?y" "m = 1 + int i" "d = ?r - sum_list (take i (month_lengths ?y)) + 1" by (auto simp: date_of_def Let_def)
  with i show "1 \<le> m" "m \<le> 12" "1 \<le> d" "d \<le> days_in_month y m" "day_number y m d = k"
    by (simp_all add: days_in_month_def day_number_def days_before_month_def)
qed

section \<open>Wall-clock times\<close>

definition EPOCH_DAY :: int where "EPOCH_DAY = 719162"

text \<open>\<open>datetime.min\<close>.\<close>

definition MIN_INSTANT :: int where "MIN_INSTANT = - 62135596800 * second"

record zone =
  tz_local :: "instant \<Rightarrow> int"
  tz_utc :: "int \<Rightarrow> instant"

definition fixed_zone :: "int \<Rightarrow> zone" where
  "fixed_zone offset = \<lparr>tz_local = (\<lambda>t. t + offset), tz_utc = (\<lambda>w. w - offset)\<rparr>"

text \<open>A zone agrees with UTC at a moment about what is past: a wall time has passed there exactly when its instant has. A
  zone at a fixed offset always does. A zone that changes its offset, as for summer time, does except during the length of
  the change right after it: there wall times repeat or are skipped, and the conversion takes them to be of the time before
  the change (\<open>fold=0\<close>).\<close>

definition agrees :: "zone \<Rightarrow> instant \<Rightarrow> bool" where
  "agrees tz now = (\<forall>w. tz_utc tz w \<le> now \<longleftrightarrow> w \<le> tz_local tz now)"

definition shift_zone :: "instant \<Rightarrow> int \<Rightarrow> int \<Rightarrow> zone" where
  "shift_zone change old new = \<lparr>tz_local = (\<lambda>t. t + (if t < change then old else new)),
     tz_utc = (\<lambda>w. w - (if w < change + max old new then old else new))\<rparr>"

lemma agrees_fixed: "agrees (fixed_zone offset) now"
  by (auto simp: agrees_def fixed_zone_def)

lemma agrees_shift: "now < change \<or> change + \<bar>old - new\<bar> \<le> now \<Longrightarrow> agrees (shift_zone change old new) now"
  by (auto simp: agrees_def shift_zone_def)

definition in_range :: "int \<Rightarrow> bool" where
  "in_range t = (MIN_INSTANT \<le> t \<and> t \<le> MAX_INSTANT)"

text \<open>\<open>astimezone\<close>: a result outside the range of \<open>datetime\<close> raises.\<close>

definition to_local :: "zone \<Rightarrow> instant \<Rightarrow> int tx" where
  "to_local tz t = guard (in_range (tz_local tz t)) OverflowError (Inr (tz_local tz t))"

definition to_utc :: "zone \<Rightarrow> int \<Rightarrow> instant tx" where
  "to_utc tz w = guard (in_range (tz_utc tz w)) OverflowError (Inr (tz_utc tz w))"

definition wall_day :: "int \<Rightarrow> int" where "wall_day w = w div day + EPOCH_DAY"
definition wall_time :: "int \<Rightarrow> int" where "wall_time w = w mod day"
definition wall_date :: "int \<Rightarrow> int \<times> int \<times> int" where "wall_date w = date_of (wall_day w)"

text \<open>\<open>datetime(y, m, d, \<dots>)\<close> with a time of day in microseconds.\<close>

definition wall :: "int \<Rightarrow> int \<Rightarrow> int \<Rightarrow> int \<Rightarrow> int" where
  "wall y m d t = (day_number y m d - EPOCH_DAY) * day + t"

definition mk_datetime :: "int \<Rightarrow> int \<Rightarrow> int \<Rightarrow> int \<Rightarrow> int tx" where
  "mk_datetime y m d t = guard (1 \<le> y \<and> y \<le> 9999) (ValueError ''year is out of range'') (Inr (wall y m d t))"

lemma day_pos [simp]: "0 < day" by (simp add: day_def minute_def second_def)

lemma wall_time_bounds: "0 \<le> wall_time w" "wall_time w < day" by (simp_all add: wall_time_def)

lemma wall_split: "w = (wall_day w - EPOCH_DAY) * day + wall_time w"
  by (simp add: wall_day_def wall_time_def)

text \<open>The next month, and that its first day follows the last of this one.\<close>

definition month_shift :: "int \<Rightarrow> int \<Rightarrow> int \<Rightarrow> int \<times> int" where
  "month_shift y m c = (let i = y * 12 + m - 1 + c in (i div 12, i mod 12 + 1))"

lemma month_next: "1 \<le> m \<Longrightarrow> m \<le> 12 \<Longrightarrow> month_shift y m 1 = (if m = 12 then (y + 1, 1) else (y, m + 1))"
  unfolding month_shift_def Let_def
  by (cases "m = 12") (simp_all add: int_div_pos_eq [of _ 12 y m] int_mod_pos_eq [of _ 12 y m] int_div_pos_eq [of _ 12 "y + 1" 0] int_mod_pos_eq [of _ 12 "y + 1" 0])

lemma month_prev: "1 \<le> m \<Longrightarrow> m \<le> 12 \<Longrightarrow> month_shift y m (- 1) = (if m = 1 then (y - 1, 12) else (y, m - 1))"
  unfolding month_shift_def Let_def
  by (cases "m = 1") (simp_all add: int_div_pos_eq [of _ 12 y "m - 2"] int_mod_pos_eq [of _ 12 y "m - 2"] int_div_pos_eq [of _ 12 "y - 1" 11] int_mod_pos_eq [of _ 12 "y - 1" 11])

definition month_start :: "int \<times> int \<Rightarrow> int" where "month_start ym = day_number (fst ym) (snd ym) 1"

lemma days_before_month_next: "1 \<le> m \<Longrightarrow> m < 12 \<Longrightarrow> days_before_month y (m + 1) = days_before_month y m + days_in_month y m"
proof -
  assume m: "1 \<le> m" "m < 12"
  have "nat (m + 1 - 1) = Suc (nat (m - 1))" using m by simp
  moreover have "nat (m - 1) < length (month_lengths y)" using m by (simp add: month_lengths_def)
  ultimately show ?thesis by (simp add: days_before_month_def days_in_month_def take_Suc_conv_app_nth)
qed

lemma month_start_next:
  assumes "1 \<le> m" and "m \<le> 12"
  shows "month_start (month_shift y m 1) = month_start (y, m) + days_in_month y m"
proof (cases "m = 12")
  case True
  have "days_before_month y 12 + days_in_month y 12 = sum_list (month_lengths y)" "days_before_month (y + 1) 1 = 0"
    by (simp_all add: days_before_month_def days_in_month_def month_lengths_def eval_nat_numeral)
  with True show ?thesis by (simp add: month_next month_start_def day_number_def days_before_next_year)
next
  case False
  with assms show ?thesis by (simp add: month_next month_start_def day_number_def days_before_month_next)
qed

end
