(* ===== verification/Quotas.thy ===== *)
theory Quotas
  imports Calendar Devices Service_Notifications
begin

text \<open>
  \<^verbatim>\<open>app/backend/quotas.py\<close>: the periods a traffic quota is counted in, the suspension of a profile that used its quota up,
  the worker's pass over the profiles and the commands of administrators. A time zone is a pair of conversions
  (\<^verbatim>\<open>Calendar\<close>); the zones of the host are the argument \<open>zones\<close>, from a name to its zone. A profile's traffic accrues
  into its open period; one period per profile is open at a time.
\<close>

section \<open>Sizes\<close>

text \<open>\<open>f'{amount:.1f}'\<close> of a quotient by a power of 1024, which is exact below \<open>2 ^ 53\<close> bytes: tenths, a tie to even.\<close>

definition tenths :: "int \<Rightarrow> int \<Rightarrow> int" where
  "tenths v unit = (let q = 10 * v div unit; r = 2 * (10 * v mod unit) in
     if r > unit \<or> r = unit \<and> odd q then q + 1 else q)"

definition one_decimal :: "int \<Rightarrow> int \<Rightarrow> string" where
  "one_decimal v unit = int_str (tenths v unit div 10) @ ''.'' @ int_str (tenths v unit mod 10)"

fun size_label_from :: "string list \<Rightarrow> int \<Rightarrow> int \<Rightarrow> string" where
  "size_label_from [] v unit = []"
| "size_label_from [name] v unit = one_decimal v unit @ '' '' @ name"
| "size_label_from (name # names) v unit =
     (if v < 1024 * unit then one_decimal v unit @ '' '' @ name else size_label_from names v (1024 * unit))"

definition size_label :: "int \<Rightarrow> string" where
  "size_label v = size_label_from [''B'', ''KiB'', ''MiB'', ''GiB'', ''TiB''] v 1"

section \<open>Periods\<close>

definition on_day :: "zone \<Rightarrow> int \<Rightarrow> int \<Rightarrow> int \<Rightarrow> int \<Rightarrow> instant tx" where
  "on_day tz y m d time =
     res_bind (mk_datetime y m (min d (days_in_month y m)) (time - time mod second)) (\<lambda>w. Inr (tz_utc tz w))"

definition checked_utc :: "instant \<Rightarrow> instant tx" where
  "checked_utc t = guard (in_range t) OverflowError (Inr t)"

definition wall_utc :: "zone \<Rightarrow> int \<Rightarrow> int \<Rightarrow> instant tx" where
  "wall_utc tz y m = res_bind (mk_datetime y m 1 0) (\<lambda>w. Inr (tz_utc tz w))"

definition bounds_utc :: "instant tx \<Rightarrow> instant tx \<Rightarrow> (instant \<times> instant option) tx" where
  "bounds_utc start end' = res_bind start (\<lambda>s. res_bind end' (\<lambda>e. res_bind (checked_utc s) (\<lambda>s'. res_bind (checked_utc e) (\<lambda>e'. Inr (s', Some e')))))"

definition monthly_period :: "zone \<Rightarrow> int \<Rightarrow> int \<Rightarrow> int \<Rightarrow> int \<Rightarrow> instant \<Rightarrow> (instant \<times> instant option) tx" where
  "monthly_period tz y m d time now =
     res_bind (on_day tz y m d time) (\<lambda>s.
       if s > now then
         (let (y', m') = month_shift y m (- 1); (y2, m2) = month_shift y' m' 1 in
          bounds_utc (on_day tz y' m' d time) (on_day tz y2 m2 d time))
       else (let (y2, m2) = month_shift y m 1 in bounds_utc (Inr s) (on_day tz y2 m2 d time)))"

definition naive :: "int \<Rightarrow> int tx" where
  "naive w = guard (in_range w) OverflowError (Inr w)"

definition interval_period :: "zone \<Rightarrow> int \<Rightarrow> int \<Rightarrow> int \<Rightarrow> (instant \<times> instant option) tx" where
  "interval_period tz base local interval_days =
     (let step = interval_days * day; count = (local - base) div step in
      bounds_utc (res_bind (naive (base + step * count)) (\<lambda>w. Inr (tz_utc tz w)))
        (res_bind (naive (base + step * (count + 1))) (\<lambda>w. Inr (tz_utc tz w))))"

definition quota_period :: "string \<Rightarrow> instant \<Rightarrow> int \<Rightarrow> zone \<Rightarrow> instant \<Rightarrow> (instant \<times> instant option) tx" where
  "quota_period strategy anchor interval_days tz now =
     res_bind (to_local tz now) (\<lambda>local.
     (let (y, m, _) = wall_date local in
      if strategy = ''none'' then Inr (anchor, None)
      else if strategy = ''calendar_month'' then
        (let (y2, m2) = month_shift y m 1 in bounds_utc (wall_utc tz y m) (wall_utc tz y2 m2))
      else if strategy = ''monthly_anchor'' then
        res_bind (to_local tz anchor) (\<lambda>a. monthly_period tz y m (snd (snd (wall_date a))) (wall_time a) now)
      else if strategy = ''interval'' then
        res_bind (to_local tz anchor) (\<lambda>base. interval_period tz base local interval_days)
      else Inl (ValueError ''unknown reset strategy'')))"

section \<open>Settings\<close>

definition QUOTA_KEYS :: "string list" where
  "QUOTA_KEYS = [''quota.bytes'', ''quota.reset'', ''quota.interval_days'', ''quota.on_exhausted'', ''quota.throttle_kbit'']"

definition WARN_PERCENT :: int where "WARN_PERCENT = 80"
definition HISTORY :: nat where "HISTORY = 6"

text \<open>The resolved settings; no limit is the limit 0, which the code treats alike.\<close>

record quota_values =
  qv_bytes :: int
  qv_reset :: string
  qv_interval :: int
  qv_on_exhausted :: string
  qv_throttle :: int

definition int_of :: "pyval option \<Rightarrow> int" where
  "int_of v = (case v of Some (PInt n) \<Rightarrow> n | _ \<Rightarrow> 0)"

definition str_of :: "pyval option \<Rightarrow> string" where
  "str_of v = (case v of Some (PStr s) \<Rightarrow> s | _ \<Rightarrow> [])"

definition quota_values_of :: "(string \<times> pyval) list \<Rightarrow> quota_values" where
  "quota_values_of vs = \<lparr>qv_bytes = int_of (map_of vs ''quota.bytes''), qv_reset = str_of (map_of vs ''quota.reset''),
     qv_interval = int_of (map_of vs ''quota.interval_days''), qv_on_exhausted = str_of (map_of vs ''quota.on_exhausted''),
     qv_throttle = int_of (map_of vs ''quota.throttle_kbit'')\<rparr>"

definition quota_settings :: "db \<Rightarrow> string \<Rightarrow> quota_values tx" where
  "quota_settings d profile_id =
     res_bind (effective d (no_target\<lparr>tg_profile := Some profile_id\<rparr>) (Some QUOTA_KEYS)) (\<lambda>vs. Inr (quota_values_of vs))"

definition quota_zone :: "(string \<Rightarrow> zone tx) \<Rightarrow> db \<Rightarrow> zone tx" where
  "quota_zone zones d =
     res_bind (effective d no_target (Some [''quota.timezone''])) (\<lambda>vs.
       let name = str_of (map_of vs ''quota.timezone'') in if name = ''UTC'' then Inr (fixed_zone 0) else zones name)"

section \<open>Usage\<close>

definition is_open :: "string \<Rightarrow> quota_period_row \<Rightarrow> bool" where
  "is_open profile_id q = (qp_profile q = profile_id \<and> qp_closed_at q = None)"

definition open_period :: "db \<Rightarrow> string \<Rightarrow> quota_period_row option" where
  "open_period d profile_id = find (is_open profile_id) (quota_periods d)"

definition used_bytes :: "quota_period_row \<Rightarrow> int" where
  "used_bytes q = qp_uplink q + qp_downlink q"

definition throttle :: "db \<Rightarrow> string \<Rightarrow> int option tx" where
  "throttle d profile_id =
     res_bind (quota_settings d profile_id) (\<lambda>v.
       Inr (case open_period d profile_id of
              None \<Rightarrow> None
            | Some q \<Rightarrow> if qv_on_exhausted v \<noteq> ''throttle'' \<or> qv_bytes v = 0 \<or> used_bytes q < qv_bytes v then None else Some (qv_throttle v)))"

definition accrue :: "string \<Rightarrow> int \<Rightarrow> int \<Rightarrow> db \<Rightarrow> db" where
  "accrue profile_id uplink downlink d =
     (if uplink \<noteq> 0 \<or> downlink \<noteq> 0 then
        d\<lparr>quota_periods := update_where (is_open profile_id)
            (\<lambda>q. q\<lparr>qp_uplink := qp_uplink q + uplink, qp_downlink := qp_downlink q + downlink\<rparr>) (quota_periods d)\<rparr>
      else d)"

section \<open>Changing access\<close>

text \<open>\<open>ORDER BY desired_revision DESC, created_at DESC LIMIT 1\<close>.\<close>

definition latest_actor :: "db \<Rightarrow> string \<Rightarrow> string option" where
  "latest_actor d profile_id =
     (case order_by (\<lambda>r. (op_desired_revision r, op_created_at r)) (filter (\<lambda>r. op_profile r = profile_id) (operations d)) of
        [] \<Rightarrow> None | rs \<Rightarrow> Some (op_actor (last rs)))"

definition change_access :: "string \<Rightarrow> instant \<Rightarrow> db \<Rightarrow> db tx" where
  "change_access profile_id now d = (case latest_actor d profile_id of
     None \<Rightarrow> Inr d
   | Some actor_id \<Rightarrow>
       (let d1 = bump_revision profile_id d in
        res_bind (record_operation actor_id profile_id (profile_targets d1 profile_id) None now d1) (\<lambda>(e, _). Inr e)))"

definition notify_quota :: "string \<Rightarrow> string \<Rightarrow> string \<Rightarrow> instant \<Rightarrow> (string \<times> pyval) list \<Rightarrow> db \<Rightarrow> db tx" where
  "notify_quota kind profile_id period_id now payload d = queue kind profile_id (kind @ '':'' @ period_id) now payload None None d"

definition touch_period :: "string \<Rightarrow> (quota_period_row \<Rightarrow> quota_period_row) \<Rightarrow> db \<Rightarrow> db" where
  "touch_period i f d = d\<lparr>quota_periods := update_where (\<lambda>q. qp_id q = i) f (quota_periods d)\<rparr>"

definition close_period :: "quota_period_row \<Rightarrow> string \<Rightarrow> instant \<Rightarrow> string option \<Rightarrow> db \<Rightarrow> db tx" where
  "close_period q reason now closed_by d =
     (let d1 = d\<lparr>quota_periods := update_where (\<lambda>r. qp_id r = qp_id q \<and> qp_closed_at r = None)
           (\<lambda>r. r\<lparr>qp_closed_at := Some now, qp_close_reason := Some reason, qp_closed_by := closed_by, qp_blocked := False\<rparr>) (quota_periods d)\<rparr>
      in if qp_blocked q then change_access (qp_profile q) now d1 else Inr d1)"

text \<open>The unique index refuses a second open period of a profile.\<close>

definition start_period :: "string \<Rightarrow> instant \<Rightarrow> instant option \<Rightarrow> instant \<Rightarrow> string option \<Rightarrow> bool \<Rightarrow> db \<Rightarrow> (db \<times> quota_period_row) tx" where
  "start_period profile_id start end' now command lifted d =
     (let (i, d1) = draw d;
          q = \<lparr>qp_id = i, qp_profile = profile_id, qp_start = start, qp_end = end', qp_uplink = 0, qp_downlink = 0, qp_warned_at = None,
               qp_exhausted_at = None, qp_blocked = False, qp_opened_command = command, qp_closed_at = None, qp_close_reason = None, qp_closed_by = None\<rparr>;
          d2 = d1\<lparr>quota_periods := quota_periods d1 @ [q]\<rparr>
      in guard (open_period d1 profile_id = None \<and> i \<notin> qp_id ` set (quota_periods d1)) IntegrityError
         (res_bind (if lifted then notify_quota ''quota_reset'' profile_id i now [] d2 else Inr d2) (\<lambda>d3. Inr (d3, q))))"

definition ensure_anchor :: "string \<Rightarrow> instant \<Rightarrow> db \<Rightarrow> db \<times> instant" where
  "ensure_anchor profile_id now d = (case find (\<lambda>s. qs_profile s = profile_id) (quota_states d) of
     Some s \<Rightarrow> (d, qs_anchor_at s)
   | None \<Rightarrow> (d\<lparr>quota_states := quota_states d @ [\<lparr>qs_profile = profile_id, qs_anchor_at = now, qs_revision = 1\<rparr>]\<rparr>, now))"

definition usage_payload :: "quota_values \<Rightarrow> quota_period_row \<Rightarrow> (string \<times> pyval) list" where
  "usage_payload v q = [(''used_bytes'', PInt (used_bytes q)), (''limit_bytes'', PInt (qv_bytes v)),
     (''period_end'', case qp_end q of None \<Rightarrow> PNone | Some t \<Rightarrow> PInt t),
     (''used'', PStr (size_label (used_bytes q))), (''limit'', PStr (size_label (qv_bytes v)))]"

definition warn_period :: "string \<Rightarrow> quota_values \<Rightarrow> quota_period_row \<Rightarrow> instant \<Rightarrow> db \<Rightarrow> db tx" where
  "warn_period profile_id v q now d =
     (if used_bytes q \<ge> qv_bytes v * WARN_PERCENT div 100 \<and> qp_warned_at q = None then
        (let d1 = touch_period (qp_id q) (\<lambda>r. r\<lparr>qp_warned_at := Some now\<rparr>) d in
         if used_bytes q < qv_bytes v then notify_quota ''quota_warning'' profile_id (qp_id q) now (usage_payload v q @ [(''percent'', PInt WARN_PERCENT)]) d1
         else Inr d1)
      else Inr d)"

definition exhaust_period :: "string \<Rightarrow> quota_values \<Rightarrow> quota_period_row \<Rightarrow> instant \<Rightarrow> db \<Rightarrow> db tx" where
  "exhaust_period profile_id v q now d =
     (if used_bytes q \<ge> qv_bytes v \<and> qp_exhausted_at q = None then
        notify_quota ''quota_exhausted'' profile_id (qp_id q) now
          (usage_payload v q @ [(''suspended'', PBool (qv_on_exhausted v = ''freeze''))]
             @ (if qv_on_exhausted v = ''throttle'' then [(''throttled'', PInt (qv_throttle v))] else []))
          (touch_period (qp_id q) (\<lambda>r. r\<lparr>qp_exhausted_at := Some now\<rparr>) d)
      else Inr d)"

definition evaluate_period :: "string \<Rightarrow> quota_values \<Rightarrow> quota_period_row \<Rightarrow> instant \<Rightarrow> db \<Rightarrow> (db \<times> bool) tx" where
  "evaluate_period profile_id v q now d =
     res_bind (warn_period profile_id v q now d) (\<lambda>d1.
     res_bind (exhaust_period profile_id v q now d1) (\<lambda>d2.
       (let suspend = (used_bytes q \<ge> qv_bytes v \<and> qv_on_exhausted v = ''freeze'') in
        if suspend \<noteq> qp_blocked q then
          res_bind (change_access profile_id now (touch_period (qp_id q) (\<lambda>r. r\<lparr>qp_blocked := suspend\<rparr>) d2)) (\<lambda>e. Inr (e, True))
        else Inr (d2, False))))"

section \<open>The worker\<close>

definition candidates :: "db \<Rightarrow> string list" where
  "candidates d = sort (map pf_id (filter (\<lambda>p. pf_id p \<notin> set (profile_deletions d)
     \<and> ((\<exists>r \<in> set (policies d). vp_key r = ''quota.bytes'' \<and> (vp_subject r = Installation \<or> vp_profile r = Some (pf_id p)))
        \<or> (\<exists>q \<in> set (quota_periods d). is_open (pf_id p) q))) (profiles d)))"

definition renew_period :: "string \<Rightarrow> quota_values \<Rightarrow> instant \<Rightarrow> zone \<Rightarrow> instant \<Rightarrow> bool \<Rightarrow> db \<Rightarrow> (db \<times> bool) tx" where
  "renew_period profile_id v anchor tz now lifted d =
     res_bind (quota_period (qv_reset v) anchor (qv_interval v) tz now) (\<lambda>(start, end').
     res_bind (start_period profile_id start end' now None lifted d) (\<lambda>(d1, q).
     res_bind (evaluate_period profile_id v q now d1) (\<lambda>(e, changed). Inr (e, changed \<or> lifted))))"

definition period_over :: "quota_period_row \<Rightarrow> instant \<Rightarrow> bool" where
  "period_over q now = (case qp_end q of None \<Rightarrow> False | Some t \<Rightarrow> t \<le> now)"

definition advance :: "string \<Rightarrow> zone \<Rightarrow> instant \<Rightarrow> db \<Rightarrow> (db \<times> bool) tx" where
  "advance profile_id tz now d =
     res_bind (quota_settings d profile_id) (\<lambda>v.
       if qv_bytes v = 0 then
         (case open_period d profile_id of
            Some q \<Rightarrow> res_bind (close_period q ''quota_removed'' now None d) (\<lambda>e. Inr (e, qp_blocked q))
          | None \<Rightarrow> Inr (d, False))
       else
         (let (d1, anchor) = ensure_anchor profile_id now d in
          case open_period d profile_id of
            None \<Rightarrow> renew_period profile_id v anchor tz now False d1
          | Some q \<Rightarrow>
              if period_over q now then
                res_bind (close_period q ''period_end'' now None d1) (\<lambda>d2. renew_period profile_id v anchor tz now (qp_blocked q) d2)
              else evaluate_period profile_id v q now d1))"

definition advance_all :: "zone \<Rightarrow> instant \<Rightarrow> string list \<Rightarrow> db \<Rightarrow> (db \<times> nat) tx" where
  "advance_all tz now ps d = res_fold (\<lambda>p acc. res_bind (advance p tz now (fst acc)) (\<lambda>(e, c). Inr (e, snd acc + (if c then 1 else 0)))) ps (d, 0)"

definition scheduled_quotas :: "(string \<Rightarrow> zone tx) \<Rightarrow> instant \<Rightarrow> db \<Rightarrow> (db \<times> nat) tx" where
  "scheduled_quotas zones now d =
     (if paused d then Inr (d, 0) else res_bind (quota_zone zones d) (\<lambda>tz. advance_all tz now (candidates d) d))"

section \<open>Commands\<close>

definition quota_admin :: "actor \<Rightarrow> string \<Rightarrow> db \<Rightarrow> unit tx" where
  "quota_admin actor profile_id d =
     res_bind (require_permission actor ''profiles.manage'') (\<lambda>_.
     guard ((\<exists>p \<in> set (profiles d). pf_id p = profile_id) \<and> profile_id \<notin> set (profile_deletions d)) (AccessDenied ''resource_not_found'' 404) (Inr ()))"

record quota_overview =
  qo_values :: quota_values
  qo_throttled :: "int option"
  qo_state :: "quota_state_row option"
  qo_anchor_day :: "(int \<times> int \<times> int) option"
  qo_period :: "quota_period_row option"
  qo_history :: "quota_period_row list"

definition quota_overview_of :: "(string \<Rightarrow> zone tx) \<Rightarrow> db \<Rightarrow> string \<Rightarrow> quota_overview tx" where
  "quota_overview_of zones d profile_id =
     res_bind (quota_settings d profile_id) (\<lambda>v.
     res_bind (throttle d profile_id) (\<lambda>throttled.
     (let state = find (\<lambda>s. qs_profile s = profile_id) (quota_states d);
          history = take HISTORY (rev (order_by (\<lambda>q. (qp_start q, qp_id q))
            (filter (\<lambda>q. qp_profile q = profile_id \<and> qp_closed_at q \<noteq> None) (quota_periods d))))
      in res_bind (case state of
           None \<Rightarrow> Inr None
         | Some s \<Rightarrow> res_bind (quota_zone zones d) (\<lambda>tz. res_bind (to_local tz (qs_anchor_at s)) (\<lambda>w. Inr (Some (wall_date w))))) (\<lambda>anchor_day.
         Inr \<lparr>qo_values = v, qo_throttled = throttled, qo_state = state, qo_anchor_day = anchor_day,
              qo_period = open_period d profile_id, qo_history = history\<rparr>))))"

definition reset_quota :: "(string \<Rightarrow> zone tx) \<Rightarrow> actor \<Rightarrow> pyval \<Rightarrow> string \<Rightarrow> instant \<Rightarrow> db \<Rightarrow> (db \<times> quota_overview) tx" where
  "reset_quota zones actor command_key profile_id now d0 =
     (case (case command_key of PStr s \<Rightarrow> uuid_str s | _ \<Rightarrow> None) of
        None \<Rightarrow> Inl (AccessDenied ''invalid_idempotency_key'' 422)
      | Some key \<Rightarrow>
     res_bind (admit False d0) (\<lambda>d.
     res_bind (quota_admin actor profile_id d) (\<lambda>_.
     (case find (\<lambda>q. qp_opened_command q = Some key) (quota_periods d) of
        Some q \<Rightarrow> guard (qp_profile q = profile_id) (AccessDenied ''idempotency_conflict'' 409)
                    (res_bind (quota_overview_of zones d profile_id) (\<lambda>o'. Inr (d, o')))
      | None \<Rightarrow>
          res_bind (quota_settings d profile_id) (\<lambda>v.
          guard (qv_bytes v \<noteq> 0) (AccessDenied ''quota_not_set'' 409)
          (res_bind (case open_period d profile_id of None \<Rightarrow> Inr (d, False)
                     | Some q \<Rightarrow> res_bind (close_period q ''manual'' now (Some (ac_id (actor_account actor))) d) (\<lambda>e. Inr (e, qp_blocked q))) (\<lambda>(d1, lifted).
           (let (d2, anchor) = ensure_anchor profile_id now d1 in
            res_bind (quota_zone zones d2) (\<lambda>tz.
            res_bind (quota_period (qv_reset v) anchor (qv_interval v) tz now) (\<lambda>(_, end').
            res_bind (start_period profile_id now end' now (Some key) lifted d2) (\<lambda>(d3, _).
            res_bind (quota_overview_of zones d3 profile_id) (\<lambda>o'. Inr (d3, o')))))))))))))"

text \<open>The new anchor as \<open>fromisoformat\<close> reads it: an instant, or a plain date.\<close>

datatype anchor_input = BadAnchor | NaiveTime | AnchorDate int int int | AnchorAt instant

definition move_anchor :: "(string \<Rightarrow> zone tx) \<Rightarrow> actor \<Rightarrow> string \<Rightarrow> anchor_input \<Rightarrow> int \<Rightarrow> db \<Rightarrow> (db \<times> quota_overview) tx" where
  "move_anchor zones actor profile_id input revision d0 =
     res_bind (case input of
         BadAnchor \<Rightarrow> Inl (AccessDenied ''invalid_input'' 422)
       | NaiveTime \<Rightarrow> Inl (AccessDenied ''invalid_input'' 422)
       | AnchorDate y m d \<Rightarrow> res_bind (quota_zone zones d0) (\<lambda>tz. Inr (tz_utc tz (wall y m d 0)))
       | AnchorAt t \<Rightarrow> Inr t) (\<lambda>anchor.
     res_bind (admit False d0) (\<lambda>d.
     res_bind (quota_admin actor profile_id d) (\<lambda>_.
     (case find (\<lambda>s. qs_profile s = profile_id) (quota_states d) of
        None \<Rightarrow> Inl (AccessDenied ''quota_not_set'' 409)
      | Some s \<Rightarrow>
          guard (qs_revision s = revision) (AccessDenied ''revision_conflict'' 412)
          (res_bind (checked_utc anchor) (\<lambda>t.
           (let e = d\<lparr>quota_states := update_where (\<lambda>s. qs_profile s = profile_id)
                  (\<lambda>s. s\<lparr>qs_anchor_at := t, qs_revision := qs_revision s + 1\<rparr>) (quota_states d)\<rparr>
            in res_bind (quota_overview_of zones e profile_id) (\<lambda>o'. Inr (e, o')))))))))"

section \<open>A period contains the time it was computed for\<close>

lemma checked_utcD: "checked_utc t = Inr u \<Longrightarrow> u = t"
  by (simp add: checked_utc_def)

lemma bounds_utcD: "bounds_utc a b = Inr (s, e) \<Longrightarrow> \<exists>t. a = Inr s \<and> b = Inr t \<and> e = Some t"
  by (auto simp: bounds_utc_def res_bind_Inr_iff checked_utc_def)

lemma month_shift_valid: "month_shift y m c = (y', m') \<Longrightarrow> 1 \<le> m' \<and> m' \<le> 12"
  unfolding month_shift_def Let_def using pos_mod_bound [of 12 "y * 12 + m - 1 + c"] pos_mod_sign [of 12 "y * 12 + m - 1 + c"] by auto

lemma month_back_forth: "1 \<le> m \<Longrightarrow> m \<le> 12 \<Longrightarrow> month_shift y m (- 1) = (y', m') \<Longrightarrow> month_shift y' m' 1 = (y, m)"
  by (auto simp: month_prev month_next split: if_splits)

definition month_wall :: "int \<times> int \<Rightarrow> int" where
  "month_wall ym = (month_start ym - EPOCH_DAY) * day"

lemma month_contains:
  assumes "wall_date w = (y, m, d)"
  shows "1 \<le> m" "m \<le> 12" "1 \<le> d" "month_wall (y, m) \<le> w" "w < month_wall (month_shift y m 1)"
proof -
  note date = date_of_ok [OF assms [unfolded wall_date_def]]
  show m: "1 \<le> m" "m \<le> 12" and "1 \<le> d" using date by simp_all
  have lo: "month_start (y, m) \<le> wall_day w" using date by (simp add: month_start_def day_number_def)
  have hi: "wall_day w + 1 \<le> month_start (month_shift y m 1)"
    unfolding month_start_next [OF m] using date by (simp add: month_start_def day_number_def)
  have "(month_start (y, m) - EPOCH_DAY) * day \<le> (wall_day w - EPOCH_DAY) * day"
    by (rule mult_right_mono) (use lo less_imp_le [OF day_pos] in simp_all)
  then show "month_wall (y, m) \<le> w" using wall_split [of w] wall_time_bounds [of w] unfolding month_wall_def by linarith
  have "(wall_day w + 1 - EPOCH_DAY) * day \<le> (month_start (month_shift y m 1) - EPOCH_DAY) * day"
    by (rule mult_right_mono) (use hi less_imp_le [OF day_pos] in simp_all)
  then have "(wall_day w - EPOCH_DAY) * day + day \<le> month_wall (month_shift y m 1)" by (simp add: month_wall_def algebra_simps)
  then show "w < month_wall (month_shift y m 1)" using wall_split [of w] wall_time_bounds [of w] by linarith
qed

lemma wall_utcD: "wall_utc tz y m = Inr s \<Longrightarrow> s = tz_utc tz (month_wall (y, m))"
  by (auto simp: wall_utc_def mk_datetime_def wall_def month_wall_def month_start_def res_bind_Inr_iff)

lemma whole_seconds: "0 \<le> t \<Longrightarrow> t < day \<Longrightarrow> 0 \<le> t - t mod second \<and> t - t mod second < day"
proof -
  assume "0 \<le> t" "t < day"
  moreover have "t - t mod second = t div second * second" by (simp add: minus_mod_eq_div_mult)
  moreover have "0 \<le> t div second * second" using \<open>0 \<le> t\<close> by (simp add: second_def pos_imp_zdiv_nonneg_iff)
  moreover have "0 \<le> t mod second" by (simp add: second_def)
  ultimately show ?thesis by simp
qed

lemma on_day_month:
  assumes "1 \<le> m" "m \<le> 12" "1 \<le> d" "0 \<le> t" "t < day" and "on_day tz y m d t = Inr s"
  obtains w where "s = tz_utc tz w" "month_wall (y, m) \<le> w" "w < month_wall (month_shift y m 1)"
proof -
  let ?d = "min d (days_in_month y m)" and ?t = "t - t mod second"
  have t: "0 \<le> ?t" "?t < day" using whole_seconds [OF assms(4,5)] by simp_all
  have dim: "1 \<le> days_in_month y m"
  proof -
    have "\<forall>l \<in> set (month_lengths y). 1 \<le> l" "nat (m - 1) < length (month_lengths y)" using assms(1,2) by (auto simp: month_lengths_def)
    then show ?thesis unfolding days_in_month_def using nth_mem by blast
  qed
  let ?w = "month_wall (y, m) + (?d - 1) * day + ?t"
  have "wall y m ?d ?t = ?w" by (simp add: wall_def month_wall_def month_start_def day_number_def algebra_simps)
  then have s: "s = tz_utc tz ?w" using assms(6) by (auto simp: on_day_def mk_datetime_def res_bind_Inr_iff)
  have "0 \<le> (?d - 1) * day" using dim assms(3) less_imp_le [OF day_pos] by (intro mult_nonneg_nonneg) simp_all
  then have lo: "month_wall (y, m) \<le> ?w" using t by linarith
  have "(?d - 1) * day + day \<le> days_in_month y m * day"
    using mult_right_mono [of ?d "days_in_month y m" day] less_imp_le [OF day_pos] by (simp add: algebra_simps)
  moreover have "month_wall (month_shift y m 1) = month_wall (y, m) + days_in_month y m * day"
    using month_start_next [OF assms(1,2)] by (simp add: month_wall_def algebra_simps)
  ultimately have "?w < month_wall (month_shift y m 1)" using t by linarith
  with s lo show thesis by (rule that)
qed

lemma monthly_period_contains:
  assumes agrees: "agrees tz now" and date: "wall_date (tz_local tz now) = (y, m, d0)" and d: "1 \<le> d" and t: "0 \<le> t" "t < day"
    and p: "monthly_period tz y m d t now = Inr (s, Some e)"
  shows "s \<le> now \<and> now < e"
proof -
  note m = month_contains [OF date]
  obtain s0 where s0: "on_day tz y m d t = Inr s0" using p by (auto simp: monthly_period_def res_bind_Inr_iff)
  show ?thesis
  proof (cases "s0 > now")
    case True
    obtain y' m' where prev: "month_shift y m (- 1) = (y', m')" by (cases "month_shift y m (- 1)")
    note forth = month_back_forth [OF m(1,2) prev]
    from p True prev forth s0 have b: "bounds_utc (on_day tz y' m' d t) (Inr s0) = Inr (s, Some e)"
      by (simp add: monthly_period_def Let_def)
    then have s: "on_day tz y' m' d t = Inr s" and "e = s0" using bounds_utcD by fastforce+
    obtain w where "s = tz_utc tz w" "w < month_wall (y, m)"
      using on_day_month [OF _ _ d t s] month_shift_valid [OF prev] forth by metis
    with m(4) agrees \<open>e = s0\<close> True show ?thesis by (simp add: agrees_def)
  next
    case False
    obtain y2 m2 where nxt: "month_shift y m 1 = (y2, m2)" by (cases "month_shift y m 1")
    from p False nxt s0 have "bounds_utc (Inr s0) (on_day tz y2 m2 d t) = Inr (s, Some e)"
      by (simp add: monthly_period_def Let_def)
    then have "s = s0" and e: "on_day tz y2 m2 d t = Inr e" using bounds_utcD by fastforce+
    obtain w where w: "e = tz_utc tz w" "month_wall (y2, m2) \<le> w" using on_day_month [OF _ _ d t e] month_shift_valid [OF nxt] by metis
    then have "\<not> w \<le> tz_local tz now" using m(5) nxt by simp
    with agrees w(1) \<open>s = s0\<close> False show ?thesis by (simp add: agrees_def not_le [symmetric])
  qed
qed

lemma interval_period_contains:
  assumes "0 < n" and "interval_period tz base (tz_local tz now) n = Inr (s, Some e)" and agrees: "agrees tz now"
  shows "s \<le> now \<and> now < e"
proof -
  define step where "step = n * day"
  define count where "count = (tz_local tz now - base) div step"
  have "0 < step" using assms(1) by (simp add: step_def)
  then have c: "step * count \<le> tz_local tz now - base" "tz_local tz now - base < step * (count + 1)"
    using euclid_bounds [OF mult_div_mod_eq [of step "tz_local tz now - base"]] by (simp_all add: count_def)
  have "s = tz_utc tz (base + step * count)" "e = tz_utc tz (base + step * (count + 1))"
    using assms(2) unfolding interval_period_def Let_def step_def [symmetric] count_def [symmetric]
    by (auto simp: naive_def res_bind_Inr_iff dest!: bounds_utcD)
  moreover have "base + step * count \<le> tz_local tz now" "\<not> base + step * (count + 1) \<le> tz_local tz now" using c by linarith+
  ultimately show ?thesis using agrees unfolding agrees_def by (simp add: not_le [symmetric])
qed

text \<open>C20. The period computed for a moment contains it. With a reset, whatever the strategy, the anchor, the interval and the
  zone, the period starts at or before the moment and ends strictly after it, provided the zone agrees with UTC at that
  moment about what is past: always in a zone at a fixed offset, and in one with summer time except during the length of a
  change right after it (\<open>agrees_fixed\<close>, \<open>agrees_shift\<close>). The strategy \<open>none\<close> gives a period that starts at the anchor and has no end.\<close>

theorem quota_period_contains:
  assumes "0 < interval_days" and "quota_period strategy anchor interval_days tz now = Inr (s, bound)" and "agrees tz now"
  shows "if strategy = ''none'' then s = anchor \<and> bound = None else \<exists>e. bound = Some e \<and> s \<le> now \<and> now < e"
proof -
  let ?local = "tz_local tz now"
  obtain y m d where date: "wall_date ?local = (y, m, d)" by (cases "wall_date ?local")
  note month = month_contains [OF date]
  have loc: "to_local tz now = Inr ?local"
    using assms(2) by (auto simp: quota_period_def to_local_def res_bind_Inr_iff)
  note p = assms(2) [unfolded quota_period_def loc res_bind_simps Let_def date prod.case]
  consider (none) "strategy = ''none''" | (month) "strategy = ''calendar_month''" | (anchor) "strategy = ''monthly_anchor''"
    | (interval) "strategy = ''interval''" using p by (auto split: if_splits)
  then show ?thesis
  proof cases
    case none
    with p show ?thesis by simp
  next
    case month
    obtain y2 m2 where nxt: "month_shift y m 1 = (y2, m2)" by (cases "month_shift y m 1")
    from p month nxt have "bounds_utc (wall_utc tz y m) (wall_utc tz y2 m2) = Inr (s, bound)" by simp
    then obtain e where e: "wall_utc tz y m = Inr s" "wall_utc tz y2 m2 = Inr e" "bound = Some e"
      using bounds_utcD by blast
    have "month_wall (y, m) \<le> ?local" "\<not> month_wall (y2, m2) \<le> ?local" using month_contains(4,5) [OF date] nxt by simp_all
    then have "s \<le> now" "\<not> e \<le> now" using assms(3) wall_utcD [OF e(1)] wall_utcD [OF e(2)] by (simp_all add: agrees_def)
    then show ?thesis using e(3) month by simp
  next
    case anchor
    with p obtain a where a: "monthly_period tz y m (snd (snd (wall_date a))) (wall_time a) now = Inr (s, bound)"
      by (auto simp: res_bind_Inr_iff)
    then obtain e where "bound = Some e" by (auto simp: monthly_period_def Let_def res_bind_Inr_iff split: prod.splits if_splits dest!: bounds_utcD)
    moreover have "1 \<le> snd (snd (wall_date a))" using month_contains(3) [of a] by (cases "wall_date a") auto
    ultimately show ?thesis using monthly_period_contains [OF assms(3) date] wall_time_bounds [of a] a anchor by simp
  next
    case interval
    with p obtain base where b: "interval_period tz base ?local interval_days = Inr (s, bound)"
      by (auto simp: res_bind_Inr_iff)
    then obtain e where "bound = Some e" by (auto simp: interval_period_def Let_def dest!: bounds_utcD)
    with interval_period_contains [OF assms(1) _ assms(3)] b interval show ?thesis by simp
  qed
qed

text \<open>Right after clocks go back, a period may be over already. In Europe/Riga, whose clocks go back from three hours ahead of
  UTC to two at 01:00 UTC on 26 October 2025, a daily quota anchored at 00:30 UTC on the day before gives for 01:10 UTC the
  period that ended at 00:30 UTC.\<close>

definition riga :: zone where
  "riga = shift_zone (1761440400 * second) (10800 * second) (7200 * second)"

lemma period_over_after_change:
  "quota_period ''interval'' (1761352200 * second) 1 riga (1761441000 * second) = Inr (1761352200 * second, Some (1761438600 * second))"
proof -
  have eq: "r = Inr x" if "case r of Inr y \<Rightarrow> y = x | _ \<Rightarrow> False" for r :: "(instant \<times> instant option) tx" and x
    using that by (cases r) simp_all
  show ?thesis by (rule eq) code_simp
qed

section \<open>One open period, and the suspension it decides\<close>

definition quotas_wf :: "db \<Rightarrow> bool" where
  "quotas_wf d = (distinct (map qp_id (quota_periods d))
     \<and> (\<forall>q \<in> set (quota_periods d). \<forall>r \<in> set (quota_periods d). qp_closed_at q = None \<and> qp_closed_at r = None \<and> qp_profile q = qp_profile r \<longrightarrow> q = r))"

lemma quotas_wf_cong: "quota_periods e = quota_periods d \<Longrightarrow> quotas_wf e = quotas_wf d"
  by (simp add: quotas_wf_def)

lemma open_period_iff: "quotas_wf d \<Longrightarrow> open_period d p = Some q \<longleftrightarrow> q \<in> set (quota_periods d) \<and> is_open p q"
proof
  assume "open_period d p = Some q"
  then show "q \<in> set (quota_periods d) \<and> is_open p q" unfolding open_period_def by (rule find_Some_iff)
next
  assume wf: "quotas_wf d" and q: "q \<in> set (quota_periods d) \<and> is_open p q"
  then show "open_period d p = Some q" unfolding open_period_def
    by (intro find_unique) (auto simp: quotas_wf_def is_open_def)
qed

lemma blocked_iff: "quotas_wf d \<Longrightarrow> quota_blocked d p \<longleftrightarrow> (\<exists>q. open_period d p = Some q \<and> qp_blocked q)"
  by (auto simp: open_period_iff quota_blocked_def is_open_def)

lemma queue_periods: "queue kind p key now payload i x d = Inr e \<Longrightarrow> quota_periods e = quota_periods d"
  using queue_cases [of kind p key now payload i x d e] by auto

lemma notify_periods: "notify_quota kind p i now payload d = Inr e \<Longrightarrow> quota_periods e = quota_periods d"
  unfolding notify_quota_def by (rule queue_periods)

lemma change_access_periods: "change_access p now d = Inr e \<Longrightarrow> quota_periods e = quota_periods d"
  by (auto simp: change_access_def Let_def res_bind_Inr_iff bump_revision_def outbox_only_def split: option.splits dest!: record_operation_outbox)

text \<open>What evaluating a period may change of it.\<close>

definition marks :: "(quota_period_row \<Rightarrow> quota_period_row) \<Rightarrow> bool" where
  "marks f = (\<forall>r. qp_id (f r) = qp_id r \<and> qp_profile (f r) = qp_profile r \<and> qp_closed_at (f r) = qp_closed_at r \<and> used_bytes (f r) = used_bytes r
     \<and> qp_end (f r) = qp_end r)"

lemma marks_id: "marks (\<lambda>r. r)" by (simp add: marks_def)

lemma touch_touch: "update_where (\<lambda>r. qp_id r = i) g (update_where (\<lambda>r. qp_id r = i) f xs) = update_where (\<lambda>r. qp_id r = i) (\<lambda>r. g (f r)) xs"
  if "marks f"
  using that by (auto simp: update_where_def marks_def)

lemma touch_none: "update_where (\<lambda>r. qp_id r = i) (\<lambda>r. r) xs = xs"
  by (rule update_where_id) simp

lemma warn_marks:
  assumes "warn_period p v q now d = Inr e"
  shows "\<exists>f. marks f \<and> (\<forall>r. qp_blocked (f r) = qp_blocked r) \<and> quota_periods e = update_where (\<lambda>r. qp_id r = qp_id q) f (quota_periods d)"
proof (cases "used_bytes q \<ge> qv_bytes v * WARN_PERCENT div 100 \<and> qp_warned_at q = None")
  case True
  let ?f = "\<lambda>r. r\<lparr>qp_warned_at := Some now\<rparr>"
  have "quota_periods e = update_where (\<lambda>r. qp_id r = qp_id q) ?f (quota_periods d)"
    using assms True by (auto simp: warn_period_def Let_def touch_period_def split: if_splits dest!: notify_periods)
  then show ?thesis by (intro exI [of _ ?f]) (simp add: marks_def used_bytes_def)
next
  case False
  then have "quota_periods e = update_where (\<lambda>r. qp_id r = qp_id q) (\<lambda>r. r) (quota_periods d)"
    using assms by (auto simp: warn_period_def touch_none)
  then show ?thesis using marks_id by blast
qed

lemma exhaust_marks:
  assumes "exhaust_period p v q now d = Inr e"
  shows "\<exists>f. marks f \<and> (\<forall>r. qp_blocked (f r) = qp_blocked r) \<and> quota_periods e = update_where (\<lambda>r. qp_id r = qp_id q) f (quota_periods d)"
proof (cases "used_bytes q \<ge> qv_bytes v \<and> qp_exhausted_at q = None")
  case True
  let ?f = "\<lambda>r. r\<lparr>qp_exhausted_at := Some now\<rparr>"
  have "quota_periods e = update_where (\<lambda>r. qp_id r = qp_id q) ?f (quota_periods d)"
    using assms True by (auto simp: exhaust_period_def touch_period_def dest!: notify_periods)
  then show ?thesis by (intro exI [of _ ?f]) (simp add: marks_def used_bytes_def)
next
  case False
  then have "quota_periods e = update_where (\<lambda>r. qp_id r = qp_id q) (\<lambda>r. r) (quota_periods d)"
    using assms by (auto simp: exhaust_period_def touch_none)
  then show ?thesis using marks_id by blast
qed

definition suspends :: "quota_values \<Rightarrow> quota_period_row \<Rightarrow> bool" where
  "suspends v q = (used_bytes q \<ge> qv_bytes v \<and> qv_on_exhausted v = ''freeze'')"

lemma evaluate_marks:
  assumes "evaluate_period p v q now d = Inr (e, changed)"
  shows "changed = (suspends v q \<noteq> qp_blocked q)
     \<and> (\<exists>f. marks f \<and> (\<forall>r. qp_blocked (f r) = (if changed then suspends v q else qp_blocked r))
          \<and> quota_periods e = update_where (\<lambda>r. qp_id r = qp_id q) f (quota_periods d))"
proof -
  obtain d1 d2 where d1: "warn_period p v q now d = Inr d1" and d2: "exhaust_period p v q now d1 = Inr d2"
    and rest: "(if suspends v q \<noteq> qp_blocked q then res_bind (change_access p now (touch_period (qp_id q) (\<lambda>r. r\<lparr>qp_blocked := suspends v q\<rparr>) d2)) (\<lambda>e. Inr (e, True))
        else Inr (d2, False)) = (Inr (e, changed) :: (db \<times> bool) tx)"
    using assms unfolding evaluate_period_def suspends_def [symmetric] Let_def by (auto simp: res_bind_Inr_iff)
  obtain f where f: "marks f" "\<forall>r. qp_blocked (f r) = qp_blocked r" "quota_periods d1 = update_where (\<lambda>r. qp_id r = qp_id q) f (quota_periods d)"
    using warn_marks [OF d1] by blast
  obtain g where g: "marks g" "\<forall>r. qp_blocked (g r) = qp_blocked r" "quota_periods d2 = update_where (\<lambda>r. qp_id r = qp_id q) g (quota_periods d1)"
    using exhaust_marks [OF d2] by blast
  have gf: "marks (\<lambda>r. g (f r))" using f g by (simp add: marks_def)
  have p2: "quota_periods d2 = update_where (\<lambda>r. qp_id r = qp_id q) (\<lambda>r. g (f r)) (quota_periods d)"
    using g(3) f(3) touch_touch [OF f(1)] by simp
  show ?thesis
  proof (cases "suspends v q = qp_blocked q")
    case True
    with rest p2 gf f(2) g(2) show ?thesis by auto
  next
    case False
    let ?h = "\<lambda>r. (g (f r))\<lparr>qp_blocked := suspends v q\<rparr>"
    have "quota_periods e = quota_periods (touch_period (qp_id q) (\<lambda>r. r\<lparr>qp_blocked := suspends v q\<rparr>) d2)" "changed"
      using rest False by (auto simp: res_bind_Inr_iff dest!: change_access_periods)
    then have "quota_periods e = update_where (\<lambda>r. qp_id r = qp_id q) ?h (quota_periods d)"
      using touch_touch [OF gf] by (simp add: touch_period_def p2)
    moreover have "marks ?h" using gf by (simp add: marks_def used_bytes_def)
    ultimately show ?thesis using \<open>changed\<close> False by auto
  qed
qed

lemma marks_wf:
  assumes "marks f" and "quotas_wf d" and "quota_periods e = update_where (\<lambda>r. qp_id r = i) f (quota_periods d)"
  shows "quotas_wf e" "open_period e p = map_option (\<lambda>r. if qp_id r = i then f r else r) (open_period d p)"
proof -
  have ids: "map qp_id (quota_periods e) = map qp_id (quota_periods d)"
    using assms(1) by (simp add: assms(3) map_update_where marks_def)
  have "x = y" if "x \<in> set (quota_periods e)" "y \<in> set (quota_periods e)" "qp_closed_at x = None" "qp_closed_at y = None" "qp_profile x = qp_profile y" for x y
  proof -
    note xy = that
    obtain a b where ab: "a \<in> set (quota_periods d)" "b \<in> set (quota_periods d)" "x = (if qp_id a = i then f a else a)" "y = (if qp_id b = i then f b else b)"
      using xy(1,2) unfolding assms(3) set_update_where by auto
    with xy assms(1) have "qp_closed_at a = None" "qp_closed_at b = None" "qp_profile a = qp_profile b" by (auto simp: marks_def split: if_splits)
    with ab assms(2) have "a = b" by (auto simp: quotas_wf_def)
    with ab show ?thesis by simp
  qed
  then show "quotas_wf e" using assms(2) ids by (auto simp: quotas_wf_def)
  have "is_open p (f r) = is_open p r" for r using assms(1) by (simp add: is_open_def marks_def)
  then show "open_period e p = map_option (\<lambda>r. if qp_id r = i then f r else r) (open_period d p)"
    unfolding open_period_def assms(3) by (intro find_update_where)
qed

text \<open>Periods of other profiles are left alone.\<close>

definition other_periods :: "string \<Rightarrow> db \<Rightarrow> quota_period_row list" where
  "other_periods p d = filter (\<lambda>q. qp_profile q \<noteq> p) (quota_periods d)"

lemma other_update:
  "(\<And>r. P r \<Longrightarrow> r \<in> set xs \<Longrightarrow> qp_profile r = p) \<Longrightarrow> (\<And>r. qp_profile (f r) = qp_profile r)
   \<Longrightarrow> filter (\<lambda>q. qp_profile q \<noteq> p) (update_where P f xs) = filter (\<lambda>q. qp_profile q \<noteq> p) xs"
  by (induction xs) (auto simp: update_where_def)

lemma evaluate_ok:
  assumes wf: "quotas_wf d" and q: "open_period d p = Some q" and e: "evaluate_period p v q now d = Inr (e, changed)"
  shows "quotas_wf e \<and> other_periods p e = other_periods p d \<and> changed = (suspends v q \<noteq> qp_blocked q)
    \<and> (\<exists>q'. open_period e p = Some q' \<and> used_bytes q' = used_bytes q \<and> qp_end q' = qp_end q \<and> qp_blocked q' = suspends v q)"
proof -
  obtain f where c: "changed = (suspends v q \<noteq> qp_blocked q)" and f: "marks f" "\<forall>r. qp_blocked (f r) = (if changed then suspends v q else qp_blocked r)"
      "quota_periods e = update_where (\<lambda>r. qp_id r = qp_id q) f (quota_periods d)" using evaluate_marks [OF e] by blast
  have q': "open_period e p = Some (f q)" using marks_wf(2) [OF f(1) wf f(3), of p] q by simp
  have "qp_profile r = p" if "qp_id r = qp_id q" "r \<in> set (quota_periods d)" for r
    using that q wf distinct_keyD [of qp_id "quota_periods d" r q] by (auto simp: open_period_iff is_open_def quotas_wf_def)
  then have "other_periods p e = other_periods p d"
    unfolding other_periods_def f(3) using f(1) by (intro other_update) (auto simp: marks_def)
  with q' c f marks_wf(1) [OF f(1) wf f(3)] show ?thesis by (auto simp: marks_def)
qed

lemma close_ok:
  assumes wf: "quotas_wf d" and q: "open_period d p = Some q" and e: "close_period q reason now by' d = Inr e"
  shows "quotas_wf e \<and> open_period e p = None \<and> other_periods p e = other_periods p d"
proof -
  let ?f = "\<lambda>r. r\<lparr>qp_closed_at := Some now, qp_close_reason := Some reason, qp_closed_by := by', qp_blocked := False\<rparr>"
  have per: "quota_periods e = update_where (\<lambda>r. qp_id r = qp_id q \<and> qp_closed_at r = None) ?f (quota_periods d)"
    using e by (auto simp: close_period_def Let_def split: if_splits dest!: change_access_periods)
  have qd: "q \<in> set (quota_periods d)" "is_open p q" using q wf by (simp_all add: open_period_iff)
  have still: "r \<in> set (quota_periods e) \<Longrightarrow> qp_closed_at r = None \<Longrightarrow> r \<in> set (quota_periods d) \<and> r \<noteq> q" for r
    unfolding per using qd by (elim in_update_whereE) (auto simp: is_open_def)
  have "distinct (map qp_id (quota_periods e))" using wf unfolding per by (simp add: map_update_where quotas_wf_def)
  then have "quotas_wf e" using wf still unfolding quotas_wf_def by blast
  moreover have "\<not> is_open p r" if "r \<in> set (quota_periods e)" for r
    using still [OF that] qd wf unfolding is_open_def quotas_wf_def by blast
  then have "open_period e p = None" unfolding open_period_def find_None_iff' by blast
  moreover have "qp_profile r = p" if "qp_id r = qp_id q \<and> qp_closed_at r = None" "r \<in> set (quota_periods d)" for r
    using that qd wf distinct_keyD [of qp_id "quota_periods d" r q] by (auto simp: is_open_def quotas_wf_def)
  then have "other_periods p e = other_periods p d"
    unfolding other_periods_def per by (intro other_update) auto
  ultimately show ?thesis by blast
qed

lemma start_ok:
  assumes wf: "quotas_wf d" and e: "start_period p start end' now command lifted d = Inr (e, q)"
  shows "quotas_wf e \<and> open_period e p = Some q \<and> used_bytes q = 0 \<and> \<not> qp_blocked q \<and> qp_start q = start \<and> qp_end q = end'
    \<and> other_periods p e = other_periods p d"
proof -
  have per: "quota_periods e = quota_periods d @ [q]" and none: "open_period d p = None" "qp_id q \<notin> qp_id ` set (quota_periods d)"
    and q: "qp_profile q = p" "qp_closed_at q = None" "used_bytes q = 0" "\<not> qp_blocked q" "qp_start q = start" "qp_end q = end'"
    using e by (auto simp: start_period_def Let_def draw_def res_bind_Inr_iff open_period_def used_bytes_def split: if_splits dest!: notify_periods)
  have away: "r \<in> set (quota_periods d) \<Longrightarrow> qp_closed_at r = None \<Longrightarrow> qp_profile r \<noteq> p" for r
    using none(1) by (auto simp: open_period_def find_None_iff' is_open_def)
  have "distinct (map qp_id (quota_periods e))" using wf none(2) by (simp add: quotas_wf_def per)
  moreover have "x = y" if "x \<in> insert q (set (quota_periods d))" "y \<in> insert q (set (quota_periods d))"
      "qp_closed_at x = None \<and> qp_closed_at y = None \<and> qp_profile x = qp_profile y" for x y
    using that away q(1) wf unfolding quotas_wf_def by (metis insertE)
  ultimately have "quotas_wf e" by (simp add: quotas_wf_def per)
  moreover from this have "open_period e p = Some q" using q by (simp add: open_period_iff per is_open_def)
  ultimately show ?thesis using q by (simp add: other_periods_def per)
qed

lemma ensure_anchor_periods [simp]: "quota_periods (fst (ensure_anchor p now d)) = quota_periods d"
  by (simp add: ensure_anchor_def split: option.split)

lemma renew_ok:
  assumes wf: "quotas_wf d" and v: "0 < qv_bytes v" and e: "renew_period p v anchor tz now lifted d = Inr (e, changed)"
  shows "quotas_wf e \<and> other_periods p e = other_periods p d \<and> changed = lifted
    \<and> (\<exists>q. open_period e p = Some q \<and> used_bytes q = 0 \<and> \<not> qp_blocked q)"
proof -
  obtain b where "quota_period (qv_reset v) anchor (qv_interval v) tz now = Inr b"
    and e1: "res_bind (start_period p (fst b) (snd b) now None lifted d) (\<lambda>(d1, q). res_bind (evaluate_period p v q now d1) (\<lambda>(e, c). Inr (e, c \<or> lifted))) = Inr (e, changed)"
    using e unfolding renew_period_def res_bind_Inr_iff case_prod_unfold by blast
  then obtain d1 q where s: "start_period p (fst b) (snd b) now None lifted d = Inr (d1, q)"
    and e2: "res_bind (evaluate_period p v q now d1) (\<lambda>(e, c). Inr (e, c \<or> lifted)) = Inr (e, changed)"
    by (cases "start_period p (fst b) (snd b) now None lifted d") auto
  then obtain c where c: "evaluate_period p v q now d1 = Inr (e, c)" "changed = (c \<or> lifted)"
    by (cases "evaluate_period p v q now d1") auto
  note st = start_ok [OF wf s]
  have "\<not> suspends v q" using st v by (simp add: suspends_def)
  with st evaluate_ok [of d1 p q v now e c] c show ?thesis by auto
qed

text \<open>C21. One pass of the worker over a profile with valid settings leaves at most one open period, and decides its
  suspension exactly: afterwards the profile is suspended if and only if it has a quota, an exhausted quota suspends
  access, and the open period has used it up. The pass reports a change exactly when the suspension changed, and leaves
  the periods of every other profile alone.\<close>

theorem advance_decides:
  assumes wf: "quotas_wf d" and settings: "quota_settings d p = Inr v" "0 \<le> qv_bytes v" and a: "advance p tz now d = Inr (e, changed)"
  shows "quotas_wf e \<and> (changed \<longleftrightarrow> quota_blocked e p \<noteq> quota_blocked d p) \<and> other_periods p e = other_periods p d
    \<and> (quota_blocked e p \<longleftrightarrow> qv_bytes v \<noteq> 0 \<and> qv_on_exhausted v = ''freeze'' \<and> (\<exists>q. open_period e p = Some q \<and> qv_bytes v \<le> used_bytes q))"
proof (cases "qv_bytes v = 0")
  case True
  show ?thesis
  proof (cases "open_period d p")
    case None
    then show ?thesis using a settings True wf by (auto simp: advance_def blocked_iff)
  next
    case (Some q)
    then have "close_period q ''quota_removed'' now None d = Inr e" "changed = qp_blocked q"
      using a settings True by (auto simp: advance_def res_bind_Inr_iff)
    with close_ok [OF wf Some] Some True wf show ?thesis by (auto simp: blocked_iff)
  qed
next
  case False
  obtain d1 anchor where d1: "ensure_anchor p now d = (d1, anchor)" by (cases "ensure_anchor p now d")
  have per: "quota_periods d1 = quota_periods d" using ensure_anchor_periods [of p now d] d1 by simp
  then have wf1: "quotas_wf d1" and same: "open_period d1 p = open_period d p" "other_periods p d1 = other_periods p d"
    using wf by (simp_all add: quotas_wf_cong [OF per] open_period_def other_periods_def)
  have pos: "0 < qv_bytes v" using False settings(2) by simp
  consider (fresh) "open_period d p = None" "renew_period p v anchor tz now False d1 = Inr (e, changed)"
    | (over) q d2 where "open_period d p = Some q" "close_period q ''period_end'' now None d1 = Inr d2" "renew_period p v anchor tz now (qp_blocked q) d2 = Inr (e, changed)"
    | (running) q where "open_period d p = Some q" "evaluate_period p v q now d1 = Inr (e, changed)"
    using a settings False by (auto simp: advance_def d1 res_bind_Inr_iff split: option.splits if_splits)
  then show ?thesis
  proof cases
    case fresh
    with renew_ok [OF wf1 pos fresh(2)] wf same pos show ?thesis by (auto simp: blocked_iff)
  next
    case over
    note c = close_ok [OF wf1 over(1) [folded same(1)] over(2)]
    with renew_ok [OF _ pos over(3)] over(1) wf same pos show ?thesis by (auto simp: blocked_iff)
  next
    case running
    with evaluate_ok [OF wf1 running(1) [folded same(1)] running(2)] wf same False show ?thesis by (auto simp: blocked_iff suspends_def)
  qed
qed

section \<open>Passes over every profile\<close>

text \<open>What the effective settings depend on.\<close>

definition same_rules :: "db \<Rightarrow> db \<Rightarrow> bool" where
  "same_rules d e = (policies e = policies d \<and> tariffs e = tariffs d \<and> profile_tariffs e = profile_tariffs d)"

lemma same_rules_trans: "same_rules a b \<Longrightarrow> same_rules b c \<Longrightarrow> same_rules a c"
  by (simp add: same_rules_def)

lemma notify_rules: "notify_quota kind p i now payload d = Inr e \<Longrightarrow> same_rules d e"
  unfolding notify_quota_def by (drule queue_cases) (auto simp: same_rules_def)

lemma change_access_rules: "change_access p now d = Inr e \<Longrightarrow> same_rules d e"
  by (auto simp: change_access_def Let_def res_bind_Inr_iff bump_revision_def outbox_only_def same_rules_def split: option.splits dest!: record_operation_outbox)

lemma touch_rules [simp]: "same_rules (touch_period i f d) e = same_rules d e"
  by (simp add: same_rules_def touch_period_def)

lemma evaluate_rules: "evaluate_period p v q now d = Inr (e, c) \<Longrightarrow> same_rules d e"
proof -
  assume "evaluate_period p v q now d = Inr (e, c)"
  then obtain d1 d2 where d1: "warn_period p v q now d = Inr d1" and d2: "exhaust_period p v q now d1 = Inr d2"
    and rest: "e = d2 \<or> (\<exists>b. change_access p now (touch_period (qp_id q) (\<lambda>r. r\<lparr>qp_blocked := b\<rparr>) d2) = Inr e)"
    unfolding evaluate_period_def Let_def by (auto simp: res_bind_Inr_iff split: if_splits)
  have "same_rules d d1" using d1 by (auto simp: warn_period_def Let_def split: if_splits dest!: notify_rules) (simp_all add: same_rules_def touch_period_def)
  moreover have "same_rules d1 d2" using d2 by (auto simp: exhaust_period_def split: if_splits dest!: notify_rules) (simp_all add: same_rules_def)
  moreover have "same_rules d2 e" using rest by (auto dest!: change_access_rules) (simp add: same_rules_def)
  ultimately show ?thesis using same_rules_trans by blast
qed

lemma close_rules: "close_period q reason now by' d = Inr e \<Longrightarrow> same_rules d e"
  by (auto simp: close_period_def Let_def split: if_splits dest!: change_access_rules) (simp_all add: same_rules_def)

lemma renew_others:
  assumes wf: "quotas_wf d" and e: "renew_period p v anchor tz now lifted d = Inr (e, changed)"
  shows "quotas_wf e \<and> other_periods p e = other_periods p d \<and> same_rules d e"
proof -
  obtain b d1 q c where s: "start_period p (fst b) (snd b) now None lifted d = Inr (d1, q)" and c: "evaluate_period p v q now d1 = Inr (e, c)"
    using e unfolding renew_period_def by (fastforce simp: res_bind_Inr_iff case_prod_unfold)
  have "same_rules d d1" using s by (auto simp: start_period_def Let_def draw_def res_bind_Inr_iff split: if_splits dest!: notify_rules) (simp_all add: same_rules_def)
  then show ?thesis using start_ok [OF wf s] evaluate_ok [OF _ _ c] evaluate_rules [OF c] same_rules_trans by metis
qed

text \<open>A pass over a profile leaves the settings and the periods of the others alone.\<close>

lemma advance_others:
  assumes wf: "quotas_wf d" and a: "advance p tz now d = Inr (e, changed)"
  shows "quotas_wf e \<and> other_periods p e = other_periods p d \<and> same_rules d e"
proof -
  obtain d1 anchor where d1: "ensure_anchor p now d = (d1, anchor)" by (cases "ensure_anchor p now d")
  have per: "quota_periods d1 = quota_periods d" using ensure_anchor_periods [of p now d] d1 by simp
  have rules: "same_rules d d1" using d1 by (auto simp: ensure_anchor_def same_rules_def split: option.splits)
  have wf1: "quotas_wf d1" and same: "open_period d1 p = open_period d p" "other_periods p d1 = other_periods p d"
    using wf by (simp_all add: quotas_wf_cong [OF per] open_period_def other_periods_def per)
  consider (idle) "e = d" | (removed) q where "open_period d p = Some q" "close_period q ''quota_removed'' now None d = Inr e"
    | (fresh) v where "renew_period p v anchor tz now False d1 = Inr (e, changed)"
    | (over) v q d2 where "open_period d p = Some q" "close_period q ''period_end'' now None d1 = Inr d2" "renew_period p v anchor tz now (qp_blocked q) d2 = Inr (e, changed)"
    | (running) v q where "open_period d p = Some q" "evaluate_period p v q now d1 = Inr (e, changed)"
    using a by (auto simp: advance_def d1 res_bind_Inr_iff split: option.splits if_splits)
  then show ?thesis
  proof cases
    case idle
    then show ?thesis using wf by (simp add: same_rules_def)
  next
    case removed
    then show ?thesis using close_ok [OF wf removed] close_rules [OF removed(2)] by simp
  next
    case fresh
    then show ?thesis using renew_others [OF wf1 fresh] same rules same_rules_trans by metis
  next
    case over
    note c = close_ok [OF wf1 over(1) [folded same(1)] over(2)]
    show ?thesis using renew_others [OF _ over(3)] c same rules close_rules [OF over(2)] same_rules_trans by metis
  next
    case running
    then show ?thesis using evaluate_ok [OF wf1 running(1) [folded same(1)] running(2)] same rules evaluate_rules [OF running(2)] same_rules_trans by metis
  qed
qed

lemma other_periods_open: "other_periods q e = other_periods q d \<Longrightarrow> p \<noteq> q \<Longrightarrow> open_period e p = open_period d p"
proof -
  assume o: "other_periods q e = other_periods q d" and pq: "p \<noteq> q"
  have "find (is_open p) (filter (\<lambda>r. qp_profile r \<noteq> q) rs) = find (is_open p) rs" for rs
    using pq by (induction rs) (auto simp: is_open_def)
  then show ?thesis using o by (metis open_period_def other_periods_def)
qed

lemma advance_all_others:
  assumes "quotas_wf d" and "p \<notin> set ps" and "advance_all tz now ps d = Inr (e, n)"
  shows "quotas_wf e \<and> open_period e p = open_period d p \<and> same_rules d e"
proof -
  let ?f = "\<lambda>p acc. res_bind (advance p tz now (fst acc)) (\<lambda>(e, c). Inr (e, snd acc + (if c then 1 else 0)))"
  have "quotas_wf (fst acc) \<Longrightarrow> p \<notin> set ps \<Longrightarrow> res_fold ?f ps acc = Inr (e, n) \<Longrightarrow> quotas_wf e \<and> open_period e p = open_period (fst acc) p \<and> same_rules (fst acc) e" for acc
  proof (induction ps arbitrary: acc)
    case Nil
    then show ?case by (auto simp: same_rules_def)
  next
    case (Cons q ps)
    obtain d1 c where a: "advance q tz now (fst acc) = Inr (d1, c)" and r: "res_fold ?f ps (d1, snd acc + (if c then 1 else 0)) = Inr (e, n)"
      using Cons.prems(3) by (cases "advance q tz now (fst acc)") auto
    note o = advance_others [OF Cons.prems(1) a]
    have "quotas_wf e \<and> open_period e p = open_period d1 p \<and> same_rules d1 e" using Cons.IH [OF _ _ r] o Cons.prems(2) by simp
    then show ?case using o other_periods_open [of q d1 "fst acc" p] Cons.prems(2) same_rules_trans by auto
  qed
  from this [of "(d, 0)"] show ?thesis using assms by (simp add: advance_all_def)
qed

text \<open>Passes of the worker at some times.\<close>

definition quota_passes :: "(string \<Rightarrow> zone tx) \<Rightarrow> instant list \<Rightarrow> db \<Rightarrow> db tx" where
  "quota_passes zones ts d = res_fold (\<lambda>t d. res_bind (scheduled_quotas zones t d) (\<lambda>r. Inr (fst r))) ts d"

definition no_quota_row :: "db \<Rightarrow> string \<Rightarrow> bool" where
  "no_quota_row d p = (\<forall>r \<in> set (policies d). vp_key r = ''quota.bytes'' \<longrightarrow>
     vp_subject r \<noteq> Installation \<and> \<not> of_subject ProfileSubject (Some p) r \<and> vp_profile r \<noteq> Some p)"

lemma scheduled_others:
  assumes "quotas_wf d" and "no_quota_row d p" and "open_period d p = None" and "scheduled_quotas zones now d = Inr (e, n)"
  shows "quotas_wf e \<and> open_period e p = None \<and> same_rules d e"
proof (cases "paused d")
  case True
  then show ?thesis using assms by (simp add: scheduled_quotas_def same_rules_def)
next
  case False
  then obtain tz where "advance_all tz now (candidates d) d = Inr (e, n)" using assms(4) by (auto simp: scheduled_quotas_def res_bind_Inr_iff)
  moreover have "p \<notin> set (candidates d)" using assms(2,3) by (auto simp: candidates_def no_quota_row_def open_period_def find_None_iff')
  ultimately show ?thesis using advance_all_others [OF assms(1)] assms(3) by metis
qed

lemma quota_settings_same: "same_rules d e \<Longrightarrow> quota_settings e p = quota_settings d p"
proof -
  assume s: "same_rules d e"
  have eq: "policies e = policies d" "tariffs e = tariffs d" "profile_tariffs e = profile_tariffs d" using s by (simp_all add: same_rules_def)
  have "apply_layer e = apply_layer d" "resolve_target e (no_target\<lparr>tg_profile := Some p\<rparr>) = resolve_target d (no_target\<lparr>tg_profile := Some p\<rparr>)"
    unfolding fun_eq_iff apply_layer_def resolve_target_def profile_values_def profile_tariff_def subject_rows_def no_target_def eq by simp_all
  then show ?thesis by (simp add: quota_settings_def effective_def)
qed

lemma tariff_quota_set:
  assumes inv: "tariffs_inv z d" "policy_inv z d" and t: "profile_tariff d p = Some t" "map_of (tf_policies t) ''quota.bytes'' = Some (PInt n)"
    and own: "no_quota_row d p"
  shows "\<exists>v. quota_settings d p = Inr v \<and> qv_bytes v = n"
proof -
  let ?tg = "no_target\<lparr>tg_profile := Some p\<rparr>"
  have tg: "resolve_target d ?tg = Inr ?tg" by (simp add: resolve_target_def no_target_def)
  have "list_all (\<lambda>k. registered k \<noteq> None) QUOTA_KEYS" by code_simp
  then obtain vs where e: "effective d ?tg (Some QUOTA_KEYS) = Inr vs" by (auto simp: effective_def tg list_all_iff)
  have "own_value d ?tg ProfileSubject (Some p) ''quota.bytes'' sc = None" for sc
    using own by (auto simp: own_value_def find_None_iff' no_quota_row_def)
  then have "resolved_value d ?tg ''quota.bytes'' = PInt n" using tariff_layer_effective [OF t] by simp
  moreover have "''quota.bytes'' \<in> set QUOTA_KEYS" by code_simp
  ultimately have "map_of vs ''quota.bytes'' = Some (PInt n)" using effective_value [OF tariffs_inv_policies_wf [OF inv] tg e, of "''quota.bytes''"] by simp
  then show ?thesis by (simp add: quota_settings_def e quota_values_of_def int_of_def)
qed

text \<open>C36. The worker passes over a quota that only a tariff sets. Let the tariff of a profile hold a quota, and let neither
  the installation nor the profile have a \<open>quota.bytes\<close> policy of its own. The tariff's quota is then the one in effect; yet as
  long as no period has been opened for the profile by hand, no number of passes, at whatever times and whatever they do for
  other profiles, opens one: the profile's traffic is not counted, and it is never suspended or throttled.\<close>

theorem tariff_quota_ignored:
  assumes "tariffs_inv z d" and "policy_inv z d" and "quotas_wf d"
    and t: "profile_tariff d p = Some t" "map_of (tf_policies t) ''quota.bytes'' = Some (PInt n)"
    and "no_quota_row d p" and "open_period d p = None" and "quota_passes zones ts d = Inr e"
  shows "(\<exists>v. quota_settings e p = Inr v \<and> qv_bytes v = n) \<and> open_period e p = None \<and> \<not> quota_blocked e p \<and> throttle e p = Inr None"
proof -
  have "quotas_wf e \<and> open_period e p = None \<and> same_rules d e"
    using assms(3,6,7,8)
  proof (induction ts arbitrary: d)
    case Nil
    then show ?case by (simp add: quota_passes_def same_rules_def)
  next
    case (Cons now ts)
    then obtain d1 k where s: "scheduled_quotas zones now d = Inr (d1, k)" and r: "quota_passes zones ts d1 = Inr e"
      by (auto simp: quota_passes_def res_bind_Inr_iff)
    note o = scheduled_others [OF Cons.prems(1-3) s]
    have "no_quota_row d1 p" using o Cons.prems(2) by (simp add: no_quota_row_def same_rules_def)
    then have "quotas_wf e \<and> open_period e p = None \<and> same_rules d1 e" using Cons.IH [OF _ _ _ r] o by simp
    then show ?case using o same_rules_trans [of d d1 e] by simp
  qed
  then have wf: "quotas_wf e" and none: "open_period e p = None" and rules: "same_rules d e" by simp_all
  obtain v where v: "quota_settings d p = Inr v" "qv_bytes v = n" using tariff_quota_set [OF assms(1,2) t] assms(6) by blast
  have "quota_settings e p = quota_settings d p" by (rule quota_settings_same [OF rules])
  then show ?thesis using v none wf by (simp add: blocked_iff throttle_def)
qed

section \<open>Witnesses\<close>

text \<open>In Riga, an hour after its clocks went back.\<close>

theorem quota_period_contains_witness:
  "\<exists>s e. quota_period ''interval'' (1761352200 * second) 1 riga (1761444000 * second) = Inr (s, Some e) \<and> s \<le> 1761444000 * second \<and> 1761444000 * second < e"
proof -
  define r where "r = quota_period ''interval'' (1761352200 * second) 1 riga (1761444000 * second)"
  have "is_ok r" unfolding r_def by code_simp
  then obtain s b where r: "r = Inr (s, b)" by (auto simp: is_ok_iff)
  have "agrees riga (1761444000 * second)" unfolding riga_def by (rule agrees_shift) (simp add: second_def)
  then have "\<exists>e. b = Some e \<and> s \<le> 1761444000 * second \<and> 1761444000 * second < e"
    using quota_period_contains [OF _ r [unfolded r_def]] by simp
  with r [unfolded r_def] show ?thesis by blast
qed

definition quota_policy_row :: policy_row where
  "quota_policy_row = \<lparr>vp_id = ''y'', vp_subject = ProfileSubject, vp_profile = Some ''p1'', vp_device = None, vp_node = None,
     vp_protocol = None, vp_key = ''quota.bytes'', vp_value = PInt 100, vp_revision = 1, vp_updated_at = 0\<rparr>"

definition quota_db :: db where
  "quota_db = owned_db\<lparr>policies := [quota_policy_row], quota_states := [\<lparr>qs_profile = ''p1'', qs_anchor_at = 0, qs_revision = 1\<rparr>],
     quota_periods := [\<lparr>qp_id = ''q'', qp_profile = ''p1'', qp_start = 0, qp_end = Some (31 * day), qp_uplink = 90, qp_downlink = 30, qp_warned_at = None,
        qp_exhausted_at = None, qp_blocked = False, qp_opened_command = None, qp_closed_at = None, qp_close_reason = None, qp_closed_by = None\<rparr>]\<rparr>"

theorem advance_decides_witness:
  "\<exists>e. advance ''p1'' (fixed_zone 0) day quota_db = Inr (e, True) \<and> quota_blocked e ''p1'' \<and> \<not> quota_blocked quota_db ''p1''"
proof -
  define r where "r = advance ''p1'' (fixed_zone 0) day quota_db"
  have "is_ok r" "snd (projr r)" unfolding r_def by code_simp+
  then obtain e where r: "r = Inr (e, True)" by (cases r) auto
  have "quotas_wf quota_db" "is_ok (quota_settings quota_db ''p1'')" "0 \<le> qv_bytes (projr (quota_settings quota_db ''p1''))"
    "\<not> quota_blocked quota_db ''p1''" by code_simp+
  with advance_decides [OF this(1) is_ok_projr this(3) r [unfolded r_def]] r [unfolded r_def] show ?thesis by blast
qed

definition tariff_quota_db :: db where
  "tariff_quota_db = (fst (projr assigned))\<lparr>tariffs := map (\<lambda>t. t\<lparr>tf_policies := [(''quota.bytes'', PInt 100)]\<rparr>) (tariffs (fst (projr assigned)))\<rparr>"

theorem tariff_quota_ignored_witness:
  "\<exists>e v. quota_passes (\<lambda>_. Inr (fixed_zone 0)) [7, 40 * day] tariff_quota_db = Inr e \<and> quota_settings e ''p1'' = Inr v \<and> qv_bytes v = 100 \<and> open_period e ''p1'' = None"
proof -
  define r where "r = quota_passes (\<lambda>_. Inr (fixed_zone 0)) [7, 40 * day] tariff_quota_db"
  define t where "t = profile_tariff tariff_quota_db ''p1''"
  have "is_ok r" "t \<noteq> None" "map_of (tf_policies (the t)) ''quota.bytes'' = Some (PInt 100)" unfolding r_def t_def by code_simp+
  then obtain e tt where e: "r = Inr e" and tt: "t = Some tt" "map_of (tf_policies tt) ''quota.bytes'' = Some (PInt 100)" by (auto simp: is_ok_iff)
  have "tariffs_inv (\<lambda>z. False) tariff_quota_db" "policy_inv (\<lambda>z. False) tariff_quota_db" "quotas_wf tariff_quota_db"
    "no_quota_row tariff_quota_db ''p1''" "open_period tariff_quota_db ''p1'' = None" by code_simp+
  from tariff_quota_ignored [OF this(1-3) tt [unfolded t_def] this(4,5) e [unfolded r_def]] e show ?thesis unfolding r_def by blast
qed

end
