(* ===== verification/Speed_Limits.thy ===== *)
theory Speed_Limits
  imports Node_Snapshots Quotas
begin

text \<open>
  \<^verbatim>\<open>app/backend/speed_limits.py\<close>: the speed limits of every device on a node, capped while a used-up quota throttles the
  profile, and their delivery to the agents as an instance of \<open>snapshot_delivery\<close>.
\<close>

section \<open>What snapshots are computed from\<close>

definition same_inputs :: "db \<Rightarrow> db \<Rightarrow> bool" where
  "same_inputs d e = (policies e = policies d \<and> tariffs e = tariffs d \<and> profile_tariffs e = profile_tariffs d \<and> devices e = devices d
     \<and> device_credentials e = device_credentials d \<and> profiles e = profiles d \<and> grants e = grants d \<and> quota_periods e = quota_periods d
     \<and> accounts e = accounts d \<and> profile_deletions e = profile_deletions d \<and> retired_peers e = retired_peers d)"

lemma same_inputsD:
  assumes "same_inputs d e"
  shows "policies e = policies d" "tariffs e = tariffs d" "profile_tariffs e = profile_tariffs d" "devices e = devices d"
    "device_credentials e = device_credentials d" "profiles e = profiles d" "grants e = grants d" "quota_periods e = quota_periods d"
    "accounts e = accounts d" "profile_deletions e = profile_deletions d" "retired_peers e = retired_peers d"
  using assms by (simp_all add: same_inputs_def)

lemma effective_same: "same_inputs d e \<Longrightarrow> effective e tg keys = effective d tg keys"
proof -
  assume s: "same_inputs d e"
  have "apply_layer e = apply_layer d" "resolve_target e tg = resolve_target d tg"
    unfolding fun_eq_iff apply_layer_def resolve_target_def profile_values_def profile_tariff_def subject_rows_def same_inputsD [OF s] by simp_all
  then show ?thesis by (simp add: effective_def)
qed

lemma active_devices_same: "same_inputs d e \<Longrightarrow> active_devices e = active_devices d"
proof -
  assume s: "same_inputs d e"
  have eq: "serves e = serves d" "device_names e = device_names d"
    unfolding fun_eq_iff serves_def device_names_def quota_blocked_def owner_approved_def same_inputsD [OF s] by simp_all
  show ?thesis unfolding fun_eq_iff active_devices_def eq same_inputsD [OF s] by simp
qed

lemma throttle_same: "same_inputs d e \<Longrightarrow> throttle e p = throttle d p"
  using effective_same [of d e] by (simp add: throttle_def quota_settings_def open_period_def same_inputsD)

lemma put_rows_same [simp]: "same_inputs d (put_rows t rs d)"
  by (cases t) (simp_all add: same_inputs_def put_rows_def)

definition device_settings :: "db \<Rightarrow> string \<Rightarrow> string \<Rightarrow> protocol \<Rightarrow> string list \<Rightarrow> (string \<times> pyval) list tx" where
  "device_settings d device_id node_key protocol keys =
     effective d (no_target\<lparr>tg_device := Some device_id, tg_node := Some node_key, tg_protocol := Some protocol\<rparr>) (Some keys)"

section \<open>Snapshots\<close>

definition SPEED_INTERVAL :: int where "SPEED_INTERVAL = 60 * second"
definition SPEED_KEYS :: "string list" where "SPEED_KEYS = [''speed.up_kbit'', ''speed.down_kbit'']"
definition SPEED_LAST_SYNC :: string where "SPEED_LAST_SYNC = ''speed_limits_last_sync''"

record rate_client =
  rt_protocol :: protocol
  rt_name :: string
  rt_up :: int
  rt_down :: int

text \<open>An own limit under a throttle; no limit and no throttle are 0.\<close>

definition capped :: "int \<Rightarrow> int \<Rightarrow> int" where
  "capped own limit = (if limit = 0 then own else min (if own = 0 then limit else own) limit)"

definition client_names :: "db \<Rightarrow> protocol \<Rightarrow> active_device \<Rightarrow> string list" where
  "client_names d protocol r = ad_name r # (case protocol of
     Awg \<Rightarrow> sort (map rp_runtime_name (filter (\<lambda>p. rp_device p = ad_device r \<and> rp_protocol p = Awg) (retired_peers d)))
   | Xray \<Rightarrow> [])"

definition rate_clients :: "db \<Rightarrow> string \<Rightarrow> protocol \<Rightarrow> active_device \<Rightarrow> rate_client list tx" where
  "rate_clients d node_key protocol r =
     res_bind (device_settings d (ad_device r) node_key protocol SPEED_KEYS) (\<lambda>vs.
     res_bind (throttle d (ad_profile r)) (\<lambda>throttled.
       (let limit = (case throttled of None \<Rightarrow> 0 | Some k \<Rightarrow> k);
            up = capped (int_of (map_of vs ''speed.up_kbit'')) limit;
            down = capped (int_of (map_of vs ''speed.down_kbit'')) limit
        in Inr (if up = 0 \<and> down = 0 then []
                else map (\<lambda>name. \<lparr>rt_protocol = protocol, rt_name = name, rt_up = up, rt_down = down\<rparr>) (client_names d protocol r)))))"

definition res_concat_map :: "('a \<Rightarrow> 'b list tx) \<Rightarrow> 'a list \<Rightarrow> 'b list tx" where
  "res_concat_map f xs = res_bind (res_map f xs) (\<lambda>ys. Inr (concat ys))"

definition rate_snapshot :: "db \<Rightarrow> string \<Rightarrow> protocol list \<Rightarrow> instant \<Rightarrow> rate_client list tx" where
  "rate_snapshot d node_key protocols now =
     res_concat_map (\<lambda>p. res_concat_map (rate_clients d node_key p) (active_devices d node_key p now))
       (filter (\<lambda>p. p \<in> set protocols) [Awg, Xray])"

definition node_rates :: "instant \<Rightarrow> db \<Rightarrow> node_row \<Rightarrow> rate_client list tx" where
  "node_rates now d n = rate_snapshot d (nd_key n) (nd_protocols n) now"

text \<open>What the agent checks before it takes a snapshot (\<^verbatim>\<open>rust/node-agent/src/shaping/mod.rs\<close>).\<close>

definition MAX_KBIT :: int where "MAX_KBIT = 100000000"

definition valid_peer :: "string \<Rightarrow> bool" where
  "valid_peer name = (name \<noteq> [] \<and> length name \<le> 128
     \<and> list_all (\<lambda>c. ascii_alpha c \<or> ascii_digit c \<or> c \<in> {CHR ''.'', CHR ''_'', CHR ''-''}) name)"

definition rate_valid :: "rate_client \<Rightarrow> bool" where
  "rate_valid c = ((case rt_protocol c of Xray \<Rightarrow> valid_email (rt_name c) | Awg \<Rightarrow> valid_peer (rt_name c))
     \<and> 0 \<le> rt_up c \<and> rt_up c \<le> MAX_KBIT \<and> 0 \<le> rt_down c \<and> rt_down c \<le> MAX_KBIT \<and> \<not> (rt_up c = 0 \<and> rt_down c = 0))"

definition rates_valid :: "rate_client list \<Rightarrow> bool" where
  "rates_valid clients = (list_all rate_valid clients \<and> distinct (map (\<lambda>c. (rt_protocol c, rt_name c)) clients))"

section \<open>Delivery\<close>

definition speed_plan :: "(rate_client list \<Rightarrow> string) \<Rightarrow> instant \<Rightarrow> db \<Rightarrow> (db \<times> rate_client send list) tx" where
  "speed_plan digest now d = plan digest ShapingTable (node_rates now) d"

definition speed_sync ::
  "(rate_client list \<Rightarrow> string) \<Rightarrow> (rate_client, 'w) driver \<Rightarrow> instant \<Rightarrow> 'w \<times> db \<Rightarrow> (('w \<times> db) \<times> rate_client send list) tx"
where
  "speed_sync digest driver now wd = sync digest ShapingTable (node_rates now) driver (\<lambda>_ d. d) now wd"

record delivery_view =
  dw_node :: string
  dw_title :: string
  dw_status :: delivery_status
  dw_revision :: int
  dw_applied :: int
  dw_checked_at :: "instant option"
  dw_protocols :: "(protocol \<times> string) list"

definition delivery_views :: "snapshot_table \<Rightarrow> db \<Rightarrow> delivery_view list" where
  "delivery_views t d = order_by (\<lambda>v. (dw_title v, dw_node v)) (concat (map (\<lambda>s. map (\<lambda>n.
     \<lparr>dw_node = sn_node s, dw_title = nd_title n, dw_status = sn_status s, dw_revision = sn_revision s,
      dw_applied = sn_applied_revision s, dw_checked_at = sn_checked_at s, dw_protocols = sn_outcomes s\<rparr>)
     (filter (\<lambda>n. nd_key n = sn_node s) (nodes d))) (table_rows t d)))"

definition speed_delivery :: "actor \<Rightarrow> db \<Rightarrow> delivery_view list tx" where
  "speed_delivery actor d = res_bind (require_permission actor ''settings.manage'') (\<lambda>_. Inr (delivery_views ShapingTable d))"

text \<open>Whether a pass is due; the setting holds the time of the last one.\<close>

definition sync_due :: "string \<Rightarrow> int \<Rightarrow> instant \<Rightarrow> db \<Rightarrow> bool" where
  "sync_due key interval now d = (case map_of (settings d) key of Some (PInt t) \<Rightarrow> \<not> t > now - interval | _ \<Rightarrow> True)"

definition scheduled_sync ::
  "string \<Rightarrow> int \<Rightarrow> ('w \<times> db \<Rightarrow> (('w \<times> db) \<times> 'c send list) tx) \<Rightarrow> instant \<Rightarrow> 'w \<times> db \<Rightarrow> (('w \<times> db) \<times> bool) tx"
where
  "scheduled_sync key interval run now wd =
     (if \<not> sync_due key interval now (snd wd) then Inr (wd, False)
      else res_bind (run (fst wd, (snd wd)\<lparr>settings := dict_set key (PInt now) (settings (snd wd))\<rparr>)) (\<lambda>r. Inr (fst r, True)))"

definition scheduled_speed ::
  "(rate_client list \<Rightarrow> string) \<Rightarrow> (rate_client, 'w) driver \<Rightarrow> instant \<Rightarrow> 'w \<times> db \<Rightarrow> (('w \<times> db) \<times> bool) tx"
where
  "scheduled_speed digest driver now wd = scheduled_sync SPEED_LAST_SYNC SPEED_INTERVAL (speed_sync digest driver now) now wd"

section \<open>The delivery laws\<close>

lemma res_concat_map_cong: "(\<And>x. x \<in> set xs \<Longrightarrow> f x = g x) \<Longrightarrow> res_concat_map f xs = res_concat_map g xs"
proof -
  assume eq: "\<And>x. x \<in> set xs \<Longrightarrow> f x = g x"
  have "res_map f ys = res_map g ys" if "set ys \<subseteq> set xs" for ys using that by (induction ys) (auto simp: eq)
  then show ?thesis by (simp add: res_concat_map_def)
qed

lemma node_rates_same: "same_inputs d e \<Longrightarrow> node_rates now e n = node_rates now d n"
proof -
  assume s: "same_inputs d e"
  have eq: "client_names e = client_names d" unfolding fun_eq_iff client_names_def same_inputsD [OF s] by simp
  have "rate_clients e = rate_clients d"
    unfolding fun_eq_iff rate_clients_def device_settings_def effective_same [OF s] throttle_same [OF s] eq by simp
  then show ?thesis by (simp add: node_rates_def rate_snapshot_def active_devices_same [OF s])
qed

interpretation speed: snapshot_delivery ShapingTable node_rates "\<lambda>_ _ d. d"
  by unfold_locales (simp_all add: node_rates_same [OF put_rows_same])

section \<open>What a snapshot holds\<close>

lemma res_map_set: "res_map f xs = Inr ys \<Longrightarrow> y \<in> set ys \<longleftrightarrow> (\<exists>x \<in> set xs. f x = Inr y)"
  by (induction xs arbitrary: ys) (auto simp: res_bind_Inr_iff)

lemma res_concat_map_set:
  assumes "res_concat_map f xs = Inr ys"
  shows "y \<in> set ys \<longleftrightarrow> (\<exists>x \<in> set xs. \<exists>zs. f x = Inr zs \<and> y \<in> set zs)" "x \<in> set xs \<Longrightarrow> is_ok (f x)"
proof -
  obtain zss where z: "res_map f xs = Inr zss" "ys = concat zss" using assms by (auto simp: res_concat_map_def res_bind_Inr_iff)
  show "y \<in> set ys \<longleftrightarrow> (\<exists>x \<in> set xs. \<exists>zs. f x = Inr zs \<and> y \<in> set zs)" unfolding z(2) set_concat UN_iff Bex_def res_map_set [OF z(1)] by blast
  show "x \<in> set xs \<Longrightarrow> is_ok (f x)" using z(1) by (auto simp: res_map_Inr_iff is_ok_iff list_all2_conv_all_nth in_set_conv_nth)
qed

lemma active_devices_iff:
  "r \<in> set (active_devices d node_key protocol now) \<longleftrightarrow> (\<exists>v \<in> set (devices d). dv_id v = ad_device r \<and> dv_profile v = ad_profile r
     \<and> dv_status v = DevActive \<and> (\<exists>p \<in> set (profiles d). pf_id p = ad_profile r \<and> serves d node_key protocol now p)
     \<and> ad_name r \<in> set (device_names d protocol v))"
  by (cases r) (auto simp: active_devices_def)

lemma capped_bounds: "0 < k \<Longrightarrow> capped own k \<le> k \<and> capped own k \<noteq> 0"
  by (auto simp: capped_def min_def)

text \<open>A used-up quota caps every device. The snapshot of a node holds only names of active devices whose profile has
  access to the node, is not frozen, suspended, expired or being deleted. While the profile is throttled, every name such
  a device has on the node (an AWG peer being retired included) is limited in both directions to at most the throttled
  speed, whatever the device's own limits are.\<close>

theorem throttle_caps_devices:
  assumes snap: "rate_snapshot d node_key protocols now = Inr clients"
  shows "c \<in> set clients \<Longrightarrow> \<exists>r. r \<in> set (active_devices d node_key (rt_protocol c) now) \<and> rt_name c \<in> set (client_names d (rt_protocol c) r)"
    and "protocol \<in> set protocols \<Longrightarrow> r \<in> set (active_devices d node_key protocol now) \<Longrightarrow> name \<in> set (client_names d protocol r)
      \<Longrightarrow> throttle d (ad_profile r) = Inr (Some k) \<Longrightarrow> 0 < k
      \<Longrightarrow> \<exists>c \<in> set clients. rt_protocol c = protocol \<and> rt_name c = name \<and> rt_up c \<noteq> 0 \<and> rt_up c \<le> k \<and> rt_down c \<noteq> 0 \<and> rt_down c \<le> k"
proof -
  note outer = res_concat_map_set [OF snap [unfolded rate_snapshot_def]]
  show "\<exists>r. r \<in> set (active_devices d node_key (rt_protocol c) now) \<and> rt_name c \<in> set (client_names d (rt_protocol c) r)" if c: "c \<in> set clients"
  proof -
    obtain p zs where p: "res_concat_map (rate_clients d node_key p) (active_devices d node_key p now) = Inr zs" "c \<in> set zs"
      using c outer(1) by auto
    then obtain r ws where "r \<in> set (active_devices d node_key p now)" "rate_clients d node_key p r = Inr ws" "c \<in> set ws"
      using res_concat_map_set(1) [OF p(1)] by auto
    moreover then have "rt_protocol c = p" "rt_name c \<in> set (client_names d p r)"
      by (auto simp: rate_clients_def Let_def res_bind_Inr_iff split: if_splits)
    ultimately show ?thesis by auto
  qed
  assume a: "protocol \<in> set protocols" "r \<in> set (active_devices d node_key protocol now)" "name \<in> set (client_names d protocol r)"
    "throttle d (ad_profile r) = Inr (Some k)" "0 < k"
  have "protocol \<in> {Awg, Xray}" by (cases protocol) simp_all
  then have in_p: "protocol \<in> set (filter (\<lambda>p. p \<in> set protocols) [Awg, Xray])" using a(1) by auto
  then obtain zs where zs: "res_concat_map (rate_clients d node_key protocol) (active_devices d node_key protocol now) = Inr zs"
    using outer(2) by (auto simp: is_ok_iff)
  then obtain ws where ws: "rate_clients d node_key protocol r = Inr ws" using res_concat_map_set(2) [OF zs a(2)] by (auto simp: is_ok_iff)
  then obtain up down where caps: "up \<noteq> 0" "up \<le> k" "down \<noteq> 0" "down \<le> k" and "ws = map (\<lambda>name. \<lparr>rt_protocol = protocol, rt_name = name, rt_up = up, rt_down = down\<rparr>) (client_names d protocol r)"
    using a(4) capped_bounds [OF a(5)] by (auto simp: rate_clients_def Let_def res_bind_Inr_iff)
  with a(3) have "\<lparr>rt_protocol = protocol, rt_name = name, rt_up = up, rt_down = down\<rparr> \<in> set ws" by auto
  then have "\<lparr>rt_protocol = protocol, rt_name = name, rt_up = up, rt_down = down\<rparr> \<in> set clients"
    using ws zs a(2) in_p outer(1) res_concat_map_set(1) [OF zs] by blast
  with caps show "\<exists>c \<in> set clients. rt_protocol c = protocol \<and> rt_name c = name \<and> rt_up c \<noteq> 0 \<and> rt_up c \<le> k \<and> rt_down c \<noteq> 0 \<and> rt_down c \<le> k"
    by force
qed

text \<open>C22. Speed limits reach the node. Two passes that the agent of a node answers, with any number of passes between them
  that it answers or not, leave the agent with exactly the node's snapshot at the time of the second, and the controller
  with the status \<open>current\<close> and the revision the agent holds. The agent may be in step with the controller, behind it or
  ahead of it at first; it only must not hold, by chance, the very revision the controller is about to use, with other
  contents. Each pass resolves the snapshots anew, so that a profile that expires between the passes is accounted for; the
  two snapshots must be valid for the agent, and the digest must tell apart the snapshots of the passes.\<close>

theorem speed_limits_enforced:
  assumes "distinct (map nd_key (target_nodes d))" and "\<not> paused d"
    and "\<forall>p \<in> set ([(now, reach)] @ ts @ [(now', reach')]). \<forall>n \<in> set (target_nodes d). is_ok (node_rates (fst p) d n)"
    and "n \<in> set (target_nodes d)" and "node_rates now d n = Inr clients" and "node_rates now' d n = Inr clients'"
    and "clients \<noteq> [] \<or> slot ShapingTable d (nd_key n) \<noteq> None" and "rates_valid clients" and "rates_valid clients'"
    and "in_step digest (w (nd_key n), slot ShapingTable d (nd_key n))
      \<or> (\<forall>x. next_slot digest clients (slot ShapingTable d (nd_key n)) = Some x \<longrightarrow> ag_revision (w (nd_key n)) \<noteq> sl_revision x)"
    and "inj_on digest (insert (ag_clients (w (nd_key n))) {c. \<exists>p \<in> set ([(now, reach)] @ ts @ [(now', reach')]). node_rates (fst p) d n = Inr c})"
    and "reach (nd_key n)" and "reach' (nd_key n)"
  shows "\<exists>w' d'. passes digest ShapingTable node_rates rates_valid outcomes (\<lambda>_ _ d. d) ([(now, reach)] @ ts @ [(now', reach')]) (w, d) = Inr (w', d')
    \<and> enforced clients' (w' (nd_key n), slot ShapingTable d' (nd_key n))"
  using assms by (intro speed.enforced_once_reached [where clients = clients]) (simp_all add: startable_def)

section \<open>Witnesses\<close>

definition speed_db :: db where
  "speed_db = quota_db\<lparr>policies := [quota_policy_row, quota_policy_row\<lparr>vp_id := ''z'', vp_key := ''quota.on_exhausted'', vp_value := PStr ''throttle''\<rparr>],
     nodes := map (\<lambda>n. n\<lparr>nd_applied_revision := 1\<rparr>) (nodes quota_db)\<rparr>"

definition speed_node :: node_row where "speed_node = hd (target_nodes speed_db)"

definition fresh_agents :: "string \<Rightarrow> 'c agent" where
  "fresh_agents k = \<lparr>ag_revision = 0, ag_clients = []\<rparr>"

definition coarse_digest :: "'c list \<Rightarrow> string" where
  "coarse_digest cs = (if cs = [] then ''e'' else ''f'')"

definition speed_clients :: "rate_client list" where
  "speed_clients = [\<lparr>rt_protocol = Awg, rt_name = ''d_1'', rt_up = 1000, rt_down = 1000\<rparr>]"

lemma speed_snapshots:
  "node_rates 5 speed_db speed_node = Inr speed_clients" "node_rates 6 speed_db speed_node = Inr speed_clients"
  "node_rates day speed_db speed_node = Inr speed_clients"
proof -
  have eq: "r = Inr cs" if "case r of Inr v \<Rightarrow> v = cs | _ \<Rightarrow> False" for r :: "rate_client list tx" and cs
    using that by (cases r) simp_all
  show "node_rates 5 speed_db speed_node = Inr speed_clients" by (rule eq) code_simp
  show "node_rates 6 speed_db speed_node = Inr speed_clients" by (rule eq) code_simp
  show "node_rates day speed_db speed_node = Inr speed_clients" by (rule eq) code_simp
qed

theorem throttle_caps_devices_witness:
  "\<exists>c \<in> set (projr (node_rates 5 speed_db speed_node)). rt_name c = ''d_1'' \<and> rt_up c \<le> 1000"
proof -
  have "throttle speed_db ''p1'' = Inr (Some 1000)" by code_simp
  moreover have "list_ex (\<lambda>r. ad_profile r = ''p1'' \<and> ''d_1'' \<in> set (client_names speed_db Awg r)) (active_devices speed_db (nd_key speed_node) Awg 5)"
    by code_simp
  then obtain r where "r \<in> set (active_devices speed_db (nd_key speed_node) Awg 5)" "ad_profile r = ''p1''"
    "''d_1'' \<in> set (client_names speed_db Awg r)" by (auto simp: list_ex_iff)
  moreover have "Awg \<in> set (nd_protocols speed_node)" by code_simp
  ultimately show ?thesis
    using throttle_caps_devices(2) [OF speed_snapshots(1) [unfolded node_rates_def], of Awg r "''d_1''" 1000] speed_snapshots(1) by auto
qed

text \<open>An agent ahead of a restored controller: the first pass overtakes it, the second misses it, the third enforces the limits.\<close>

definition ahead_agents :: "string \<Rightarrow> 'c agent" where
  "ahead_agents k = \<lparr>ag_revision = 9, ag_clients = []\<rparr>"

theorem speed_limits_enforced_witness:
  "\<exists>w' d'. passes coarse_digest ShapingTable node_rates rates_valid (\<lambda>_. None) (\<lambda>_ _ d. d)
       ([(5, \<lambda>_. True)] @ [(6, \<lambda>_. False)] @ [(day, \<lambda>_. True)]) (ahead_agents, speed_db) = Inr (w', d')
     \<and> enforced speed_clients (w' (nd_key speed_node), slot ShapingTable d' (nd_key speed_node))"
proof -
  have nodes: "target_nodes speed_db = [speed_node]" by code_simp
  have basics: "\<not> paused speed_db" "slot ShapingTable speed_db (nd_key speed_node) = None" "rates_valid speed_clients" by code_simp+
  have "speed_clients \<noteq> []" by (simp add: speed_clients_def)
  then have "inj_on coarse_digest {[], speed_clients}" by (auto simp: inj_on_def coarse_digest_def)
  then have "inj_on coarse_digest (insert (ag_clients (ahead_agents (nd_key speed_node)))
      {c. \<exists>p \<in> set ([(5, \<lambda>_. True)] @ [(6, \<lambda>_. False)] @ [(day, \<lambda>_. True)]). node_rates (fst p) speed_db speed_node = Inr c})"
    by (rule inj_on_subset) (auto simp: ahead_agents_def speed_snapshots)
  with nodes basics \<open>speed_clients \<noteq> []\<close> show ?thesis
    by (intro speed_limits_enforced [where clients = speed_clients]) (simp_all add: speed_snapshots ahead_agents_def next_slot_def)
qed

end
