(* ===== verification/Connection_Limits.thy ===== *)
theory Connection_Limits
  imports Speed_Limits
begin

text \<open>
  \<^verbatim>\<open>app/backend/connection_limits.py\<close>: the limits on concurrent sources of every VLESS client of a node, their delivery to
  the agents as an instance of \<open>snapshot_delivery\<close>, and what is stored of the sessions the agents report. The agents'
  reports are the argument \<open>sessions\<close>, \<open>uuid5\<close> the identity of a name.
\<close>

section \<open>Snapshots\<close>

definition CONNECTION_INTERVAL :: int where "CONNECTION_INTERVAL = 60 * second"
definition CONNECTION_KEYS :: "string list" where
  "CONNECTION_KEYS = [''connections.mode'', ''connections.max_sources'', ''connections.window_seconds'', ''connections.cooldown_seconds'']"
definition CONNECTION_LAST_SYNC :: string where "CONNECTION_LAST_SYNC = ''connection_limits_last_sync''"
definition NOTIFY_MINUTES :: int where "NOTIFY_MINUTES = 30"
definition ALERT_EVENTS :: nat where "ALERT_EVENTS = 5"
definition ALERT_HOURS :: int where "ALERT_HOURS = 24"
definition RETENTION_DAYS :: int where "RETENTION_DAYS = 7"
definition FRESH_MINUTES :: int where "FRESH_MINUTES = 5"

record admission_client =
  cl_email :: string
  cl_mode :: string
  cl_max_sources :: int
  cl_window_seconds :: int
  cl_cooldown_seconds :: int

definition admission_clients :: "db \<Rightarrow> string \<Rightarrow> active_device \<Rightarrow> admission_client list tx" where
  "admission_clients d node_key r =
     res_bind (device_settings d (ad_device r) node_key Xray CONNECTION_KEYS) (\<lambda>vs.
       Inr (if str_of (map_of vs ''connections.mode'') = ''off'' then []
            else [\<lparr>cl_email = ad_name r, cl_mode = str_of (map_of vs ''connections.mode''),
                   cl_max_sources = int_of (map_of vs ''connections.max_sources''),
                   cl_window_seconds = int_of (map_of vs ''connections.window_seconds''),
                   cl_cooldown_seconds = int_of (map_of vs ''connections.cooldown_seconds'')\<rparr>]))"

definition admission_snapshot :: "db \<Rightarrow> string \<Rightarrow> instant \<Rightarrow> admission_client list tx" where
  "admission_snapshot d node_key now = res_concat_map (admission_clients d node_key) (active_devices d node_key Xray now)"

definition node_limits :: "instant \<Rightarrow> db \<Rightarrow> node_row \<Rightarrow> admission_client list tx" where
  "node_limits now d n = (if Xray \<in> set (nd_protocols n) then admission_snapshot d (nd_key n) now else Inr [])"

text \<open>What the agent checks before it takes a snapshot (\<^verbatim>\<open>rust/node-agent/src/protocols/xray/admission.rs\<close>).\<close>

definition MAX_WINDOW_SECONDS :: int where "MAX_WINDOW_SECONDS = 3600"
definition MAX_COOLDOWN_SECONDS :: int where "MAX_COOLDOWN_SECONDS = 86400"

definition limit_valid :: "admission_client \<Rightarrow> bool" where
  "limit_valid c = (cl_mode c \<in> {''observe'', ''enforce''} \<and> valid_email (cl_email c) \<and> 0 < cl_max_sources c
     \<and> 1 \<le> cl_window_seconds c \<and> cl_window_seconds c \<le> MAX_WINDOW_SECONDS
     \<and> 0 \<le> cl_cooldown_seconds c \<and> cl_cooldown_seconds c \<le> MAX_COOLDOWN_SECONDS)"

definition limits_valid :: "admission_client list \<Rightarrow> bool" where
  "limits_valid clients = (list_all limit_valid clients \<and> distinct (map cl_email clients))"

section \<open>Networks in use\<close>

record networks =
  nw_active :: int
  nw_blocked :: int
  nw_limit :: int

definition seen_rows :: "db \<Rightarrow> string \<Rightarrow> instant \<Rightarrow> observation_row list" where
  "seen_rows d device_id now = order_by ob_node
     (filter (\<lambda>o'. ob_device o' = device_id \<and> ob_observed_at o' \<ge> now - FRESH_MINUTES * minute) (observations d))"

definition busier :: "networks \<Rightarrow> networks option \<Rightarrow> bool" where
  "busier entry busiest = (case busiest of None \<Rightarrow> True
     | Some b \<Rightarrow> nw_active entry * nw_limit b > nw_active b * nw_limit entry)"

definition busiest_step :: "db \<Rightarrow> string \<Rightarrow> observation_row \<Rightarrow> networks option \<Rightarrow> networks option tx" where
  "busiest_step d device_id row busiest =
     res_bind (device_settings d device_id (ob_node row) Xray (take 2 CONNECTION_KEYS)) (\<lambda>vs.
       Inr (if str_of (map_of vs ''connections.mode'') = ''off'' then busiest
            else (let entry = \<lparr>nw_active = ob_active_sources row, nw_blocked = ob_blocked_sources row,
                               nw_limit = int_of (map_of vs ''connections.max_sources'')\<rparr>
                  in if busier entry busiest then Some entry else busiest)))"

definition idle_networks :: "db \<Rightarrow> string \<Rightarrow> networks option tx" where
  "idle_networks d device_id =
     res_bind (effective d (no_target\<lparr>tg_device := Some device_id\<rparr>) (Some (take 2 CONNECTION_KEYS))) (\<lambda>vs.
       Inr (if str_of (map_of vs ''connections.mode'') = ''off'' then None
            else Some \<lparr>nw_active = 0, nw_blocked = 0, nw_limit = int_of (map_of vs ''connections.max_sources'')\<rparr>))"

definition device_busiest :: "db \<Rightarrow> instant \<Rightarrow> string \<Rightarrow> networks option tx" where
  "device_busiest d now device_id =
     res_bind (res_fold (busiest_step d device_id) (seen_rows d device_id now) None) (\<lambda>busiest.
       case busiest of None \<Rightarrow> idle_networks d device_id | Some b \<Rightarrow> Inr (Some b))"

definition device_networks :: "db \<Rightarrow> string \<Rightarrow> instant \<Rightarrow> (string \<times> networks) list tx" where
  "device_networks d profile_id now =
     res_concat_map (\<lambda>v. res_bind (device_busiest d now (dv_id v)) (\<lambda>b. Inr (case b of None \<Rightarrow> [] | Some b \<Rightarrow> [(dv_id v, b)])))
       (filter (\<lambda>v. dv_profile v = profile_id \<and> dv_status v = DevActive) (devices d))"

section \<open>Alerts to administrators\<close>

definition alert_permission :: "string \<Rightarrow> string" where
  "alert_permission kind = (if kind = ''link_sharing'' then ''profiles.manage'' else if kind = ''update_available'' then ''settings.manage'' else ''nodes.inspect'')"

definition clean_payload :: "(string \<times> pyval) list \<Rightarrow> (string \<times> pyval) list" where
  "clean_payload payload = filter (\<lambda>(k, _). \<not> starts_with ''_'' k) payload"

definition alert_recipients :: "db \<Rightarrow> string \<Rightarrow> (string \<times> string) list" where
  "alert_recipients d permission = concat (map (\<lambda>a. map (\<lambda>c. (acc_id a, cn_address c))
     (filter (\<lambda>c. cn_account c = acc_id a \<and> cn_channel c = ''telegram'' \<and> cn_enabled c) (channels d))) (filter (holds_sql permission d) (accounts d)))"

definition alert_event :: "node_row \<Rightarrow> string \<Rightarrow> (string \<times> pyval) list \<Rightarrow> bool \<Rightarrow> instant \<Rightarrow> db \<Rightarrow> db" where
  "alert_event n kind payload resolved timestamp d =
     (let to = (if PStr ''telegram'' \<in> set (enabled_channels d) then alert_recipients d (alert_permission kind) else [])
      in d\<lparr>alert_events := alert_events d @ [\<lparr>ae_node = nd_key n, ae_kind = kind, ae_resolved = resolved,
             ae_payload = fold (\<lambda>(k, v). dict_set k v) (clean_payload payload) [(''node_title'', PStr (nd_title n))],
             ae_created_at = timestamp, ae_deliveries = to\<rparr>],
           drawn := drawn d + 1 + length to\<rparr>)"

section \<open>Observations\<close>

record observed_session =
  os_email :: string
  os_active :: int
  os_blocked :: int

record observed_event =
  oe_email :: string
  oe_kind :: string
  oe_sequence :: int
  oe_occurred_at :: int

record observed =
  om_boot_id :: string
  om_sessions :: "observed_session list"
  om_events :: "observed_event list"

definition client_device :: "db \<Rightarrow> string \<Rightarrow> (device_row \<times> profile_row) option" where
  "client_device d email = (case find (\<lambda>c. dc_protocol c = Xray \<and> dc_runtime_name c = email) (device_credentials d) of
     None \<Rightarrow> None
   | Some c \<Rightarrow> (case find (\<lambda>v. dv_id v = dc_device c) (devices d) of
       None \<Rightarrow> None | Some v \<Rightarrow> map_option (Pair v) (find_profile d (dv_profile v))))"

definition session_rows :: "string \<Rightarrow> observed \<Rightarrow> instant \<Rightarrow> db \<Rightarrow> observation_row list" where
  "session_rows node_key obs now d = concat (map (\<lambda>s. case client_device d (os_email s) of
     None \<Rightarrow> []
   | Some (v, _) \<Rightarrow> [\<lparr>ob_device = dv_id v, ob_node = node_key, ob_active_sources = os_active s, ob_blocked_sources = os_blocked s,
                     ob_observed_at = now\<rparr>]) (om_sessions obs))"

definition store_sessions :: "string \<Rightarrow> observed \<Rightarrow> instant \<Rightarrow> db \<Rightarrow> db tx" where
  "store_sessions node_key obs now d =
     (let rows = session_rows node_key obs now d in
      guard (distinct (map ob_device rows)) IntegrityError
        (Inr (d\<lparr>observations := filter (\<lambda>o'. ob_node o' \<noteq> node_key) (observations d) @ rows\<rparr>)))"

definition event_id :: "(string \<Rightarrow> string) \<Rightarrow> string \<Rightarrow> string \<Rightarrow> int \<Rightarrow> string" where
  "event_id uuid5 node_key boot n = uuid5 (''node-plane:admission:'' @ node_key @ '':'' @ boot @ '':'' @ int_str n)"

definition notify_eviction :: "node_row \<Rightarrow> device_row \<Rightarrow> int \<Rightarrow> instant \<Rightarrow> db \<Rightarrow> db tx" where
  "notify_eviction n v occurred_at now d =
     queue ''connection_evicted'' (dv_profile v)
       (''connection_evicted:'' @ dv_id v @ '':'' @ int_str (occurred_at div (NOTIFY_MINUTES * 60))) now
       [(''device'', PStr (dv_display_name v)), (''node'', PStr (nd_title n))] (Some (dv_id v)) None d"

text \<open>The loop over the events: the database, the sequence reached, and the devices with a new event.\<close>

definition store_event ::
  "(string \<Rightarrow> string) \<Rightarrow> node_row \<Rightarrow> string \<Rightarrow> instant \<Rightarrow> observed_event \<Rightarrow> db \<times> int \<times> string list \<Rightarrow> (db \<times> int \<times> string list) tx"
where
  "store_event uuid5 n boot now e acc =
     (case acc of (d, reached, touched) \<Rightarrow>
      (let reached' = max reached (oe_sequence e) in
       case client_device d (oe_email e) of
         None \<Rightarrow> Inr (d, reached', touched)
       | Some (v, p) \<Rightarrow>
           if oe_kind e \<notin> {''evicted'', ''would_evict''} then Inr (d, reached', touched)
           else
             (let occurred = oe_occurred_at e * second; i = event_id uuid5 (nd_key n) boot (oe_sequence e) in
              guard (in_range occurred) OverflowError
              (if i \<in> ev_id ` set (admission_events d) then Inr (d, reached', touched)
               else
                 (let d1 = d\<lparr>admission_events := admission_events d @ [\<lparr>ev_id = i, ev_device = dv_id v, ev_node = nd_key n,
                        ev_kind = oe_kind e, ev_occurred_at = occurred, ev_alerted = False\<rparr>]\<rparr>
                  in res_bind (if oe_kind e = ''evicted'' \<and> occurred > now - NOTIFY_MINUTES * minute
                               then notify_eviction n v (oe_occurred_at e) now d1 else Inr d1) (\<lambda>d2.
                       Inr (d2, reached', List.insert (dv_id v) touched)))))))"

definition alert_device :: "node_row \<Rightarrow> instant \<Rightarrow> device_row \<times> profile_row \<Rightarrow> db \<Rightarrow> db" where
  "alert_device n now vp d =
     (let fresh = (\<lambda>e. ev_device e = dv_id (fst vp) \<and> \<not> ev_alerted e \<and> ev_occurred_at e \<ge> now - ALERT_HOURS * 60 * minute);
          rows = filter fresh (admission_events d)
      in if length rows < ALERT_EVENTS then d
         else (let d1 = alert_event n ''link_sharing'' [(''profile'', PStr (pf_display_name (snd vp))), (''device'', PStr (dv_display_name (fst vp))),
                  (''events'', PInt (int (length rows))), (''hours'', PInt ALERT_HOURS),
                  (''observe'', PBool (list_all (\<lambda>e. ev_kind e = ''would_evict'') rows))] False now d
               in d1\<lparr>admission_events := update_where (\<lambda>e. ev_id e \<in> set (map ev_id rows)) (\<lambda>e. e\<lparr>ev_alerted := True\<rparr>) (admission_events d1)\<rparr>))"

text \<open>The devices that the report names, each once, in the order of the report.\<close>

definition named_devices :: "observed \<Rightarrow> db \<Rightarrow> (device_row \<times> profile_row) list" where
  "named_devices obs d = concat (map (\<lambda>email. case client_device d email of None \<Rightarrow> [] | Some vp \<Rightarrow> [vp])
     (remdups (map os_email (om_sessions obs) @ map oe_email (om_events obs))))"

text \<open>A delivery row refers to its node.\<close>

definition store_observed :: "(string \<Rightarrow> string) \<Rightarrow> string \<Rightarrow> observed \<Rightarrow> instant \<Rightarrow> db \<Rightarrow> db tx" where
  "store_observed uuid5 node_key obs now d =
     (case row_of AdmissionTable d node_key of
        None \<Rightarrow> Inr d
      | Some cursor \<Rightarrow>
     (case find_node d node_key of
        None \<Rightarrow> Inl TypeError
      | Some n \<Rightarrow>
          res_bind (store_sessions node_key obs now d) (\<lambda>d1.
          res_bind (res_fold (store_event uuid5 n (om_boot_id obs) now) (om_events obs)
              (d1, if om_boot_id obs = sn_events_boot cursor then sn_events_sequence cursor else 0, [])) (\<lambda>(d2, reached, touched).
            (let d3 = d2\<lparr>admission := update_where (\<lambda>r. sn_node r = node_key)
                    (\<lambda>r. r\<lparr>sn_events_boot := om_boot_id obs, sn_events_sequence := reached\<rparr>) (admission d2)\<rparr>;
                 d4 = fold (alert_device n now) (filter (\<lambda>vp. dv_id (fst vp) \<in> set touched) (named_devices obs d)) d3
             in Inr (d4\<lparr>admission_events := filter (\<lambda>e. \<not> ev_occurred_at e < now - RETENTION_DAYS * day) (admission_events d4)\<rparr>))))))"

definition observe ::
  "(string \<Rightarrow> string) \<Rightarrow> (string \<Rightarrow> string \<Rightarrow> int \<Rightarrow> (string option, observed) result) \<Rightarrow> string \<Rightarrow> instant \<Rightarrow> db \<Rightarrow> db tx option"
where
  "observe uuid5 sessions node_key now d =
     (case row_of AdmissionTable d node_key of
        None \<Rightarrow> Some (Inr d)
      | Some cursor \<Rightarrow> (case sessions node_key (sn_events_boot cursor) (sn_events_sequence cursor) of
          Inl code \<Rightarrow> None
        | Inr obs \<Rightarrow> Some (store_observed uuid5 node_key obs now d)))"

text \<open>After a delivery the pass observes the node; an error there waits for the next pass.\<close>

definition observed_after ::
  "(string \<Rightarrow> string) \<Rightarrow> (string \<Rightarrow> string \<Rightarrow> int \<Rightarrow> (string option, observed) result) \<Rightarrow> instant \<Rightarrow> string \<Rightarrow> db \<Rightarrow> db"
where
  "observed_after uuid5 sessions now node_key d = (case observe uuid5 sessions node_key now d of Some (Inr e) \<Rightarrow> e | _ \<Rightarrow> d)"

section \<open>Delivery\<close>

definition connection_plan :: "(admission_client list \<Rightarrow> string) \<Rightarrow> instant \<Rightarrow> db \<Rightarrow> (db \<times> admission_client send list) tx" where
  "connection_plan digest now d = plan digest AdmissionTable (node_limits now) d"

definition connection_sync ::
  "(admission_client list \<Rightarrow> string) \<Rightarrow> (string \<Rightarrow> string) \<Rightarrow> (string \<Rightarrow> string \<Rightarrow> int \<Rightarrow> (string option, observed) result)
     \<Rightarrow> (admission_client, 'w) driver \<Rightarrow> instant \<Rightarrow> 'w \<times> db \<Rightarrow> (('w \<times> db) \<times> admission_client send list) tx"
where
  "connection_sync digest uuid5 sessions driver now wd =
     sync digest AdmissionTable (node_limits now) driver (observed_after uuid5 sessions now) now wd"

definition connection_delivery :: "actor \<Rightarrow> db \<Rightarrow> delivery_view list tx" where
  "connection_delivery actor d = res_bind (require_permission actor ''settings.manage'') (\<lambda>_. Inr (delivery_views AdmissionTable d))"

definition scheduled_connections ::
  "(admission_client list \<Rightarrow> string) \<Rightarrow> (string \<Rightarrow> string) \<Rightarrow> (string \<Rightarrow> string \<Rightarrow> int \<Rightarrow> (string option, observed) result)
     \<Rightarrow> (admission_client, 'w) driver \<Rightarrow> instant \<Rightarrow> 'w \<times> db \<Rightarrow> (('w \<times> db) \<times> bool) tx"
where
  "scheduled_connections digest uuid5 sessions driver now wd =
     scheduled_sync CONNECTION_LAST_SYNC CONNECTION_INTERVAL (connection_sync digest uuid5 sessions driver now) now wd"

section \<open>Observing leaves the delivery alone\<close>

definition observes_only :: "db \<Rightarrow> db \<Rightarrow> bool" where
  "observes_only d e = (same_inputs d e \<and> nodes e = nodes d \<and> target_nodes e = target_nodes d \<and> paused e = paused d
     \<and> (\<forall>m. slot AdmissionTable e m = slot AdmissionTable d m))"

lemmas observing_defs = observes_only_def same_inputs_def target_nodes_def agent_installed_def paused_def gate_active_def
  cleanup_active_def restore_active_def slot_def row_of_def table_rows_def

lemma observes_only_refl [simp]: "observes_only d d"
  by (simp add: observes_only_def same_inputs_def)

lemma observes_only_trans [trans]: "observes_only a b \<Longrightarrow> observes_only b c \<Longrightarrow> observes_only a c"
  by (simp add: observes_only_def same_inputs_def)

lemma observes_only_update [simp]:
  "observes_only d (d\<lparr>observations := os\<rparr>)" "observes_only d (d\<lparr>admission_events := es\<rparr>)"
  "observes_only d (d\<lparr>notifications := ns, drawn := k\<rparr>)" "observes_only d (d\<lparr>alert_events := as, drawn := k\<rparr>)"
  by (simp_all add: observing_defs)

lemma queue_observes: "queue kind p key now payload i x d = Inr e \<Longrightarrow> observes_only d e"
  using queue_cases [of kind p key now payload i x d e] by auto

definition accepted :: "db \<Rightarrow> observed_event \<Rightarrow> bool" where
  "accepted d e = (client_device d (oe_email e) \<noteq> None \<and> oe_kind e \<in> {''evicted'', ''would_evict''})"

definition event_row :: "string \<Rightarrow> node_row \<Rightarrow> device_row \<Rightarrow> observed_event \<Rightarrow> admission_event_row" where
  "event_row i n v e = \<lparr>ev_id = i, ev_device = dv_id v, ev_node = nd_key n, ev_kind = oe_kind e,
     ev_occurred_at = oe_occurred_at e * second, ev_alerted = False\<rparr>"

lemma store_eventE:
  assumes "store_event uuid5 n boot now e (d, k, ts) = Inr (d', k', ts')"
  obtains (same) "d' = d" "ts' = ts" "accepted d e \<Longrightarrow> event_id uuid5 (nd_key n) boot (oe_sequence e) \<in> ev_id ` set (admission_events d)"
  | (new) v d1 where "accepted d e" "event_id uuid5 (nd_key n) boot (oe_sequence e) \<notin> ev_id ` set (admission_events d)"
      "d1 = d\<lparr>admission_events := admission_events d @ [event_row (event_id uuid5 (nd_key n) boot (oe_sequence e)) n v e]\<rparr>"
      "d' = d1 \<or> notify_eviction n v (oe_occurred_at e) now d1 = Inr d'"
proof (cases "client_device d (oe_email e)")
  case None
  with assms same show thesis by (simp add: store_event_def accepted_def)
next
  case (Some vp)
  obtain v p where vp: "vp = (v, p)" by (cases vp)
  let ?i = "event_id uuid5 (nd_key n) boot (oe_sequence e)"
  let ?d1 = "d\<lparr>admission_events := admission_events d @ [event_row ?i n v e]\<rparr>"
  consider (kind) "oe_kind e \<notin> {''evicted'', ''would_evict''}" | (old) "oe_kind e \<in> {''evicted'', ''would_evict''}" "?i \<in> ev_id ` set (admission_events d)"
    | (fresh) "oe_kind e \<in> {''evicted'', ''would_evict''}" "?i \<notin> ev_id ` set (admission_events d)" by blast
  then show thesis
  proof cases
    case kind
    with assms Some vp same show thesis by (simp add: store_event_def accepted_def)
  next
    case old
    with assms Some vp have "d' = d" "ts' = ts" by (auto simp: store_event_def Let_def)
    with old same show thesis by simp
  next
    case fresh
    with assms Some vp have "res_bind (if oe_kind e = ''evicted'' \<and> oe_occurred_at e * second > now - NOTIFY_MINUTES * minute
        then notify_eviction n v (oe_occurred_at e) now ?d1 else Inr ?d1) (\<lambda>d2. Inr (d2, max k (oe_sequence e), List.insert (dv_id v) ts)) = Inr (d', k', ts')"
      unfolding event_row_def by (auto simp: store_event_def Let_def split: if_splits)
    then have "d' = ?d1 \<or> notify_eviction n v (oe_occurred_at e) now ?d1 = Inr d'"
      unfolding res_bind_Inr_iff by (metis Inr_inject prod.inject)
    with fresh Some vp new show thesis by (simp add: accepted_def)
  qed
qed

lemma store_event_observes: "store_event uuid5 n boot now e (d, k, ts) = Inr (d', k', ts') \<Longrightarrow> observes_only d d'"
proof (erule store_eventE)
  fix v d1
  assume d1: "d1 = d\<lparr>admission_events := admission_events d @ [event_row (event_id uuid5 (nd_key n) boot (oe_sequence e)) n v e]\<rparr>"
    and d': "d' = d1 \<or> notify_eviction n v (oe_occurred_at e) now d1 = Inr d'"
  have "observes_only d d1" unfolding d1 by (rule observes_only_update)
  moreover have "observes_only d1 d'" using d' unfolding notify_eviction_def using queue_observes observes_only_refl by blast
  ultimately show "observes_only d d'" by (rule observes_only_trans)
qed (simp only: observes_only_refl)

lemma store_events_observe:
  assumes "res_fold (store_event uuid5 n boot now) es s = Inr s'"
  shows "observes_only (fst s) (fst s')"
  using assms
proof (rule res_fold_invariant [where P = "\<lambda>x. observes_only (fst s) (fst x)"])
  show "observes_only (fst s) (fst s)" by (rule observes_only_refl)
  show "observes_only (fst s) (fst y)" if "observes_only (fst s) (fst x)" "store_event uuid5 n boot now e x = Inr y" for e x y
  proof -
    obtain d k ts d' k' ts' where "x = (d, k, ts)" "y = (d', k', ts')" by (cases x, cases y)
    with that store_event_observes [of uuid5 n boot now e d k ts d' k' ts'] show ?thesis using observes_only_trans by simp
  qed
qed

lemma alert_device_observes: "observes_only d (alert_device n now vp d)"
  by (auto simp: alert_device_def alert_event_def Let_def intro: observes_only_trans [OF observes_only_update(4) observes_only_update(2)])

lemma alerts_observe: "observes_only d (fold (alert_device n now) vps d)"
  by (induction vps arbitrary: d) (auto intro: observes_only_trans alert_device_observes)

lemma cursor_observes: "observes_only d (d\<lparr>admission := update_where (\<lambda>r. sn_node r = k) (\<lambda>r. r\<lparr>sn_events_boot := b, sn_events_sequence := s\<rparr>) (admission d)\<rparr>)"
  (is "observes_only d (d\<lparr>admission := update_where _ ?f _\<rparr>)")
proof -
  have "slot AdmissionTable (d\<lparr>admission := update_where (\<lambda>r. sn_node r = k) ?f (admission d)\<rparr>) m = slot AdmissionTable d m" for m
    using row_of_update [of ?f AdmissionTable "\<lambda>r. sn_node r = k" d m]
    by (cases "row_of AdmissionTable d m") (simp_all add: slot_def slot_of_def put_rows_def table_rows_def)
  then show ?thesis by (simp add: observing_defs)
qed

lemma store_observedE:
  assumes "store_observed uuid5 k obs now d = Inr e"
  obtains (none) "row_of AdmissionTable d k = None" "e = d"
  | (stored) cursor n d1 d2 d3 reached touched where "row_of AdmissionTable d k = Some cursor" "find_node d k = Some n" "store_sessions k obs now d = Inr d1"
    "res_fold (store_event uuid5 n (om_boot_id obs) now) (om_events obs)
       (d1, if om_boot_id obs = sn_events_boot cursor then sn_events_sequence cursor else 0, []) = Inr (d2, reached, touched)"
    "d3 = fold (alert_device n now) (filter (\<lambda>vp. dv_id (fst vp) \<in> set touched) (named_devices obs d))
       (d2\<lparr>admission := update_where (\<lambda>r. sn_node r = k) (\<lambda>r. r\<lparr>sn_events_boot := om_boot_id obs, sn_events_sequence := reached\<rparr>) (admission d2)\<rparr>)"
    "e = d3\<lparr>admission_events := filter (\<lambda>e. \<not> ev_occurred_at e < now - RETENTION_DAYS * day) (admission_events d3)\<rparr>"
proof (cases "row_of AdmissionTable d k")
  case None
  show thesis by (rule none [OF None]) (use assms None in \<open>simp add: store_observed_def\<close>)
next
  case (Some cursor)
  then obtain n where n: "find_node d k = Some n"
    using assms by (cases "find_node d k") (simp_all add: store_observed_def)
  then obtain d1 where d1: "store_sessions k obs now d = Inr d1"
    using assms Some by (cases "store_sessions k obs now d") (simp_all add: store_observed_def)
  let ?s = "(d1, if om_boot_id obs = sn_events_boot cursor then sn_events_sequence cursor else 0, [])"
  obtain r where r: "res_fold (store_event uuid5 n (om_boot_id obs) now) (om_events obs) ?s = Inr r"
    using assms Some n d1 by (cases "res_fold (store_event uuid5 n (om_boot_id obs) now) (om_events obs) ?s") (simp_all add: store_observed_def)
  obtain d2 reached touched where p: "r = (d2, reached, touched)" by (cases r)
  show thesis by (rule stored [OF Some n d1 r [unfolded p] refl]) (use assms Some n d1 r p in \<open>simp add: store_observed_def Let_def\<close>)
qed

lemma store_observed_observes: "store_observed uuid5 k obs now d = Inr e \<Longrightarrow> observes_only d e"
proof (erule store_observedE)
  fix cursor n and d1 d2 d3 :: db and reached touched
  let ?d2 = "d2\<lparr>admission := update_where (\<lambda>r. sn_node r = k) (\<lambda>r. r\<lparr>sn_events_boot := om_boot_id obs, sn_events_sequence := reached\<rparr>) (admission d2)\<rparr>"
  assume d1: "store_sessions k obs now d = Inr d1"
    and d2: "res_fold (store_event uuid5 n (om_boot_id obs) now) (om_events obs)
       (d1, if om_boot_id obs = sn_events_boot cursor then sn_events_sequence cursor else 0, []) = Inr (d2, reached, touched)"
    and d3: "d3 = fold (alert_device n now) (filter (\<lambda>vp. dv_id (fst vp) \<in> set touched) (named_devices obs d)) ?d2"
    and e: "e = d3\<lparr>admission_events := filter (\<lambda>e. \<not> ev_occurred_at e < now - RETENTION_DAYS * day) (admission_events d3)\<rparr>"
  have "observes_only d d1" using d1 by (auto simp: store_sessions_def Let_def)
  also have "observes_only d1 d2" using store_events_observe [OF d2] by simp
  also have "observes_only d2 ?d2" by (rule cursor_observes)
  also have "observes_only ?d2 d3" unfolding d3 by (rule alerts_observe)
  also have "observes_only d3 e" unfolding e by (rule observes_only_update)
  finally show "observes_only d e" .
qed simp

lemma observed_after_observes: "observes_only d (observed_after uuid5 sessions now k d)"
  by (auto simp: observed_after_def observe_def split: option.splits sum.splits dest: store_observed_observes)

lemma node_limits_same: "same_inputs d e \<Longrightarrow> node_limits now e n = node_limits now d n"
proof -
  assume s: "same_inputs d e"
  have "admission_clients e = admission_clients d"
    unfolding fun_eq_iff admission_clients_def device_settings_def effective_same [OF s] by simp
  then show ?thesis by (simp add: node_limits_def admission_snapshot_def active_devices_same [OF s])
qed

interpretation connections: snapshot_delivery AdmissionTable node_limits "observed_after uuid5 sessions"
  using observed_after_observes by unfold_locales (auto simp: node_limits_same [OF put_rows_same] observes_only_def intro: node_limits_same)

section \<open>A report counts once\<close>

lemma accepted_same: "observes_only d e \<Longrightarrow> accepted e x = accepted d x"
proof -
  assume "observes_only d e"
  then have s: "same_inputs d e" by (simp add: observes_only_def)
  show ?thesis unfolding accepted_def client_device_def find_profile_def same_inputsD [OF s] ..
qed

lemma notify_events: "notify_eviction n v at now d = Inr e \<Longrightarrow> admission_events e = admission_events d"
  unfolding notify_eviction_def using queue_cases by fastforce

lemma store_event_rows:
  assumes "store_event uuid5 n boot now e (d, k, ts) = Inr (d', k', ts')"
  shows "ev_id ` set (admission_events d) \<subseteq> ev_id ` set (admission_events d')"
    and "accepted d e \<Longrightarrow> event_id uuid5 (nd_key n) boot (oe_sequence e) \<in> ev_id ` set (admission_events d')"
    and "r \<in> set (admission_events d') \<Longrightarrow> r \<in> set (admission_events d) \<or> ev_occurred_at r = oe_occurred_at e * second"
proof -
  have "admission_events d' = admission_events d \<and> (accepted d e \<longrightarrow> event_id uuid5 (nd_key n) boot (oe_sequence e) \<in> ev_id ` set (admission_events d))
    \<or> (\<exists>v. admission_events d' = admission_events d @ [event_row (event_id uuid5 (nd_key n) boot (oe_sequence e)) n v e])"
    using assms
  proof (cases rule: store_eventE)
    case (new v d1)
    have "admission_events d' = admission_events d1" using new(4) notify_events [of n v _ now d1 d'] by auto
    then show ?thesis by (auto simp: new(3))
  qed simp
  then show "ev_id ` set (admission_events d) \<subseteq> ev_id ` set (admission_events d')"
    "accepted d e \<Longrightarrow> event_id uuid5 (nd_key n) boot (oe_sequence e) \<in> ev_id ` set (admission_events d')"
    "r \<in> set (admission_events d') \<Longrightarrow> r \<in> set (admission_events d) \<or> ev_occurred_at r = oe_occurred_at e * second"
    by (auto simp: event_row_def)
qed

lemma store_events_rows:
  assumes "res_fold (store_event uuid5 n boot now) es (d, k, ts) = Inr (d', k', ts')"
  shows "ev_id ` set (admission_events d) \<subseteq> ev_id ` set (admission_events d')"
    and "x \<in> set es \<Longrightarrow> accepted d x \<Longrightarrow> event_id uuid5 (nd_key n) boot (oe_sequence x) \<in> ev_id ` set (admission_events d')"
    and "r \<in> set (admission_events d') \<Longrightarrow> r \<in> set (admission_events d) \<or> (\<exists>x \<in> set es. ev_occurred_at r = oe_occurred_at x * second)"
proof -
  have "ev_id ` set (admission_events d) \<subseteq> ev_id ` set (admission_events d')
    \<and> (\<forall>x \<in> set es. accepted d x \<longrightarrow> event_id uuid5 (nd_key n) boot (oe_sequence x) \<in> ev_id ` set (admission_events d'))
    \<and> (\<forall>r \<in> set (admission_events d'). r \<in> set (admission_events d) \<or> (\<exists>x \<in> set es. ev_occurred_at r = oe_occurred_at x * second))"
    using assms
  proof (induction es arbitrary: d k ts)
    case Nil
    then show ?case by simp
  next
    case (Cons e es)
    obtain d1 k1 ts1 where one: "store_event uuid5 n boot now e (d, k, ts) = Inr (d1, k1, ts1)"
      and rest: "res_fold (store_event uuid5 n boot now) es (d1, k1, ts1) = Inr (d', k', ts')"
      using Cons.prems by (cases "store_event uuid5 n boot now e (d, k, ts)") auto
    note step = store_event_rows [OF one]
    have acc: "accepted d1 x = accepted d x" for x using accepted_same [OF store_event_observes [OF one]] .
    note ih = Cons.IH [OF rest]
    have mono: "ev_id ` set (admission_events d1) \<subseteq> ev_id ` set (admission_events d')" using ih by (rule conjunct1)
    have "event_id uuid5 (nd_key n) boot (oe_sequence x) \<in> ev_id ` set (admission_events d')" if "x \<in> set (e # es)" "accepted d x" for x
    proof (cases "x = e")
      case True
      with that step(2) mono show ?thesis by blast
    next
      case False
      with that ih acc show ?thesis by simp
    qed
    moreover have "r \<in> set (admission_events d) \<or> (\<exists>x \<in> set (e # es). ev_occurred_at r = oe_occurred_at x * second)"
      if "r \<in> set (admission_events d')" for r
    proof (cases "r \<in> set (admission_events d1)")
      case True
      with step(3) show ?thesis by auto
    next
      case False
      with ih that have "\<exists>x \<in> set es. ev_occurred_at r = oe_occurred_at x * second" by blast
      then show ?thesis by auto
    qed
    moreover have "ev_id ` set (admission_events d) \<subseteq> ev_id ` set (admission_events d')" using step(1) mono by (rule subset_trans)
    ultimately show ?case by (intro conjI ballI impI)
  qed
  then show "ev_id ` set (admission_events d) \<subseteq> ev_id ` set (admission_events d')"
    "x \<in> set es \<Longrightarrow> accepted d x \<Longrightarrow> event_id uuid5 (nd_key n) boot (oe_sequence x) \<in> ev_id ` set (admission_events d')"
    "r \<in> set (admission_events d') \<Longrightarrow> r \<in> set (admission_events d) \<or> (\<exists>x \<in> set es. ev_occurred_at r = oe_occurred_at x * second)"
    by blast+
qed

lemma store_events_known:
  assumes "res_fold (store_event uuid5 n boot now) es (d, k, ts) = Inr (d', k', ts')"
    and "\<forall>x \<in> set es. accepted d x \<longrightarrow> event_id uuid5 (nd_key n) boot (oe_sequence x) \<in> ev_id ` set (admission_events d)"
  shows "d' = d" "ts' = ts"
proof -
  have "d' = d \<and> ts' = ts" using assms
  proof (induction es arbitrary: k)
    case Nil
    then show ?case by simp
  next
    case (Cons e es)
    obtain d1 k1 ts1 where one: "store_event uuid5 n boot now e (d, k, ts) = Inr (d1, k1, ts1)"
      and rest: "res_fold (store_event uuid5 n boot now) es (d1, k1, ts1) = Inr (d', k', ts')"
      using Cons.prems(1) by (cases "store_event uuid5 n boot now e (d, k, ts)") auto
    from one have "d1 = d \<and> ts1 = ts" by (cases rule: store_eventE) (use Cons.prems(2) in auto)
    with Cons.IH [of k1] rest Cons.prems(2) show ?case by simp
  qed
  then show "d' = d" "ts' = ts" by simp_all
qed

definition stamp :: "admission_event_row \<Rightarrow> string \<times> instant" where
  "stamp e = (ev_id e, ev_occurred_at e)"

lemma alert_stamps: "map stamp (admission_events (fold (alert_device n now) vps d)) = map stamp (admission_events d)"
proof (induction vps arbitrary: d)
  case (Cons vp vps)
  have "map stamp (admission_events (alert_device n now vp d)) = map stamp (admission_events d)"
    by (simp add: alert_device_def alert_event_def Let_def map_update_where stamp_def)
  with Cons show ?case by simp
qed simp

lemma stored_rows:
  assumes "store_observed uuid5 k obs now d = Inr e" and "row_of AdmissionTable d k \<noteq> None" and "now - RETENTION_DAYS * day \<le> t"
    and "\<forall>r \<in> set (admission_events d). ev_occurred_at r \<ge> t" "\<forall>x \<in> set (om_events obs). oe_occurred_at x * second \<ge> t"
  shows "\<forall>r \<in> set (admission_events e). ev_occurred_at r \<ge> t"
    and "find_node d k = Some n \<Longrightarrow> x \<in> set (om_events obs) \<Longrightarrow> accepted d x
      \<Longrightarrow> event_id uuid5 (nd_key n) (om_boot_id obs) (oe_sequence x) \<in> ev_id ` set (admission_events e)"
proof -
  from assms(1) obtain cursor m d1 d2 d3 reached touched where "row_of AdmissionTable d k = Some cursor" and f: "find_node d k = Some m" "store_sessions k obs now d = Inr d1"
    "res_fold (store_event uuid5 m (om_boot_id obs) now) (om_events obs)
         (d1, if om_boot_id obs = sn_events_boot cursor then sn_events_sequence cursor else 0, []) = Inr (d2, reached, touched)"
    "d3 = fold (alert_device m now) (filter (\<lambda>vp. dv_id (fst vp) \<in> set touched) (named_devices obs d))
         (d2\<lparr>admission := update_where (\<lambda>r. sn_node r = k) (\<lambda>r. r\<lparr>sn_events_boot := om_boot_id obs, sn_events_sequence := reached\<rparr>) (admission d2)\<rparr>)"
    "e = d3\<lparr>admission_events := filter (\<lambda>e. \<not> ev_occurred_at e < now - RETENTION_DAYS * day) (admission_events d3)\<rparr>"
    by (rule store_observedE) (use assms(2) in simp, rule that)
  have d1: "admission_events d1 = admission_events d" "observes_only d d1" using f(2) by (auto simp: store_sessions_def Let_def)
  have stamps: "map stamp (admission_events d3) = map stamp (admission_events d2)" unfolding f(4) alert_stamps by simp
  have recent: "\<forall>r \<in> set (admission_events d3). ev_occurred_at r \<ge> t"
  proof -
    have "\<forall>s \<in> set (map stamp (admission_events d2)). snd s \<ge> t"
      using store_events_rows(3) [OF f(3)] assms(4,5) unfolding d1 by (fastforce simp: stamp_def)
    then show ?thesis unfolding stamps [symmetric] by (simp add: stamp_def)
  qed
  then have e: "admission_events e = admission_events d3" using assms(3) unfolding f(5) by (force simp: filter_id_conv)
  with recent show "\<forall>r \<in> set (admission_events e). ev_occurred_at r \<ge> t" by simp
  assume x: "find_node d k = Some n" "x \<in> set (om_events obs)" "accepted d x"
  then have "event_id uuid5 (nd_key n) (om_boot_id obs) (oe_sequence x) \<in> ev_id ` set (admission_events d2)"
    using store_events_rows(2) [OF f(3)] accepted_same [OF d1(2)] f(1) by simp
  also have "ev_id ` set (admission_events d2) = fst ` set (map stamp (admission_events d2))" by (simp add: image_image stamp_def)
  also have "\<dots> = ev_id ` set (admission_events e)" unfolding stamps [symmetric] e by (simp add: image_image stamp_def)
  finally show "event_id uuid5 (nd_key n) (om_boot_id obs) (oe_sequence x) \<in> ev_id ` set (admission_events e)" .
qed

lemma stored_known:
  assumes "store_observed uuid5 k obs now d = Inr e" and "\<forall>r \<in> set (admission_events d). ev_occurred_at r \<ge> now - RETENTION_DAYS * day"
    and "\<And>n x. find_node d k = Some n \<Longrightarrow> x \<in> set (om_events obs) \<Longrightarrow> accepted d x
      \<Longrightarrow> event_id uuid5 (nd_key n) (om_boot_id obs) (oe_sequence x) \<in> ev_id ` set (admission_events d)"
  shows "admission_events e = admission_events d \<and> notifications e = notifications d \<and> alert_events e = alert_events d"
  using assms(1)
proof (cases rule: store_observedE)
  case none
  then show ?thesis by simp
next
  case (stored cursor n d1 d2 d3 reached touched)
  have d1: "admission_events d1 = admission_events d" "notifications d1 = notifications d" "alert_events d1 = alert_events d" "observes_only d d1"
    using stored(3) by (auto simp: store_sessions_def Let_def)
  have "d2 = d1" "touched = []"
    using store_events_known [OF stored(4)] assms(3) [OF stored(2)] accepted_same [OF d1(4)] unfolding d1(1) by auto
  then have d3: "admission_events d3 = admission_events d" "notifications d3 = notifications d" "alert_events d3 = alert_events d"
    using stored(5) d1 by simp_all
  have "admission_events e = admission_events d" using assms(2) unfolding stored(6) by (force simp: d3 filter_id_conv)
  with d3 stored(6) show ?thesis by simp
qed

text \<open>A report of an agent counts once. When the same report arrives again, as after a lost answer or a restart of the
  controller, no event is stored, no owner is notified and no administrator is alerted a second time, as long as the
  events are within the retention.\<close>

theorem report_counts_once:
  assumes first: "store_observed uuid5 k obs now d = Inr e" and again: "store_observed uuid5 k obs now' e = Inr e'"
    and kept: "\<forall>r \<in> set (admission_events d). ev_occurred_at r \<ge> max now now' - RETENTION_DAYS * day"
      "\<forall>x \<in> set (om_events obs). oe_occurred_at x * second \<ge> max now now' - RETENTION_DAYS * day"
  shows "admission_events e' = admission_events e" "notifications e' = notifications e" "alert_events e' = alert_events e"
proof -
  have obs: "observes_only d e" by (rule store_observed_observes [OF first])
  have "admission_events e' = admission_events e \<and> notifications e' = notifications e \<and> alert_events e' = alert_events e"
  proof (cases "row_of AdmissionTable d k = None")
    case True
    then have "e = d" using first by (simp add: store_observed_def)
    with True again show ?thesis by (simp add: store_observed_def)
  next
    case False
    note rows = stored_rows [OF first False _ kept]
    show ?thesis
    proof (rule stored_known [OF again])
      show "\<forall>r \<in> set (admission_events e). ev_occurred_at r \<ge> now' - RETENTION_DAYS * day" using rows(1) by fastforce
      fix n x
      assume "find_node e k = Some n" "x \<in> set (om_events obs)" "accepted e x"
      then show "event_id uuid5 (nd_key n) (om_boot_id obs) (oe_sequence x) \<in> ev_id ` set (admission_events e)"
        using rows(2) accepted_same [OF obs] obs by (simp add: find_node_def observes_only_def)
    qed
  qed
  then show "admission_events e' = admission_events e" "notifications e' = notifications e" "alert_events e' = alert_events e" by blast+
qed

text \<open>C23. Connection limits reach the node. Two passes that the agent of a node answers, with any number of passes between them
  that it answers or not, leave the agent with exactly the node's snapshot at the time of the second, and the controller
  with the status \<open>current\<close> and the revision the agent holds,
  whatever the agents report of their sessions. The agent may be in step with the controller, behind it or
  ahead of it at first; it only must not hold, by chance, the very revision the controller is about to use, with other
  contents. Each pass resolves the snapshots anew, so that a profile that expires between the passes is accounted for; the
  two snapshots must be valid for the agent, and the digest must tell apart the snapshots of the passes.\<close>

theorem connection_limits_enforced:
  assumes "distinct (map nd_key (target_nodes d))" and "\<not> paused d"
    and "\<forall>p \<in> set ([(now, reach)] @ ts @ [(now', reach')]). \<forall>n \<in> set (target_nodes d). is_ok (node_limits (fst p) d n)"
    and "n \<in> set (target_nodes d)" and "node_limits now d n = Inr clients" and "node_limits now' d n = Inr clients'"
    and "clients \<noteq> [] \<or> slot AdmissionTable d (nd_key n) \<noteq> None" and "limits_valid clients" and "limits_valid clients'"
    and "in_step digest (w (nd_key n), slot AdmissionTable d (nd_key n))
      \<or> (\<forall>x. next_slot digest clients (slot AdmissionTable d (nd_key n)) = Some x \<longrightarrow> ag_revision (w (nd_key n)) \<noteq> sl_revision x)"
    and "inj_on digest (insert (ag_clients (w (nd_key n))) {c. \<exists>p \<in> set ([(now, reach)] @ ts @ [(now', reach')]). node_limits (fst p) d n = Inr c})"
    and "reach (nd_key n)" and "reach' (nd_key n)"
  shows "\<exists>w' d'. passes digest AdmissionTable node_limits limits_valid outcomes (observed_after uuid5 sessions) ([(now, reach)] @ ts @ [(now', reach')]) (w, d) = Inr (w', d')
    \<and> enforced clients' (w' (nd_key n), slot AdmissionTable d' (nd_key n))"
  using assms by (intro connections.enforced_once_reached [where clients = clients]) (simp_all add: startable_def)

text \<open>C24. After a restore a node may keep its old limits forever. A restore empties \<open>backend_node_admission\<close>, so that the next
  snapshot of a node has revision 1 again. When its agent already holds a revision 1, it ignores the new snapshot and
  keeps enforcing its own, whatever that is; in every later pass, as long as the snapshot stays the same, the controller
  takes the answer for a confirmation and reports the node as \<open>current\<close>.\<close>

theorem restored_limits_ignored:
  assumes "distinct (map nd_key (target_nodes d))" and "\<not> paused d"
    and "\<forall>p \<in> set ts. \<forall>n \<in> set (target_nodes d). is_ok (node_limits (fst p) d n)"
    and "n \<in> set (target_nodes d)" and "\<forall>p \<in> set ts. node_limits (fst p) d n = Inr clients" and "clients \<noteq> []" and "limits_valid clients"
    and "slot AdmissionTable d (nd_key n) = None" and "ag_revision (w (nd_key n)) = 1" and "\<forall>p \<in> set ts. snd p (nd_key n)" and "ts \<noteq> []"
  shows "\<exists>w' d' x. passes digest AdmissionTable node_limits limits_valid outcomes (observed_after uuid5 sessions) ts (w, d) = Inr (w', d')
    \<and> w' (nd_key n) = w (nd_key n) \<and> slot AdmissionTable d' (nd_key n) = Some x \<and> sl_status x = UpToDate \<and> sl_digest x = digest clients"
proof -
  have "\<exists>w' d'. passes digest AdmissionTable node_limits limits_valid outcomes (observed_after uuid5 sessions) ts (w, d) = Inr (w', d')
    \<and> mistaken digest clients (w (nd_key n)) (w' (nd_key n), slot AdmissionTable d' (nd_key n))"
    using assms by (intro connections.mistaken_forever)
  then show ?thesis by (auto simp: mistaken_def)
qed

section \<open>Witnesses\<close>

definition limit_db :: db where
  "limit_db = speed_db\<lparr>policies := [quota_policy_row\<lparr>vp_key := ''connections.mode'', vp_value := PStr ''enforce''\<rparr>],
     device_credentials := [\<lparr>dc_device = ''v1'', dc_profile = ''p1'', dc_protocol = Xray, dc_runtime_name = ''p_1'', dc_uuid = ''u'', dc_revision = 1\<rparr>],
     grants := [\<lparr>gr_profile = ''p1'', gr_node = ''n1'', gr_protocol = Xray\<rparr>], quota_periods := [],
     admission := [], admission_events := []\<rparr>"

definition limit_node :: node_row where "limit_node = hd (target_nodes limit_db)"

definition limit_clients :: "admission_client list" where "limit_clients = projr (node_limits 5 limit_db limit_node)"

definition report :: observed where
  "report = \<lparr>om_boot_id = ''b'', om_sessions = [\<lparr>os_email = ''p_1'', os_active = 2, os_blocked = 1\<rparr>],
     om_events = [\<lparr>oe_email = ''p_1'', oe_kind = ''evicted'', oe_sequence = 1, oe_occurred_at = 7\<rparr>]\<rparr>"

definition known_db :: db where "known_db = limit_db\<lparr>admission := [first_row ''n1'' ''x'']\<rparr>"

lemma limit_nodes: "target_nodes limit_db = [limit_node]" by code_simp

lemma limit_snapshots:
  "node_limits 5 limit_db limit_node = Inr limit_clients" "node_limits 6 limit_db limit_node = Inr limit_clients"
  "limit_clients \<noteq> []" "limits_valid limit_clients"
proof -
  have ok: "is_ok (node_limits 5 limit_db limit_node)" by code_simp
  then show "node_limits 5 limit_db limit_node = Inr limit_clients" unfolding limit_clients_def by (rule is_ok_projr)
  have "projr (node_limits 6 limit_db limit_node) = limit_clients" by code_simp
  moreover have "is_ok (node_limits 6 limit_db limit_node)" by code_simp
  ultimately show "node_limits 6 limit_db limit_node = Inr limit_clients" using is_ok_projr by metis
  show "limit_clients \<noteq> []" by code_simp
  show "limits_valid limit_clients" by code_simp
qed

lemma limit_basics: "\<not> paused limit_db" "slot AdmissionTable limit_db (nd_key limit_node) = None" by code_simp+

text \<open>A fresh agent that misses a pass between two.\<close>

theorem connection_limits_enforced_witness:
  "\<exists>w' d'. passes coarse_digest AdmissionTable node_limits limits_valid (\<lambda>_. None) (observed_after id (\<lambda>_ _ _. Inr report))
       ([(5, \<lambda>_. True)] @ [(6, \<lambda>_. False)] @ [(6, \<lambda>_. True)]) (fresh_agents, limit_db) = Inr (w', d')
     \<and> enforced limit_clients (w' (nd_key limit_node), slot AdmissionTable d' (nd_key limit_node))"
proof -
  have "inj_on coarse_digest {[], limit_clients}" using limit_snapshots(3) by (auto simp: inj_on_def coarse_digest_def)
  then have "inj_on coarse_digest (insert (ag_clients (fresh_agents (nd_key limit_node)))
      {c. \<exists>p \<in> set ([(5, \<lambda>_. True)] @ [(6, \<lambda>_. False)] @ [(6, \<lambda>_. True)]). node_limits (fst p) limit_db limit_node = Inr c})"
    by (rule inj_on_subset) (auto simp: fresh_agents_def limit_snapshots)
  then show ?thesis
    by (intro connection_limits_enforced [where clients = limit_clients])
       (simp_all add: limit_nodes limit_basics limit_snapshots in_step_def fresh_agents_def)
qed

text \<open>The agent of the node holds revision 1 with no limits at all.\<close>

definition stale_agents :: "string \<Rightarrow> admission_client agent" where
  "stale_agents k = \<lparr>ag_revision = 1, ag_clients = []\<rparr>"

theorem restored_limits_ignored_witness:
  "\<exists>w' d' x. passes coarse_digest AdmissionTable node_limits limits_valid (\<lambda>_. None) (observed_after id (\<lambda>_ _ _. Inr report))
       [(5, \<lambda>_. True), (6, \<lambda>_. True)] (stale_agents, limit_db) = Inr (w', d')
     \<and> ag_clients (w' (nd_key limit_node)) = [] \<and> limit_clients \<noteq> [] \<and> slot AdmissionTable d' (nd_key limit_node) = Some x \<and> sl_status x = UpToDate"
proof -
  have "\<exists>w' d' x. passes coarse_digest AdmissionTable node_limits limits_valid (\<lambda>_. None) (observed_after id (\<lambda>_ _ _. Inr report))
       [(5, \<lambda>_. True), (6, \<lambda>_. True)] (stale_agents, limit_db) = Inr (w', d')
     \<and> w' (nd_key limit_node) = stale_agents (nd_key limit_node) \<and> slot AdmissionTable d' (nd_key limit_node) = Some x \<and> sl_status x = UpToDate
     \<and> sl_digest x = coarse_digest limit_clients"
    by (intro restored_limits_ignored) (simp_all add: limit_nodes limit_basics limit_snapshots stale_agents_def)
  then show ?thesis using limit_snapshots(3) by (fastforce simp: stale_agents_def)
qed

theorem report_counts_once_witness:
  "\<exists>e e'. store_observed id ''n1'' report (8 * second) known_db = Inr e \<and> store_observed id ''n1'' report (9 * second) e = Inr e'
     \<and> notifications e \<noteq> [] \<and> notifications e' = notifications e"
proof -
  define r where "r = store_observed id ''n1'' report (8 * second) known_db"
  have "case r of Inr e \<Rightarrow> is_ok (store_observed id ''n1'' report (9 * second) e) \<and> notifications e \<noteq> [] | _ \<Rightarrow> False" unfolding r_def by code_simp
  then obtain e where e: "r = Inr e" "is_ok (store_observed id ''n1'' report (9 * second) e)" "notifications e \<noteq> []" by (auto split: sum.splits)
  then obtain e' where e': "store_observed id ''n1'' report (9 * second) e = Inr e'" by (auto simp: is_ok_iff)
  have "\<forall>r \<in> set (admission_events known_db). ev_occurred_at r \<ge> max (8 * second) (9 * second) - RETENTION_DAYS * day"
    "\<forall>x \<in> set (om_events report). oe_occurred_at x * second \<ge> max (8 * second) (9 * second) - RETENTION_DAYS * day" by code_simp+
  from report_counts_once(2) [OF e(1) [unfolded r_def] e' this] e e' show ?thesis unfolding r_def by blast
qed

end
