(* ===== verification/Access_Expiry.thy ===== *)
theory Access_Expiry
  imports Calendar
begin

text \<open>
  \<^verbatim>\<open>app/services/access_expiry.py\<close>: the expiry an administrator types, a date or a sum of durations, as the instant it
  stands for. The ISO text the function returns is that instant; the interpreter's own bound on the number of digits of a
  number is left out.
\<close>

section \<open>Parsing\<close>

definition UNIT_SECONDS :: "(string \<times> int) list" where
  "UNIT_SECONDS = [(''h'', 3600), (''d'', 86400), (''m'', 30 * 86400), (''y'', 365 * 86400)]"

text \<open>\<open>re.finditer(r'(\d+)([a-zA-Z]+)', text)\<close>: a run of digits that no letter follows is passed over.\<close>

function tokens :: "string \<Rightarrow> (string \<times> string) list" where
  "tokens s = (case dropWhile (\<lambda>c. \<not> ascii_digit c) s of
     [] \<Rightarrow> []
   | c # cs \<Rightarrow>
       (let amount = takeWhile ascii_digit (c # cs); rest = dropWhile ascii_digit (c # cs); unit = takeWhile ascii_alpha rest in
        if unit = [] then tokens rest else (amount, unit) # tokens (dropWhile ascii_alpha rest)))"
  by pat_completeness auto

lemma dropWhile_length: "length (dropWhile p xs) \<le> length xs"
  by (induction xs) auto

lemma tokens_shrinks:
  assumes "c # cs = dropWhile (\<lambda>c. \<not> ascii_digit c) s"
  shows "length (dropWhile ascii_digit (c # cs)) < length s"
proof -
  have "ascii_digit c" using hd_dropWhile [of "\<lambda>c. \<not> ascii_digit c" s] unfolding assms [symmetric] by simp
  then have "length (dropWhile ascii_digit (c # cs)) < length (c # cs)" using dropWhile_length [of ascii_digit cs] by simp
  with assms dropWhile_length [of "\<lambda>c. \<not> ascii_digit c" s] show ?thesis by simp
qed

termination tokens
proof (relation "measure length")
  show "wf (measure length)" by simp
  fix s c cs amount rest unit
  assume a: "dropWhile (\<lambda>c. \<not> ascii_digit c) s = c # cs" "rest = dropWhile ascii_digit (c # cs)"
  note less = tokens_shrinks [OF a(1) [symmetric]]
  show "(rest, s) \<in> measure length" using less a(2) by simp
  show "(dropWhile ascii_alpha rest, s) \<in> measure length" using less a(2) dropWhile_length [of ascii_alpha rest] by simp
qed

declare tokens.simps [simp del]

definition is_date :: "string \<Rightarrow> bool" where
  "is_date s = (case map (list_all ascii_digit) (split_on CHR ''-'' s) of
     [True, True, True] \<Rightarrow> map length (split_on CHR ''-'' s) = [4, 2, 2] | _ \<Rightarrow> False)"

definition parse_date :: "string \<Rightarrow> (int \<times> int \<times> int) tx" where
  "parse_date s = (case map int_of_digits (split_on CHR ''-'' s) of
     [y, m, d] \<Rightarrow> guard (1 \<le> y \<and> 1 \<le> m \<and> m \<le> 12 \<and> 1 \<le> d \<and> d \<le> days_in_month y m) (ValueError ''Invalid calendar date'') (Inr (y, m, d))
   | _ \<Rightarrow> Inl (ValueError ''Invalid calendar date''))"

definition expiry_date :: "string \<Rightarrow> instant \<Rightarrow> instant tx" where
  "expiry_date s now = res_bind (parse_date s) (\<lambda>(y, m, d).
     guard (\<not> day_number y m d < wall_day now) (ValueError ''Expiry date cannot be in the past'') (Inr (wall y m d (day - second))))"

definition add_token :: "string \<times> string \<Rightarrow> string list \<times> int \<Rightarrow> (string list \<times> int) tx" where
  "add_token t acc = (let unit = lower (snd t); amount = int_of_digits (fst t) in
     case map_of UNIT_SECONDS unit of
       None \<Rightarrow> Inl (ValueError (''Unknown duration unit: '' @ snd t))
     | Some seconds \<Rightarrow>
         guard (unit \<notin> set (fst acc)) (ValueError (''Duplicate duration unit: '' @ snd t))
         (guard (amount > 0) (ValueError ''Duration component must be positive'')
         (Inr (unit # fst acc, snd acc + amount * seconds))))"

text \<open>\<open>int(now.timestamp())\<close>, which truncates.\<close>

definition timestamp :: "instant \<Rightarrow> int" where
  "timestamp now = (if now \<ge> 0 then now div second else - (- now div second))"

definition expiry_duration :: "string \<Rightarrow> instant \<Rightarrow> instant tx" where
  "expiry_duration s now =
     (let ts = tokens s in
      guard (ts \<noteq> []) (ValueError ''Invalid duration format'')
      (guard (lower (concat (map (\<lambda>(a, u). a @ u) ts)) = lower s) (ValueError ''Invalid characters in duration'')
      (res_bind (res_fold add_token ts ([], 0)) (\<lambda>(_, total).
        guard (total > 0) (ValueError ''Total duration must be positive'')
        (guard (in_range ((timestamp now + total) * second)) (ValueError ''Duration overflow'')
        (Inr ((timestamp now + total) * second)))))))"

definition parse_expiry :: "pyval \<Rightarrow> instant \<Rightarrow> instant tx" where
  "parse_expiry raw now = (case raw of
     PStr r \<Rightarrow>
       (let s = strip r in
        guard (s \<noteq> [] \<and> list_all (\<lambda>c. of_char c < (128::nat)) s) (ValueError ''Invalid expiry format'')
        (if is_date s then expiry_date s now else expiry_duration s now))
   | _ \<Rightarrow> Inl (ValueError ''Expiry input must be a string''))"

section \<open>An expiry is not in the past\<close>

lemma timestamp_floor: "now div second \<le> timestamp now"
  unfolding timestamp_def second_def by (auto simp: zdiv_zminus1_eq_if)

lemma after_now: "0 < n \<Longrightarrow> now < (timestamp now + n) * second"
proof -
  assume "0 < n"
  then have "now div second + 1 \<le> timestamp now + n" using timestamp_floor [of now] by linarith
  then have "(now div second + 1) * second \<le> (timestamp now + n) * second" by (intro mult_right_mono) (simp_all add: second_def)
  moreover have "now < (now div second + 1) * second"
    using euclid_bounds [OF mult_div_mod_eq [of second now]] by (simp add: second_def algebra_simps)
  ultimately show ?thesis by linarith
qed

text \<open>C34. A typed expiry that is over is refused. An accepted duration ends strictly after the present moment. An accepted
  date is today or later in UTC and stands for the last second of its day; only when today's date is typed within that
  last second is the result over already, and then by less than a second.\<close>

theorem parse_expiry_not_past:
  assumes "parse_expiry (PStr r) now = Inr t"
  shows "(if is_date (strip r) then \<exists>k \<ge> now div day. t = k * day + (day - second) else now < t) \<and> now - second < t"
proof -
  have duration: "now < t" if "\<not> is_date (strip r)"
    using assms that by (auto simp: parse_expiry_def expiry_duration_def Let_def res_bind_Inr_iff intro: after_now)
  have date: "\<exists>k \<ge> now div day. t = k * day + (day - second)" if d: "is_date (strip r)"
  proof -
    obtain y m d where t: "t = wall y m d (day - second)" and n: "\<not> day_number y m d < wall_day now"
      using assms d by (auto simp: parse_expiry_def expiry_date_def Let_def res_bind_Inr_iff)
    then show ?thesis by (intro exI [of _ "day_number y m d - EPOCH_DAY"]) (simp_all add: wall_def wall_day_def)
  qed
  have "now - second < k * day + (day - second)" if "now div day \<le> k" for k
  proof -
    have "now div day * day \<le> k * day" using that by (intro mult_right_mono) (simp_all add: less_imp_le)
    moreover have "now < now div day * day + day"
      using euclid_bounds [OF mult_div_mod_eq [of day now]] by (simp add: algebra_simps)
    ultimately show ?thesis by linarith
  qed
  then show ?thesis using duration date by (cases "is_date (strip r)") (auto simp: second_def)
qed

section \<open>Durations are read back in any order\<close>

definition duration_part :: "nat \<times> char \<Rightarrow> string" where
  "duration_part p = nat_str (fst p) @ [snd p]"

definition unit_seconds :: "char \<Rightarrow> int" where
  "unit_seconds u = (case map_of UNIT_SECONDS [u] of Some n \<Rightarrow> n | None \<Rightarrow> 0)"

lemma nat_str_digits: "list_all ascii_digit (nat_str n)"
proof (induction n rule: nat_str.induct)
  case (1 n)
  have digit: "ascii_digit (char_of (48 + k))" if "k < 10" for k :: nat
    using that by (simp add: ascii_digit_def)
  show ?case by (cases "n < 10") (simp_all add: nat_str.simps [of n] digit 1)
qed

lemma nat_str_value: "int_of_digits (nat_str n) = int n"
proof (induction n rule: nat_str.induct)
  case (1 n)
  have digits: "digit_value (char_of (48 + k)) = int k" if "k < 10" for k :: nat
    using that by (simp add: digit_value_def)
  show ?case
  proof (cases "n < 10")
    case True
    then show ?thesis using digits [of n] int_of_digits_snoc [of "[]" "char_of (48 + n)"]
      by (simp add: nat_str.simps [of n] int_of_digits_def)
  next
    case False
    then show ?thesis using 1 digits [of "n mod 10"] by (simp add: nat_str.simps [of n] int_of_digits_snoc) presburger
  qed
qed

lemma nat_str_Cons: "\<exists>c cs. nat_str n = c # cs \<and> ascii_digit c"
proof (cases "nat_str n")
  case Nil
  then show ?thesis by (simp add: nat_str.simps [of n] split: if_splits)
next
  case (Cons c cs)
  then show ?thesis using nat_str_digits [of n] by simp
qed

lemma takeWhile_run: "list_all p xs \<Longrightarrow> \<not> p y \<Longrightarrow> takeWhile p (xs @ y # ys) = xs \<and> dropWhile p (xs @ y # ys) = y # ys"
  by (induction xs) auto

lemma unit_char:
  assumes "u \<in> {CHR ''h'', CHR ''d'', CHR ''m'', CHR ''y''}"
  shows "ascii_alpha u" "\<not> ascii_digit u" "lower [u] = [u]" "\<not> py_space u" "of_char u < (128::nat)" "map_of UNIT_SECONDS [u] = Some (unit_seconds u)" "0 < unit_seconds u"
  using assms by (auto simp: str_simps ascii_alpha_def ascii_upper_def ascii_lower_def ascii_digit_def lower_def lower_char_def py_space_def UNIT_SECONDS_def unit_seconds_def)

lemma digit_char: "ascii_digit c \<Longrightarrow> \<not> ascii_alpha c \<and> \<not> py_space c \<and> of_char c < (128::nat) \<and> c \<noteq> CHR ''-''"
  by (auto simp: ascii_digit_def ascii_alpha_def ascii_upper_def ascii_lower_def py_space_def Let_def)

lemma tokens_Nil [simp]: "tokens [] = []"
  by (simp add: tokens.simps)

lemma tokens_part:
  assumes "u \<in> {CHR ''h'', CHR ''d'', CHR ''m'', CHR ''y''}" and "s = [] \<or> ascii_digit (hd s)"
  shows "tokens (duration_part (n, u) @ s) = (nat_str n, [u]) # tokens s"
proof -
  obtain c cs where c: "nat_str n = c # cs" "ascii_digit c" using nat_str_Cons by blast
  have run: "takeWhile ascii_digit (nat_str n @ u # s) = nat_str n" "dropWhile ascii_digit (nat_str n @ u # s) = u # s"
    using takeWhile_run [OF nat_str_digits unit_char(2) [OF assms(1)]] by simp_all
  have letters: "takeWhile ascii_alpha (u # s) = [u]" "dropWhile ascii_alpha (u # s) = s"
    using assms(2) unit_char(1) [OF assms(1)] digit_char by (cases s; auto)+
  have "dropWhile (\<lambda>c. \<not> ascii_digit c) (nat_str n @ u # s) = nat_str n @ u # s" using c by simp
  then show ?thesis
    using c run letters unfolding tokens.simps [of "duration_part (n, u) @ s"] by (simp add: duration_part_def Let_def)
qed

definition units_ok :: "(nat \<times> char) list \<Rightarrow> bool" where
  "units_ok ps = (list_all (\<lambda>p. 0 < fst p \<and> snd p \<in> {CHR ''h'', CHR ''d'', CHR ''m'', CHR ''y''}) ps \<and> distinct (map snd ps))"

lemma tokens_parts: "units_ok ps \<Longrightarrow> tokens (concat (map duration_part ps)) = map (\<lambda>p. (nat_str (fst p), [snd p])) ps"
proof (induction ps)
  case (Cons p ps)
  have "concat (map duration_part ps) = [] \<or> ascii_digit (hd (concat (map duration_part ps)))"
  proof (cases ps)
    case (Cons q qs)
    obtain c cs where "nat_str (fst q) = c # cs" "ascii_digit c" using nat_str_Cons by blast
    with Cons show ?thesis by (simp add: duration_part_def)
  qed simp
  with tokens_part [of "snd p" "concat (map duration_part ps)" "fst p"] Cons show ?case by (simp add: units_ok_def)
qed simp

lemma add_tokens:
  "units_ok ps \<Longrightarrow> set (map (\<lambda>p. [snd p]) ps) \<inter> set seen = {}
   \<Longrightarrow> \<exists>seen'. res_fold add_token (map (\<lambda>p. (nat_str (fst p), [snd p])) ps) (seen, acc)
      = Inr (seen', acc + sum_list (map (\<lambda>p. int (fst p) * unit_seconds (snd p)) ps))"
proof (induction ps arbitrary: seen acc)
  case (Cons p ps)
  note u = unit_char [of "snd p"]
  have "add_token (nat_str (fst p), [snd p]) (seen, acc) = Inr ([snd p] # seen, acc + int (fst p) * unit_seconds (snd p))"
    using Cons.prems u by (auto simp: add_token_def units_ok_def nat_str_value)
  moreover have "units_ok ps" "set (map (\<lambda>p. [snd p]) ps) \<inter> set ([snd p] # seen) = {}" using Cons.prems by (auto simp: units_ok_def)
  ultimately show ?case using Cons.IH [of "[snd p] # seen" "acc + int (fst p) * unit_seconds (snd p)"] by (simp add: add.assoc)
qed simp

lemma parts_chars:
  assumes "units_ok ps" and "c \<in> set (concat (map duration_part ps))"
  shows "\<not> py_space c" "of_char c < (128::nat)" "c \<noteq> CHR ''-''"
proof -
  have "ascii_digit c \<or> c \<in> {CHR ''h'', CHR ''d'', CHR ''m'', CHR ''y''}"
  proof -
    obtain p where p: "p \<in> set ps" "c \<in> set (nat_str (fst p)) \<or> c = snd p" using assms(2) by (auto simp: duration_part_def)
    with assms(1) nat_str_digits [of "fst p"] show ?thesis by (auto simp: units_ok_def list_all_iff)
  qed
  then consider "ascii_digit c" | "c \<in> {CHR ''h'', CHR ''d'', CHR ''m'', CHR ''y''}" by blast
  then have "\<not> py_space c \<and> of_char c < (128::nat) \<and> c \<noteq> CHR ''-''"
  proof cases
    case 1
    with digit_char show ?thesis by blast
  next
    case 2
    from unit_char(4,5) [OF 2] 2 show ?thesis by auto
  qed
  then show "\<not> py_space c" "of_char c < (128::nat)" "c \<noteq> CHR ''-''" by blast+
qed

text \<open>Durations are read back, in any order. A text made of amounts with the units hours, days, months and years, each
  used once and in any order, is accepted and ends exactly the sum of its parts after the present second, whenever that
  moment is within the calendar.\<close>

theorem parse_expiry_durations:
  assumes ok: "units_ok ps" "ps \<noteq> []"
    and range: "in_range ((timestamp now + sum_list (map (\<lambda>p. int (fst p) * unit_seconds (snd p)) ps)) * second)"
  shows "parse_expiry (PStr (concat (map duration_part ps))) now
    = Inr ((timestamp now + sum_list (map (\<lambda>p. int (fst p) * unit_seconds (snd p)) ps)) * second)"
proof -
  let ?s = "concat (map duration_part ps)" and ?n = "sum_list (map (\<lambda>p. int (fst p) * unit_seconds (snd p)) ps)"
  note chars = parts_chars [OF ok(1)]
  have strip: "strip ?s = ?s" using chars(1) by (intro strip_no_space) (simp add: list_all_iff)
  have ascii: "list_all (\<lambda>c. of_char c < (128::nat)) ?s" using chars(2) by (simp add: list_all_iff)
  have "split_on CHR ''-'' ?s = [?s]" using chars(3) by (intro split_on_no_sep) blast
  then have date: "\<not> is_date ?s" by (cases "list_all ascii_digit ?s") (simp_all add: is_date_def)
  have "?s \<noteq> []" using ok(2) by (cases ps) (simp_all add: duration_part_def)
  obtain seen where fold: "res_fold add_token (tokens ?s) ([], 0) = Inr (seen, ?n)"
    using add_tokens [OF ok(1), of "[]" 0] tokens_parts [OF ok(1)] by auto
  have "0 < ?n"
  proof -
    have "\<forall>p \<in> set ps. 0 < int (fst p) * unit_seconds (snd p)" using ok(1) unit_char(7) by (auto simp: units_ok_def list_all_iff)
    then have pos: "0 < x" if "x \<in> set (map (\<lambda>p. int (fst p) * unit_seconds (snd p)) ps)" for x using that by auto
    then show ?thesis
    proof (cases ps)
      case (Cons p qs)
      have "0 \<le> sum_list (map (\<lambda>p. int (fst p) * unit_seconds (snd p)) qs)" using pos Cons by (intro sum_list_nonneg) (auto intro: less_imp_le)
      with pos [of "int (fst p) * unit_seconds (snd p)"] Cons show ?thesis by simp
    qed (use ok(2) in simp)
  qed
  moreover have "concat (map (\<lambda>(a, u). a @ u) (tokens ?s)) = ?s"
    unfolding tokens_parts [OF ok(1)] by (simp add: duration_part_def [abs_def] comp_def)
  moreover have "tokens ?s \<noteq> []" using ok tokens_parts by simp
  ultimately have "expiry_duration ?s now = Inr ((timestamp now + ?n) * second)"
    using fold range by (simp add: expiry_duration_def Let_def)
  then show ?thesis using strip ascii date \<open>?s \<noteq> []\<close> by (simp add: parse_expiry_def Let_def)
qed

section \<open>Witnesses\<close>

theorem parse_expiry_not_past_witness: "\<exists>t k. parse_expiry (PStr '' 1970-01-02 '') (day + 5) = Inr t \<and> 1 \<le> k \<and> t = k * day + (day - second)"
proof -
  define r where "r = parse_expiry (PStr '' 1970-01-02 '') (day + 5)"
  have "is_ok r" "is_date (strip '' 1970-01-02 '')" "(day + 5) div day = 1" unfolding r_def by code_simp+
  then obtain t where t: "r = Inr t" by (auto simp: is_ok_iff)
  with parse_expiry_not_past [OF t [unfolded r_def]] \<open>is_date _\<close> \<open>(day + 5) div day = 1\<close> show ?thesis unfolding r_def by auto
qed

theorem parse_expiry_durations_witness:
  "parse_expiry (PStr (concat (map duration_part [(3, CHR ''d''), (5, CHR ''h'')]))) (7 * second) = Inr ((7 + 3 * 86400 + 5 * 3600) * second)"
proof -
  have "units_ok [(3, CHR ''d''), (5, CHR ''h'')]" by code_simp
  moreover have "in_range ((timestamp (7 * second) + sum_list (map (\<lambda>p. int (fst p) * unit_seconds (snd p)) [(3, CHR ''d''), (5, CHR ''h'')])) * second)"
    by code_simp
  moreover have "timestamp (7 * second) + sum_list (map (\<lambda>p. int (fst p) * unit_seconds (snd p)) [(3, CHR ''d''), (5, CHR ''h'')]) = 7 + 3 * 86400 + 5 * 3600"
    by code_simp
  ultimately show ?thesis using parse_expiry_durations [of "[(3, CHR ''d''), (5, CHR ''h'')]" "7 * second"] by (simp only:) simp
qed

end
