(* ===== verification/Executor.thy ===== *)
theory Executor
  imports Profile_Commands "HOL-Library.Sublist"
begin

text \<open>
  \<^verbatim>\<open>IntentExecutor\<close> of \<^verbatim>\<open>app/backend/executor.py\<close>: the single worker that carries the tasks of the outbox to the nodes.
  A task is claimed in one transaction, sent to the driver outside any transaction, and its outcome is written in
  another; a crash in between leaves it blocked, and a blocked task fences its node until the outcome is known. The
  driver is an argument; \<open>isoformat\<close> is \<open>datetime.isoformat\<close>. Services of the worker other than the executor are not modelled.
\<close>

section \<open>State\<close>

text \<open>What the driver answers: whether the operation succeeded, its id at the driver and its result, or an exception
  with the code \<open>failure_code\<close> gives it.\<close>

datatype outcome = Answered bool "string option" "string option" | Failed string

type_synonym observation = "(string \<times> pyval) list"

record repair_row =
  rr_task :: string
  rr_actor :: string
  rr_operation :: string
  rr_observation :: observation
  rr_created_at :: instant

text \<open>The services' tables, and those only the worker uses: the kind of each update job, the status of the settings
  tasks and jobs of nodes, the operations that restore jobs wait for, the restore jobs that are blocked while revoking,
  the repairs, and the results and inspections of tasks.\<close>

record worker =
  wk_db :: db
  wk_update_kinds :: "(string \<times> string) list"
  wk_settings_tasks :: "(string \<times> string) list"
  wk_node_jobs :: "(string \<times> string) list"
  wk_revocations :: "(string \<times> string) list"
  wk_revoking :: "string list"
  wk_repairs :: "repair_row list"
  wk_results :: "(string \<times> string option \<times> string option) list"
  wk_inspections :: "(string \<times> observation \<times> instant) list"

definition core_upgrade :: "worker \<Rightarrow> bool" where
  "core_upgrade w = (case update_gate (wk_db w) of None \<Rightarrow> False | Some j \<Rightarrow> map_of (wk_update_kinds w) j = Some ''version'')"

definition set_status :: "(task_row \<Rightarrow> bool) \<Rightarrow> op_status \<Rightarrow> db \<Rightarrow> db" where
  "set_status p st d = d\<lparr>tasks := update_where p (\<lambda>t. t\<lparr>tk_status := st\<rparr>) (tasks d)\<rparr>"

definition set_operation :: "(operation_row \<Rightarrow> bool) \<Rightarrow> op_status \<Rightarrow> db \<Rightarrow> db" where
  "set_operation p st d = d\<lparr>operations := update_where p (\<lambda>r. r\<lparr>op_status := st\<rparr>) (operations d)\<rparr>"

section \<open>Recovery and expiry\<close>

definition recover :: "worker \<Rightarrow> worker" where
  "recover w = w\<lparr>wk_db := set_operation (\<lambda>r. op_status r = Running) OpBlocked (set_status (\<lambda>t. tk_status t = Running) OpBlocked (wk_db w))\<rparr>"











section \<open>Tasks\<close>

definition operation_state :: "op_status set \<Rightarrow> op_status" where
  "operation_state states = (if OpBlocked \<in> states then OpBlocked else if Running \<in> states then Running
     else if Awaiting \<in> states then Awaiting else if Superseded \<in> states then Superseded else Succeeded)"

definition refresh_operation :: "string \<Rightarrow> db \<Rightarrow> db" where
  "refresh_operation operation_id d =
     settle_accounts (settle_deletions (set_operation (\<lambda>r. op_id r = operation_id)
       (operation_state (tk_status ` {t \<in> set (tasks d). tk_operation t = operation_id})) d))"

definition node_lacks :: "db \<Rightarrow> string \<Rightarrow> protocol \<Rightarrow> bool" where
  "node_lacks d node p = (\<exists>n \<in> set (nodes d). nd_key n = node \<and> p \<notin> set (nd_protocols n))"

text \<open>The node waits for its settings to be applied and serves the protocol.\<close>

definition awaits_settings :: "db \<Rightarrow> string \<Rightarrow> protocol \<Rightarrow> bool" where
  "awaits_settings d node p = (\<exists>n \<in> set (nodes d). nd_key n = node \<and> 0 < nd_applied_revision n
     \<and> nd_applied_revision n \<noteq> nd_desired_revision n \<and> p \<in> set (nd_protocols n))"

definition settings_fence :: "worker \<Rightarrow> task_row \<Rightarrow> bool" where
  "settings_fence w t = (\<exists>s \<in> set (wk_settings_tasks w). fst s = tk_node t
     \<and> (snd s \<in> {''running'', ''blocked''} \<or> snd s = ''awaiting_executor'' \<and> \<not> node_lacks (wk_db w) (tk_node t) (tk_protocol t)))"

definition job_fence :: "worker \<Rightarrow> task_row \<Rightarrow> bool" where
  "job_fence w t = (\<exists>j \<in> set (wk_node_jobs w). fst j = tk_node t \<and> snd j \<in> {''awaiting_executor'', ''running'', ''blocked''})"

definition node_busy :: "db \<Rightarrow> string \<Rightarrow> bool" where
  "node_busy d node = (\<exists>b \<in> set (tasks d). tk_node b = node \<and> tk_status b \<in> {Running, OpBlocked})"

text \<open>An earlier revision of the profile on the node is unfinished. A removal of a protocol the node no longer has may pass
  work of other protocols that still waits.\<close>

definition held_back :: "db \<Rightarrow> task_row \<Rightarrow> operation_row \<Rightarrow> bool" where
  "held_back d t r = (\<exists>u \<in> set (tasks d). (case find_operation d (tk_operation u) of
       None \<Rightarrow> False
     | Some q \<Rightarrow> op_profile q = op_profile r \<and> op_desired_revision q < op_desired_revision r)
     \<and> tk_node u = tk_node t \<and> tk_status u \<notin> {Succeeded, Superseded}
     \<and> \<not> (tk_action t = Delete \<and> tk_protocol u \<noteq> tk_protocol t \<and> tk_status u = Awaiting \<and> node_lacks d (tk_node t) (tk_protocol t)))"

definition runnable :: "worker \<Rightarrow> task_row \<Rightarrow> operation_row \<Rightarrow> bool" where
  "runnable w t r = (let d = wk_db w in tk_status t = Awaiting
     \<and> (tk_action t = Delete \<or> \<not> awaits_settings d (tk_node t) (tk_protocol t))
     \<and> \<not> settings_fence w t \<and> \<not> job_fence w t \<and> \<not> node_busy d (tk_node t) \<and> \<not> held_back d t r)"

definition runnable_tasks :: "worker \<Rightarrow> (task_row \<times> operation_row) list" where
  "runnable_tasks w = concat (map (\<lambda>t. case find_operation (wk_db w) (tk_operation t) of
     None \<Rightarrow> [] | Some r \<Rightarrow> if runnable w t r then [(t, r)] else []) (tasks (wk_db w)))"

definition next_task :: "worker \<Rightarrow> task_row option" where
  "next_task w = (case order_by (\<lambda>x. (op_created_at (snd x), op_id (snd x), tk_id (fst x))) (runnable_tasks w) of
     [] \<Rightarrow> None | x # _ \<Rightarrow> Some (fst x))"

text \<open>An installation that no longer applies: its node is gone or disabled or lacks the protocol, or its device is not active.\<close>

definition obsolete :: "db \<Rightarrow> task_row \<Rightarrow> bool" where
  "obsolete d t = (tk_action t = Ensure
     \<and> ((case find_node d (tk_node t) of None \<Rightarrow> True | Some n \<Rightarrow> \<not> nd_enabled n \<or> tk_protocol t \<notin> set (nd_protocols n))
        \<or> tk_device t \<noteq> [] \<and> (case find (\<lambda>v. dv_id v = tk_device t) (devices d) of None \<Rightarrow> True | Some v \<Rightarrow> dv_status v \<noteq> DevActive)))"

datatype claim = Nothing | Retired | Claimed task_row

definition claim_task :: "worker \<Rightarrow> worker \<times> claim" where
  "claim_task w0 =
     (let w = w0\<lparr>wk_db := (wk_db w0)\<lparr>account_guard := account_guard (wk_db w0) + 1\<rparr>\<rparr>; d = wk_db w in
      if core_upgrade w then (w, Nothing)
      else case next_task w of
        None \<Rightarrow> (w, Nothing)
      | Some t \<Rightarrow>
          if obsolete d t then (w\<lparr>wk_db := refresh_operation (tk_operation t) (set_status (\<lambda>u. tk_id u = tk_id t) Superseded d)\<rparr>, Retired)
          else (w\<lparr>wk_db := set_operation (\<lambda>r. op_id r = tk_operation t) Running
                  (set_status (\<lambda>u. tk_id u = tk_id t \<and> tk_status u = Awaiting) Running d)\<rparr>, Claimed t))"

definition intent_expired :: "instant \<Rightarrow> task_row \<Rightarrow> bool" where
  "intent_expired now t = (in_action (tk_intent t) = Ensure \<and> (case in_expires_at (tk_intent t) of None \<Rightarrow> False | Some x \<Rightarrow> x \<le> now))"

definition outcome_status :: "outcome \<Rightarrow> op_status" where
  "outcome_status x = (case x of Answered ok _ _ \<Rightarrow> if ok then Succeeded else OpBlocked | Failed _ \<Rightarrow> OpBlocked)"

definition outcome_result :: "outcome \<Rightarrow> string option \<times> string option" where
  "outcome_result x = (case x of Answered _ i r \<Rightarrow> (i, r) | Failed code \<Rightarrow> (None, Some (''{\"error_code\": \"'' @ code @ ''\"}'')))"

definition finish_task :: "task_row \<Rightarrow> outcome \<Rightarrow> worker \<Rightarrow> worker" where
  "finish_task t x w = (let d = wk_db w; running = (\<lambda>u. tk_id u = tk_id t \<and> tk_status u = Running) in
     w\<lparr>wk_db := refresh_operation (tk_operation t) (set_status running (outcome_status x) d),
       wk_results := (if \<exists>u \<in> set (tasks d). running u then dict_set (tk_id t) (outcome_result x) (wk_results w) else wk_results w)\<rparr>)"

definition run_one :: "(string \<Rightarrow> intent \<Rightarrow> outcome) \<Rightarrow> instant \<Rightarrow> worker \<Rightarrow> worker \<times> bool" where
  "run_one execute now w = (case claim_task w of
     (w1, Nothing) \<Rightarrow> (w1, False)
   | (w1, Retired) \<Rightarrow> (w1, True)
   | (w1, Claimed t) \<Rightarrow> (finish_task t (if intent_expired now t then Answered False None None else execute (tk_id t) (tk_intent t)) w1, True))"

section \<open>Repair\<close>

text \<open>A blocked task whose success the driver's journal confirms.\<close>

definition reconcile_task :: "(string \<Rightarrow> intent \<Rightarrow> outcome) \<Rightarrow> task_row \<Rightarrow> worker \<times> nat \<Rightarrow> worker \<times> nat" where
  "reconcile_task lookup t acc = (let w = fst acc; d = wk_db w; blocked = (\<lambda>u. tk_id u = tk_id t \<and> tk_status u = OpBlocked) in
     case lookup (tk_id t) (tk_intent t) of
       Answered True i r \<Rightarrow>
         if \<exists>u \<in> set (tasks d). blocked u
         then (w\<lparr>wk_db := refresh_operation (tk_operation t) (set_status blocked Succeeded d),
                 wk_results := dict_set (tk_id t) (i, r) (wk_results w)\<rparr>, Suc (snd acc))
         else acc
     | _ \<Rightarrow> acc)"

definition blocked_tasks :: "db \<Rightarrow> task_row list" where
  "blocked_tasks d = filter (\<lambda>t. tk_status t = OpBlocked) (tasks d)"

definition reconcile_completed :: "(string \<Rightarrow> intent \<Rightarrow> outcome) \<Rightarrow> worker \<Rightarrow> worker \<times> nat" where
  "reconcile_completed lookup w = fold (reconcile_task lookup) (order_by tk_id (blocked_tasks (wk_db w))) (w, 0)"

definition OBSERVED :: "string set" where "OBSERVED = {''disk_present'', ''live_present'', ''identity_matches'', ''config_available''}"

definition observation_ok :: "observation \<Rightarrow> bool" where
  "observation_ok x = (fst ` set x = OBSERVED \<and> (\<forall>kv \<in> set x. case snd kv of PBool _ \<Rightarrow> True | _ \<Rightarrow> False))"

definition inspect_blocked :: "(intent \<Rightarrow> observation option) \<Rightarrow> instant \<Rightarrow> worker \<Rightarrow> worker \<times> nat" where
  "inspect_blocked inspect now w = fold (\<lambda>t (w, n).
     (case inspect (tk_intent t) of
        Some x \<Rightarrow> if observation_ok x
          then (w\<lparr>wk_inspections := dict_set (tk_id t) ((''available'', PBool True) # x, now) (wk_inspections w)\<rparr>, Suc n)
          else (w\<lparr>wk_inspections := dict_set (tk_id t) ([(''available'', PBool False)], now) (wk_inspections w)\<rparr>, n)
      | None \<Rightarrow> (w\<lparr>wk_inspections := dict_set (tk_id t) ([(''available'', PBool False)], now) (wk_inspections w)\<rparr>, n)))
     (blocked_tasks (wk_db w)) (w, 0)"

text \<open>The unfinished tasks of the profile on the node.\<close>

definition stuck :: "db \<Rightarrow> string \<Rightarrow> string \<Rightarrow> task_row \<Rightarrow> bool" where
  "stuck d profile_id node t = (tk_node t = node \<and> tk_status t \<in> {Awaiting, OpBlocked}
     \<and> (case find_operation d (tk_operation t) of None \<Rightarrow> False | Some r \<Rightarrow> op_profile r = profile_id))"

definition set_deletion_operation :: "string \<Rightarrow> string \<Rightarrow> db \<Rightarrow> db" where
  "set_deletion_operation profile_id operation_id d = (if profile_id \<in> set (profile_deletions d)
     then d\<lparr>deletion_operations := dict_set profile_id operation_id (deletion_operations d)\<rparr> else d)"

text \<open>Restore jobs that wait for a retired operation wait for its replacement.\<close>

definition replace_revocation :: "string \<Rightarrow> string \<Rightarrow> worker \<Rightarrow> worker" where
  "replace_revocation operation_id old w =
     (let parents = map fst (filter (\<lambda>b. snd b = old \<and> fst b \<in> set (wk_revoking w)) (wk_revocations w)) in
      w\<lparr>wk_revocations := fold (\<lambda>j bs. filter (\<lambda>b. b \<noteq> (j, old)) (if (j, operation_id) \<in> set bs then bs else bs @ [(j, operation_id)])) parents (wk_revocations w)\<rparr>)"

definition retire_stuck :: "string \<Rightarrow> string \<Rightarrow> db \<Rightarrow> db \<times> string list" where
  "retire_stuck profile_id node d =
     (let affected = remdups (map tk_operation (filter (stuck d profile_id node) (tasks d))) in
      (fold refresh_operation affected (set_status (stuck d profile_id node) Superseded d), affected))"

definition repair_task :: "actor \<Rightarrow> task_row \<Rightarrow> string \<Rightarrow> observation \<Rightarrow> instant \<Rightarrow> worker \<Rightarrow> (worker \<times> string \<times> observation) tx" where
  "repair_task actor t profile_id x now w =
     guard (\<exists>u \<in> set (tasks (wk_db w)). tk_id u = tk_id t \<and> tk_status u = OpBlocked) (AccessDenied ''repair_conflict'' 409)
     (let (d1, affected) = retire_stuck profile_id (tk_node t) (wk_db w) in
      guard (profile_id \<in> pf_id ` set (profiles d1)) (AccessDenied ''resource_not_found'' 404)
      (let d2 = Devices.bump_revision profile_id d1 in
       res_bind (record_operation (ac_id (actor_account actor)) profile_id (profile_targets d2 profile_id) None now d2) (\<lambda>(d3, i, st).
         (let w1 = fold (replace_revocation i) affected (w\<lparr>wk_db := settle_accounts (set_deletion_operation profile_id i d3)\<rparr>) in
          Inr (w1\<lparr>wk_repairs := wk_repairs w1 @ [\<lparr>rr_task = tk_id t, rr_actor = ac_id (actor_account actor), rr_operation = i,
                   rr_observation = x, rr_created_at = now\<rparr>]\<rparr>, i, x)))))"

definition resolve_blocked :: "(string \<Rightarrow> intent \<Rightarrow> observation tx) \<Rightarrow> actor \<Rightarrow> string \<Rightarrow> instant \<Rightarrow> worker \<Rightarrow> (worker \<times> string \<times> observation) tx" where
  "resolve_blocked resolve actor task_id now w =
     res_bind (require_permission actor ''maintenance.manage'') (\<lambda>_.
     (case find (\<lambda>t. tk_id t = task_id) (tasks (wk_db w)) of
        None \<Rightarrow> Inl (AccessDenied ''resource_not_found'' 404)
      | Some t \<Rightarrow>
     (case find_operation (wk_db w) (tk_operation t) of
        None \<Rightarrow> Inl (AccessDenied ''resource_not_found'' 404)
      | Some r \<Rightarrow>
     (case find (\<lambda>q. rr_task q = task_id) (wk_repairs w) of
        Some q \<Rightarrow> Inr (w, rr_operation q, rr_observation q)
      | None \<Rightarrow>
          guard (tk_status t = OpBlocked) (AccessDenied ''task_not_blocked'' 409)
          (res_bind (resolve task_id (tk_intent t)) (\<lambda>x.
           guard (observation_ok x) (ValueError ''invalid repair observation'') (repair_task actor t (op_profile r) x now w)))))))"

section \<open>What the worker may do to the outbox\<close>

lemma settle_deletions_outbox [simp]:
  "tasks (settle_deletions d) = tasks d" "operations (settle_deletions d) = operations d" "profiles (settle_deletions d) = profiles d"
  unfolding settle_deletions_def settle_retired_peers_fields by (rule fold_frame, simp)+

lemma settle_accounts_outbox [simp]:
  "tasks (settle_accounts d) = tasks d" "operations (settle_accounts d) = operations d" "profiles (settle_accounts d) = profiles d"
  unfolding settle_accounts_def by (rule fold_frame, simp add: complete_deletion_def Accounts.bump_revision_def Let_def)+

lemma refresh_operation_outbox:
  "tasks (refresh_operation i d) = tasks d" "profiles (refresh_operation i d) = profiles d"
  "map (\<lambda>r. (op_id r, op_profile r, op_desired_revision r)) (operations (refresh_operation i d)) = map (\<lambda>r. (op_id r, op_profile r, op_desired_revision r)) (operations d)"
  by (simp_all add: refresh_operation_def set_operation_def map_update_where)

text \<open>A task apart from its status.\<close>

definition frame :: "task_row \<Rightarrow> task_row" where
  "frame t = t\<lparr>tk_status := Awaiting\<rparr>"

lemma frame_simps [simp]:
  "tk_id (frame t) = tk_id t" "tk_operation (frame t) = tk_operation t" "tk_node (frame t) = tk_node t" "tk_protocol (frame t) = tk_protocol t"
  "frame (t\<lparr>tk_status := st\<rparr>) = frame t" "frame (frame t) = frame t"
  by (simp_all add: frame_def)

lemma frame_fields:
  "frame t = frame u \<Longrightarrow> tk_id t = tk_id u \<and> tk_operation t = tk_operation u \<and> tk_node t = tk_node u \<and> tk_protocol t = tk_protocol u"
  by (metis frame_simps(1-4))

text \<open>A status only advances: waiting, running, blocked, done.\<close>

definition stage :: "op_status \<Rightarrow> nat" where
  "stage st = (case st of Awaiting \<Rightarrow> 0 | Running \<Rightarrow> 1 | OpBlocked \<Rightarrow> 2 | _ \<Rightarrow> 3)"

definition settles :: "op_status \<Rightarrow> op_status \<Rightarrow> bool" where
  "settles a b = (a = b \<or> stage a < stage b)"

definition operation_keys :: "db \<Rightarrow> (string \<times> string \<times> int) list" where
  "operation_keys d = map (\<lambda>r. (op_id r, op_profile r, op_desired_revision r)) (operations d)"

definition moves :: "db \<Rightarrow> db \<Rightarrow> bool" where
  "moves d e = ((\<exists>f. tasks e = map (\<lambda>t. t\<lparr>tk_status := f t\<rparr>) (tasks d) \<and> (\<forall>t \<in> set (tasks d). settles (tk_status t) (f t)))
     \<and> operation_keys e = operation_keys d \<and> profiles e = profiles d)"

lemma settles_refl [simp]: "settles a a" by (simp add: settles_def)

lemma moves_same: "tasks e = tasks d \<Longrightarrow> operation_keys e = operation_keys d \<Longrightarrow> profiles e = profiles d \<Longrightarrow> moves d e"
  unfolding moves_def by (intro conjI exI [of _ tk_status]) simp_all

lemma set_operation_moves: "moves d (set_operation p st d)"
  by (rule moves_same) (simp_all add: set_operation_def operation_keys_def map_update_where)

lemma refresh_operation_moves: "moves d (refresh_operation i d)"
  by (rule moves_same) (simp_all add: refresh_operation_outbox operation_keys_def)

lemma set_status_moves:
  assumes "\<And>t. t \<in> set (tasks d) \<Longrightarrow> p t \<Longrightarrow> settles (tk_status t) st"
  shows "moves d (set_status p st d)"
  unfolding moves_def
proof (intro conjI exI [of _ "\<lambda>t. if p t then st else tk_status t"])
  show "tasks (set_status p st d) = map (\<lambda>t. t\<lparr>tk_status := if p t then st else tk_status t\<rparr>) (tasks d)"
    by (simp add: set_status_def update_where_def)
qed (use assms in \<open>simp_all add: set_status_def operation_keys_def\<close>)

lemma settles_trans: "settles a b \<Longrightarrow> settles b c \<Longrightarrow> settles a c"
  by (auto simp: settles_def)

lemma moves_trans:
  assumes "moves d e" and "moves e f" shows "moves d f"
proof -
  obtain g h where g: "tasks e = map (\<lambda>t. t\<lparr>tk_status := g t\<rparr>) (tasks d)" "\<forall>t \<in> set (tasks d). settles (tk_status t) (g t)"
    and h: "tasks f = map (\<lambda>t. t\<lparr>tk_status := h t\<rparr>) (tasks e)" "\<forall>t \<in> set (tasks e). settles (tk_status t) (h t)"
    using assms unfolding moves_def by blast
  have "settles (tk_status t) (h (t\<lparr>tk_status := g t\<rparr>))" if "t \<in> set (tasks d)" for t
    using g h(2) that by (auto intro: settles_trans)
  moreover have "tasks f = map (\<lambda>t. t\<lparr>tk_status := h (t\<lparr>tk_status := g t\<rparr>)\<rparr>) (tasks d)" by (simp add: h(1) g(1))
  moreover have "operation_keys f = operation_keys d" "profiles f = profiles d" using assms by (simp_all add: moves_def)
  ultimately show ?thesis unfolding moves_def by (intro conjI exI [of _ "\<lambda>t. h (t\<lparr>tk_status := g t\<rparr>)"]) auto
qed

lemma fold_moves: "(\<And>x d. moves d (f x d)) \<Longrightarrow> moves d (fold f xs d)"
  by (induction xs arbitrary: d) (auto intro: moves_same moves_trans)

lemma moves_frames: "moves d e \<Longrightarrow> map frame (tasks e) = map frame (tasks d)"
  by (auto simp: moves_def)

lemma moves_task:
  assumes "moves d e" and "u \<in> set (tasks e)"
  obtains t where "t \<in> set (tasks d)" "frame t = frame u" "settles (tk_status t) (tk_status u)"
  using assms by (auto simp: moves_def)

text \<open>The worker's operations on the outbox.\<close>

lemma recover_moves: "moves (wk_db w) (wk_db (recover w))"
proof -
  have "moves (wk_db w) (set_status (\<lambda>t. tk_status t = Running) OpBlocked (wk_db w))" by (rule set_status_moves) (simp add: settles_def stage_def)
  then show ?thesis unfolding recover_def by (auto intro: moves_trans set_operation_moves)
qed

lemma finish_task_moves: "moves (wk_db w) (wk_db (finish_task t x w))"
proof -
  have "moves (wk_db w) (set_status (\<lambda>u. tk_id u = tk_id t \<and> tk_status u = Running) (outcome_status x) (wk_db w))"
    by (rule set_status_moves) (auto simp: settles_def stage_def outcome_status_def split: outcome.splits)
  then show ?thesis unfolding finish_task_def Let_def by (auto intro: moves_trans refresh_operation_moves)
qed

lemma reconcile_task_moves: "moves (wk_db (fst acc)) (wk_db (fst (reconcile_task lookup t acc)))"
proof -
  have "moves (wk_db (fst acc)) (set_status (\<lambda>u. tk_id u = tk_id t \<and> tk_status u = OpBlocked) Succeeded (wk_db (fst acc)))"
    by (rule set_status_moves) (auto simp: settles_def stage_def)
  then have "moves (wk_db (fst acc)) (refresh_operation (tk_operation t) (set_status (\<lambda>u. tk_id u = tk_id t \<and> tk_status u = OpBlocked) Succeeded (wk_db (fst acc))))"
    using refresh_operation_moves moves_trans by blast
  then show ?thesis by (auto simp: reconcile_task_def Let_def intro: moves_same split: outcome.splits bool.splits)
qed

lemma retire_stuck_moves: "moves d (fst (retire_stuck profile_id node d))"
proof -
  have "moves d (set_status (stuck d profile_id node) Superseded d)" by (rule set_status_moves) (auto simp: stuck_def settles_def stage_def)
  then show ?thesis unfolding retire_stuck_def Let_def fst_conv by (rule moves_trans) (rule fold_moves, rule refresh_operation_moves)
qed

text \<open>Others append operations, whose revisions are not behind those the profile has had, with new tasks that wait.\<close>

definition enqueues :: "db \<Rightarrow> db \<Rightarrow> bool" where
  "enqueues d e = (\<exists>ts rs. tasks e = tasks d @ ts \<and> operations e = operations d @ rs
     \<and> (\<forall>t \<in> set ts. tk_status t = Awaiting \<and> (\<exists>r \<in> set rs. tk_operation t = op_id r))
     \<and> (\<forall>r \<in> set rs. \<forall>q \<in> set (operations d). op_profile q = op_profile r \<longrightarrow> op_desired_revision q \<le> op_desired_revision r))"

text \<open>The tables' keys and references, and that no operation is ahead of its profile.\<close>

definition outbox_wf :: "db \<Rightarrow> bool" where
  "outbox_wf d = (distinct (map tk_id (tasks d)) \<and> distinct (map fst (operation_keys d)) \<and> distinct (map pf_id (profiles d))
     \<and> tk_operation ` set (tasks d) \<subseteq> fst ` set (operation_keys d)
     \<and> (\<forall>k \<in> set (operation_keys d). \<forall>p \<in> set (profiles d). pf_id p = fst (snd k) \<longrightarrow> snd (snd k) \<le> pf_desired_revision p))"

section \<open>The worker as a machine\<close>

text \<open>Where the worker is: between tasks, with a task claimed and not yet sent, or with a task sent. The third component of
  a state is every task sent to the driver so far.\<close>

datatype phase = Idle | Holding task_row | Sending task_row

type_synonym machine = "worker \<times> phase \<times> task_row list"

definition phase_of :: "claim \<Rightarrow> phase" where
  "phase_of c = (case c of Claimed t \<Rightarrow> Holding (frame t) | _ \<Rightarrow> Idle)"

text \<open>The steps. A crash loses where the worker was, and it recovers on starting. A repair runs under the worker's lock,
  so between tasks; an id that is taken would violate a primary key and undo it. Everything else may change at any time
  as long as it only appends to the outbox.\<close>

inductive exec_step :: "machine \<Rightarrow> machine \<Rightarrow> bool" where
  claimed: "claim_task w = (w', c) \<Longrightarrow> exec_step (w, Idle, sent) (w', phase_of c, sent)"
| sent: "\<not> intent_expired now t \<Longrightarrow> exec_step (w, Holding t, sent) (w, Sending t, sent @ [t])"
| finished: "ph \<in> {Holding t, Sending t} \<Longrightarrow> exec_step (w, ph, sent) (finish_task t x w, Idle, sent)"
| crashed: "exec_step (w, ph, sent) (recover w, Idle, sent)"
| confirmed: "exec_step (w, Idle, sent) (fst (reconcile_completed lookup w), Idle, sent)"
| resolved: "resolve_blocked resolve actor i now w = Inr (w', r) \<Longrightarrow> distinct (map tk_id (tasks (wk_db w'))) \<Longrightarrow> distinct (map op_id (operations (wk_db w')))
    \<Longrightarrow> exec_step (w, Idle, sent) (w', Idle, sent)"
| others: "enqueues (wk_db w) (wk_db w') \<Longrightarrow> outbox_wf (wk_db w') \<Longrightarrow> exec_step (w, ph, sent) (w', ph, sent)"

inductive_cases exec_stepE: "exec_step m m'"

text \<open>The profile and revision a task is for.\<close>

definition job :: "db \<Rightarrow> task_row \<Rightarrow> (string \<times> int) option" where
  "job d t = map_option (\<lambda>r. (op_profile r, op_desired_revision r)) (find_operation d (tk_operation t))"

definition same_lane :: "db \<Rightarrow> task_row \<Rightarrow> task_row \<Rightarrow> bool" where
  "same_lane d t u = (tk_node t = tk_node u \<and> tk_protocol t = tk_protocol u \<and> map_option fst (job d t) = map_option fst (job d u))"

definition revision_of :: "db \<Rightarrow> task_row \<Rightarrow> int" where
  "revision_of d t = (case job d t of None \<Rightarrow> 0 | Some x \<Rightarrow> snd x)"

definition precedes :: "db \<Rightarrow> task_row \<Rightarrow> task_row \<Rightarrow> bool" where
  "precedes d t u = (same_lane d t u \<longrightarrow> revision_of d t \<le> revision_of d u)"

text \<open>Every earlier revision of the task's profile on its node and protocol is done with.\<close>

definition cleared :: "db \<Rightarrow> task_row \<Rightarrow> bool" where
  "cleared d t = (\<forall>u \<in> set (tasks d). same_lane d t u \<and> revision_of d u < revision_of d t \<longrightarrow> tk_status u \<in> {Succeeded, Superseded})"

definition started :: "db \<Rightarrow> task_row \<Rightarrow> bool" where
  "started d t = (frame t = t \<and> (\<exists>u \<in> set (tasks d). frame u = t \<and> tk_status u \<noteq> Awaiting) \<and> cleared d t)"

definition underway :: "db \<Rightarrow> task_row \<Rightarrow> bool" where
  "underway d t = (\<exists>u \<in> set (tasks d). frame u = t \<and> tk_status u = Running)"

definition exec_inv :: "machine \<Rightarrow> bool" where
  "exec_inv m = (case m of (w, ph, sent) \<Rightarrow> outbox_wf (wk_db w) \<and> distinct (map tk_id sent) \<and> (\<forall>t \<in> set sent. started (wk_db w) t)
     \<and> sorted_wrt (precedes (wk_db w)) sent
     \<and> (case ph of Idle \<Rightarrow> True
        | Holding t \<Rightarrow> started (wk_db w) t \<and> underway (wk_db w) t \<and> tk_id t \<notin> tk_id ` set sent
        | Sending t \<Rightarrow> started (wk_db w) t \<and> underway (wk_db w) t))"

lemma job_keys: "job d t = map_of (operation_keys d) (tk_operation t)"
proof -
  have "map_option (\<lambda>r. (op_profile r, op_desired_revision r)) (find (\<lambda>r. op_id r = i) rs) = map_of (map (\<lambda>r. (op_id r, op_profile r, op_desired_revision r)) rs) i" for i rs
    by (induction rs) auto
  then show ?thesis by (simp add: job_def find_operation_def operation_keys_def)
qed

lemma job_frame: "frame t = frame u \<Longrightarrow> job d t = job d u"
  using frame_fields by (metis job_keys)

lemma lane_frame: "frame t = frame u \<Longrightarrow> same_lane d v t = same_lane d v u \<and> revision_of d t = revision_of d u"
  using frame_fields [of t u] job_frame [of t u d] by (simp add: same_lane_def revision_of_def)

lemma moves_job: "moves d e \<Longrightarrow> job e = job d \<and> same_lane e = same_lane d \<and> revision_of e = revision_of d \<and> precedes e = precedes d"
proof -
  assume "moves d e"
  then have "job e = job d" by (simp add: fun_eq_iff job_keys moves_def)
  then show ?thesis by (simp add: fun_eq_iff precedes_def same_lane_def revision_of_def)
qed

lemma moves_wf:
  assumes m: "moves d e" and wf: "outbox_wf d"
  shows "outbox_wf e"
proof -
  have "map tk_id (map frame (tasks e)) = map tk_id (map frame (tasks d))" "map tk_operation (map frame (tasks e)) = map tk_operation (map frame (tasks d))"
    using moves_frames [OF m] by simp_all
  then have ids: "map tk_id (tasks e) = map tk_id (tasks d)" "map tk_operation (tasks e) = map tk_operation (tasks d)" by (simp_all add: comp_def)
  then have "tk_operation ` set (tasks e) = tk_operation ` set (tasks d)" by (metis set_map)
  then show ?thesis using wf m ids(1) by (simp add: outbox_wf_def moves_def)
qed

lemma settles_done: "settles a b \<Longrightarrow> a \<in> {Succeeded, Superseded} \<Longrightarrow> b = a"
  by (auto simp: settles_def stage_def split: op_status.splits)

lemma settles_started: "settles a b \<Longrightarrow> a \<noteq> Awaiting \<Longrightarrow> b \<noteq> Awaiting"
  by (auto simp: settles_def stage_def)

lemma moves_cleared:
  assumes m: "moves d e" and c: "cleared d t" shows "cleared e t"
  unfolding cleared_def
proof (intro ballI impI)
  fix u
  assume u: "u \<in> set (tasks e)" "same_lane e t u \<and> revision_of e u < revision_of e t"
  then obtain v where v: "v \<in> set (tasks d)" "frame v = frame u" "settles (tk_status v) (tk_status u)" using moves_task [OF m] by blast
  have "same_lane d t v \<and> revision_of d v < revision_of d t" using u(2) lane_frame [OF v(2)] moves_job [OF m] by simp
  then have "tk_status v \<in> {Succeeded, Superseded}" using c v(1) unfolding cleared_def by blast
  then show "tk_status u \<in> {Succeeded, Superseded}" using settles_done [OF v(3)] by simp
qed

lemma moves_started:
  assumes m: "moves d e" and t: "started d t" shows "started e t"
proof -
  obtain f where f: "tasks e = map (\<lambda>t. t\<lparr>tk_status := f t\<rparr>) (tasks d)" "\<forall>t \<in> set (tasks d). settles (tk_status t) (f t)"
    using m by (auto simp: moves_def)
  obtain u where u: "u \<in> set (tasks d)" "frame u = t" "tk_status u \<noteq> Awaiting" using t by (auto simp: started_def)
  have "f u \<noteq> Awaiting" using f(2) u(1,3) settles_started by blast
  then have "\<exists>u \<in> set (tasks e). frame u = t \<and> tk_status u \<noteq> Awaiting" using u(1,2) by (auto simp: f(1) intro!: bexI [of _ u])
  then show ?thesis using t moves_cleared [OF m] by (simp add: started_def)
qed

lemma exec_inv_moves: "exec_inv (w, ph, sent) \<Longrightarrow> moves (wk_db w) (wk_db w') \<Longrightarrow> exec_inv (w', Idle, sent)"
  using moves_wf moves_started moves_job by (auto simp: exec_inv_def)

lemma enqueues_job:
  assumes q: "enqueues d e" and wf: "outbox_wf d"
  shows "tk_operation t \<in> tk_operation ` set (tasks d) \<Longrightarrow> job e t = job d t"
proof -
  assume "tk_operation t \<in> tk_operation ` set (tasks d)"
  then have "tk_operation t \<in> fst ` set (operation_keys d)" using wf by (auto simp: outbox_wf_def)
  then obtain x where x: "map_of (operation_keys d) (tk_operation t) = Some x" by (metis map_of_eq_None_iff not_None_eq)
  obtain rs where "operation_keys e = operation_keys d @ rs" using q by (auto simp: enqueues_def operation_keys_def)
  with x show ?thesis by (simp add: job_keys map_add_def)
qed

lemma enqueued_job:
  assumes q: "enqueues d e" and wf: "outbox_wf e" and u: "u \<in> set (tasks e)" "u \<notin> set (tasks d)"
  shows "tk_status u = Awaiting" and "\<exists>p n. job e u = Some (p, n) \<and> (\<forall>x \<in> set (operation_keys d). fst (snd x) = p \<longrightarrow> snd (snd x) \<le> n)"
proof -
  obtain ts rs where e: "tasks e = tasks d @ ts" "operations e = operations d @ rs"
    and ts: "\<And>t. t \<in> set ts \<Longrightarrow> tk_status t = Awaiting \<and> (\<exists>r \<in> set rs. tk_operation t = op_id r)"
    and rs: "\<And>r q. r \<in> set rs \<Longrightarrow> q \<in> set (operations d) \<Longrightarrow> op_profile q = op_profile r \<Longrightarrow> op_desired_revision q \<le> op_desired_revision r"
    using q unfolding enqueues_def by blast
  have "u \<in> set ts" using u e(1) by simp
  then obtain r where r: "r \<in> set rs" "tk_operation u = op_id r" and st: "tk_status u = Awaiting" using ts [of u] by blast
  show "tk_status u = Awaiting" by (rule st)
  have "(op_id r, op_profile r, op_desired_revision r) \<in> set (operation_keys e)" using r(1) e(2) by (simp add: operation_keys_def)
  moreover have "distinct (map fst (operation_keys e))" using wf by (simp add: outbox_wf_def)
  ultimately have "job e u = Some (op_profile r, op_desired_revision r)" by (simp add: job_keys r(2))
  then show "\<exists>p n. job e u = Some (p, n) \<and> (\<forall>x \<in> set (operation_keys d). fst (snd x) = p \<longrightarrow> snd (snd x) \<le> n)"
    using rs [OF r(1)] by (auto simp: operation_keys_def)
qed

lemma started_operation: "started d t \<Longrightarrow> tk_operation t \<in> tk_operation ` set (tasks d)"
proof -
  assume "started d t"
  then obtain u where "u \<in> set (tasks d)" "frame u = t" by (auto simp: started_def)
  then show ?thesis by (metis frame_simps(2) image_eqI)
qed

lemma enqueues_started:
  assumes q: "enqueues d e" and wf: "outbox_wf d" "outbox_wf e" and t: "started d t"
  shows "started e t"
proof -
  have jt: "job e t = job d t" using enqueues_job [OF q wf(1) started_operation [OF t]] .
  have sub: "set (tasks d) \<subseteq> set (tasks e)" using q by (auto simp: enqueues_def)
  have "cleared e t"
    unfolding cleared_def
  proof (intro ballI impI)
    fix u
    assume u: "u \<in> set (tasks e)" "same_lane e t u \<and> revision_of e u < revision_of e t"
    show "tk_status u \<in> {Succeeded, Superseded}"
    proof (cases "u \<in> set (tasks d)")
      case True
      then have "job e u = job d u" using enqueues_job [OF q wf(1)] by blast
      then have "same_lane d t u \<and> revision_of d u < revision_of d t" using u(2) jt by (simp add: same_lane_def revision_of_def)
      then show ?thesis using t True by (simp add: started_def cleared_def)
    next
      case False
      obtain p n where pn: "job e u = Some (p, n)" "\<forall>x \<in> set (operation_keys d). fst (snd x) = p \<longrightarrow> snd (snd x) \<le> n"
        using enqueued_job(2) [OF q wf(2) u(1) False] by blast
      then obtain m where m: "job d t = Some (p, m)" "n < m" using u(2) jt by (auto simp: same_lane_def revision_of_def split: option.splits)
      then have "(tk_operation t, p, m) \<in> set (operation_keys d)" unfolding job_keys by (blast dest: map_of_SomeD)
      with pn(2) m(2) show ?thesis by fastforce
    qed
  qed
  then show ?thesis using t sub by (auto simp: started_def)
qed

lemma enqueues_sorted:
  assumes q: "enqueues d e" and wf: "outbox_wf d" and s: "\<forall>t \<in> set sent. started d t" and o: "sorted_wrt (precedes d) sent"
  shows "sorted_wrt (precedes e) sent"
proof (rule sorted_wrt_mono_rel [OF _ o])
  fix t u
  assume "t \<in> set sent" "u \<in> set sent" and p: "precedes d t u"
  then have "job e t = job d t" "job e u = job d u" using s enqueues_job [OF q wf started_operation] by blast+
  then show "precedes e t u" using p by (simp add: precedes_def same_lane_def revision_of_def)
qed

lemma exec_inv_enqueues:
  assumes "exec_inv (w, ph, sent)" and "enqueues (wk_db w) (wk_db w')" and "outbox_wf (wk_db w')"
  shows "exec_inv (w', ph, sent)"
proof -
  have "underway (wk_db w) t \<Longrightarrow> underway (wk_db w') t" for t using assms(2) by (auto simp: underway_def enqueues_def)
  then show ?thesis using assms enqueues_started [OF assms(2)] enqueues_sorted [OF assms(2)] by (auto simp: exec_inv_def split: phase.splits)
qed

text \<open>Claiming: the task waited, and its earlier revisions are done with.\<close>

lemma next_taskD:
  assumes "next_task w = Some t"
  obtains r where "t \<in> set (tasks (wk_db w))" "find_operation (wk_db w) (tk_operation t) = Some r" "runnable w t r"
proof -
  obtain x xs where x: "order_by (\<lambda>x. (op_created_at (snd x), op_id (snd x), tk_id (fst x))) (runnable_tasks w) = x # xs" "t = fst x"
    using assms by (auto simp: next_task_def split: list.splits)
  have "x \<in> set (order_by (\<lambda>x. (op_created_at (snd x), op_id (snd x), tk_id (fst x))) (runnable_tasks w))" unfolding x(1) by simp
  then have "x \<in> set (runnable_tasks w)" by simp
  then show thesis using that x(2) by (auto simp: runnable_tasks_def split: option.splits if_splits) metis
qed

lemma runnable_cleared:
  assumes "find_operation (wk_db w) (tk_operation t) = Some r" and "runnable w t r"
  shows "cleared (wk_db w) t"
  unfolding cleared_def
proof (intro ballI impI)
  fix u
  assume u: "u \<in> set (tasks (wk_db w))" "same_lane (wk_db w) t u \<and> revision_of (wk_db w) u < revision_of (wk_db w) t"
  have "job (wk_db w) t = Some (op_profile r, op_desired_revision r)" using assms(1) by (simp add: job_def)
  then obtain q where "find_operation (wk_db w) (tk_operation u) = Some q" "op_profile q = op_profile r" "op_desired_revision q < op_desired_revision r"
    using u(2) by (cases "find_operation (wk_db w) (tk_operation u)") (auto simp: same_lane_def revision_of_def job_def)
  moreover have "\<not> held_back (wk_db w) t r" using assms(2) by (simp add: runnable_def Let_def)
  ultimately show "tk_status u \<in> {Succeeded, Superseded}" using u by (fastforce simp: held_back_def same_lane_def)
qed

lemma claim_taskE:
  assumes "claim_task w = (w', c)" and ids: "distinct (map tk_id (tasks (wk_db w)))"
  obtains (nothing) "moves (wk_db w) (wk_db w')" "c = Nothing"
  | (retired) t where "moves (wk_db w) (wk_db w')" "c = Retired" "t \<in> set (tasks (wk_db w))" "tk_status t = Awaiting"
      "\<forall>u \<in> set (tasks (wk_db w')). tk_id u = tk_id t \<longrightarrow> tk_status u \<noteq> Awaiting"
  | (claimed) t where "moves (wk_db w) (wk_db w')" "c = Claimed t" "t \<in> set (tasks (wk_db w))" "tk_status t = Awaiting" "cleared (wk_db w) t"
      "tasks (wk_db w') = update_where (\<lambda>u. tk_id u = tk_id t \<and> tk_status u = Awaiting) (\<lambda>u. u\<lparr>tk_status := Running\<rparr>) (tasks (wk_db w))"
proof -
  define w1 where "w1 = w\<lparr>wk_db := (wk_db w)\<lparr>account_guard := account_guard (wk_db w) + 1\<rparr>\<rparr>"
  have w1: "moves (wk_db w) (wk_db w1)" "tasks (wk_db w1) = tasks (wk_db w)"
    by (auto simp: w1_def operation_keys_def intro: moves_same)
  have "operation_keys (wk_db w1) = operation_keys (wk_db w)" by (simp add: w1_def operation_keys_def)
  then have lanes: "cleared (wk_db w1) = cleared (wk_db w)"
    by (simp add: fun_eq_iff cleared_def same_lane_def revision_of_def job_keys w1(2))
  show thesis
  proof (cases "if core_upgrade w1 then None else next_task w1")
    case None
    then have "w' = w1 \<and> c = Nothing" using assms(1) by (auto simp: claim_task_def w1_def [symmetric] Let_def split: if_splits)
    then have e: "w' = w1" "c = Nothing" by simp_all
    show thesis by (rule nothing) (use w1(1) e in simp_all)
  next
    case (Some t)
    then have n: "next_task w1 = Some t" "\<not> core_upgrade w1" by (auto split: if_splits)
    obtain r where r: "t \<in> set (tasks (wk_db w1))" "find_operation (wk_db w1) (tk_operation t) = Some r" "runnable w1 t r" by (rule next_taskD [OF n(1)])
    have st: "tk_status t = Awaiting" using r(3) by (simp add: runnable_def Let_def)
    show thesis
    proof (cases "obsolete (wk_db w1) t")
      case True
      then have e: "w' = w1\<lparr>wk_db := refresh_operation (tk_operation t) (set_status (\<lambda>u. tk_id u = tk_id t) Superseded (wk_db w1))\<rparr>" "c = Retired"
        using assms(1) n by (auto simp: claim_task_def w1_def [symmetric] Let_def)
      show thesis
      proof (rule retired [OF _ e(2)])
        have "moves (wk_db w1) (set_status (\<lambda>u. tk_id u = tk_id t) Superseded (wk_db w1))"
          by (rule set_status_moves) (use distinct_keyD [OF ids] r(1) st w1(2) in \<open>force simp: settles_def stage_def\<close>)
        then show "moves (wk_db w) (wk_db w')" using w1(1) refresh_operation_moves moves_trans unfolding e(1) by auto
      qed (use r st w1 e in \<open>auto simp: refresh_operation_outbox set_status_def update_where_def\<close>)
    next
      case False
      then have e: "w' = w1\<lparr>wk_db := set_operation (\<lambda>r. op_id r = tk_operation t) Running
                  (set_status (\<lambda>u. tk_id u = tk_id t \<and> tk_status u = Awaiting) Running (wk_db w1))\<rparr>" "c = Claimed t"
        using assms(1) n by (auto simp: claim_task_def w1_def [symmetric] Let_def)
      have "moves (wk_db w1) (set_status (\<lambda>u. tk_id u = tk_id t \<and> tk_status u = Awaiting) Running (wk_db w1))"
        by (rule set_status_moves) (simp add: settles_def stage_def)
      then have "moves (wk_db w) (wk_db w')" using w1(1) set_operation_moves moves_trans unfolding e(1) by auto
      then show thesis using claimed [OF _ e(2)] r st w1 lanes runnable_cleared [OF r(2,3)] by (simp add: e(1) set_operation_def set_status_def)
    qed
  qed
qed

text \<open>What recording an operation adds.\<close>

lemma list_all2_sources: "list_all2 R xs ys \<Longrightarrow> y \<in> set ys \<Longrightarrow> \<exists>x \<in> set xs. R x y"
  by (induction rule: list_all2_induct) auto

lemma record_operation_appends:
  assumes "record_operation actor_id profile_id previous scoped now d = Inr (e, oid, st)" and "find_profile d profile_id = Some p"
  obtains ts row where "tasks e = tasks d @ ts" "operations e = operations d @ [row]" "profiles e = profiles d"
    "\<forall>t \<in> set ts. tk_status t = Awaiting \<and> tk_operation t = oid \<and> (profile_active d p now \<or> tk_action t = Delete)"
    "op_id row = oid" "op_profile row = profile_id" "op_desired_revision row = pf_desired_revision p"
proof -
  let ?d1 = "ensure_clients profile_id (ensure_identity profile_id d)"
  obtain short k row d3 targets where d3: "d3 = ?d1\<lparr>drawn := k, operations := operations (?d1\<lparr>drawn := k\<rparr>) @ [row]\<rparr>"
    and e: "e = fold (insert_task oid p short) (task_specs d3 p (profile_active d p now) (profile_grants d profile_id) targets) d3"
    and row: "op_id row = oid" "op_profile row = profile_id" "op_desired_revision row = pf_desired_revision p"
    using record_operation_shape [OF assms] by blast
  obtain ts where ts: "tasks e = tasks d3 @ ts" and all2: "list_all2 (\<lambda>s t. \<exists>i. t = make_task oid p short (fst s) (fst (snd s)) (snd (snd s)) i)
      (task_specs d3 p (profile_active d p now) (profile_grants d profile_id) targets) ts"
    unfolding e using fold_insert_task by blast
  have "tasks ?d1 = tasks d" "operations ?d1 = operations d" by simp_all
  moreover have "operations e = operations d3" unfolding e by (rule fold_frame) (simp add: insert_task_def draw_def)
  ultimately have "tasks e = tasks d @ ts" "operations e = operations d @ [row]" by (simp_all add: ts d3)
  moreover have "profiles e = profiles d" using record_operation_outbox [OF assms(1)] by (auto simp: outbox_only_def)
  moreover have "\<forall>t \<in> set ts. tk_status t = Awaiting \<and> tk_operation t = oid \<and> (profile_active d p now \<or> tk_action t = Delete)"
  proof
    fix t
    assume "t \<in> set ts"
    then obtain s i where s: "s \<in> set (task_specs d3 p (profile_active d p now) (profile_grants d profile_id) targets)"
      "t = make_task oid p short (fst s) (fst (snd s)) (snd (snd s)) i" using list_all2_sources [OF all2] by blast
    have "profile_active d p now \<or> fst s = Delete" using s(1) by (auto simp: task_specs_def target_action_def split: if_splits)
    then show "tk_status t = Awaiting \<and> tk_operation t = oid \<and> (profile_active d p now \<or> tk_action t = Delete)"
      by (auto simp: s(2) make_task_def Let_def)
  qed
  ultimately show thesis using that row by blast
qed

lemma bump_keeps_ids: "map pf_id (profiles (Devices.bump_revision i d)) = map pf_id (profiles d)"
  by (simp add: Devices.bump_revision_def map_update_where)

text \<open>A revision above the profile's, with its operation: what a repair, an expiry and the return of an administrator's access record.\<close>

lemma recorded_enqueues:
  assumes wf: "outbox_wf d" and b: "tasks b = tasks d" "operations b = operations d" "map pf_id (profiles b) = map pf_id (profiles d)"
    and later: "\<And>p. p \<in> set (profiles b) \<Longrightarrow> \<exists>q \<in> set (profiles d). pf_id q = pf_id p \<and> pf_desired_revision q \<le> pf_desired_revision p"
    and r: "record_operation a i targets None now b = Inr (e, oid, st)"
    and ids: "distinct (map tk_id (tasks e))" "distinct (map op_id (operations e))"
  shows "enqueues d e \<and> outbox_wf e"
proof -
  obtain p where p: "find_profile b i = Some p" using r by (cases "find_profile b i") (auto simp: record_operation_def)
  obtain ts row where e: "tasks e = tasks b @ ts" "operations e = operations b @ [row]" "profiles e = profiles b"
    and ts: "\<forall>t \<in> set ts. tk_status t = Awaiting \<and> tk_operation t = oid \<and> (profile_active b p now \<or> tk_action t = Delete)"
    and row: "op_id row = oid" "op_profile row = i" "op_desired_revision row = pf_desired_revision p"
    by (rule record_operation_appends [OF r p])
  have pin: "p \<in> set (profiles b)" "pf_id p = i" using find_Some_iff [OF p [unfolded find_profile_def]] by simp_all
  have dist: "distinct (map pf_id (profiles b))" using wf unfolding b(3) by (simp add: outbox_wf_def)
  then have same: "q = p" if "q \<in> set (profiles b)" "pf_id q = i" for q using distinct_keyD that pin by metis
  have ahead: "snd (snd k) \<le> pf_desired_revision q" if k: "k \<in> set (operation_keys d)" "q \<in> set (profiles b)" "pf_id q = fst (snd k)" for k q
  proof -
    obtain u where "u \<in> set (profiles d)" "pf_id u = pf_id q" "pf_desired_revision u \<le> pf_desired_revision q" using later k(2) by blast
    moreover then have "snd (snd k) \<le> pf_desired_revision u" using wf k unfolding outbox_wf_def by metis
    ultimately show ?thesis by simp
  qed
  have "op_desired_revision q \<le> op_desired_revision row" if "q \<in> set (operations d)" "op_profile q = i" for q
    using ahead [of "(op_id q, op_profile q, op_desired_revision q)" p] that pin row(3) by (auto simp: operation_keys_def)
  then have "enqueues d e" using e ts row b by (auto simp: enqueues_def)
  moreover have keys: "operation_keys e = operation_keys d @ [(oid, i, pf_desired_revision p)]" by (simp add: operation_keys_def e(2) b row)
  moreover have "\<forall>k \<in> set (operation_keys e). \<forall>q \<in> set (profiles e). pf_id q = fst (snd k) \<longrightarrow> snd (snd k) \<le> pf_desired_revision q"
    using ahead same by (auto simp: keys e(3))
  moreover have "tk_operation ` set (tasks e) \<subseteq> fst ` set (operation_keys e)" using wf ts by (auto simp: e(1) b keys outbox_wf_def)
  moreover have "map fst (operation_keys e) = map op_id (operations e)" by (simp add: operation_keys_def comp_def)
  ultimately show ?thesis using ids dist by (simp add: outbox_wf_def e(3))
qed

lemma revised_enqueues:
  assumes "outbox_wf d" and "record_operation a i targets None now (Devices.bump_revision i d) = Inr (e, oid, st)"
    and "distinct (map tk_id (tasks e))" "distinct (map op_id (operations e))"
  shows "enqueues d e \<and> outbox_wf e"
  by (rule recorded_enqueues [OF assms(1) _ _ bump_keeps_ids _ assms(2-4)])
     (auto simp: Devices.bump_revision_def update_where_def split: if_splits intro: bexI)

lemma fold_replace_revocation [simp]: "wk_db (fold (replace_revocation i) xs w) = wk_db w"
  by (rule fold_frame) (simp add: replace_revocation_def Let_def)

lemma repair_task_outbox:
  assumes "repair_task actor t i x now w = Inr (w', r)"
  obtains d1 d3 oid st where "d1 = fst (retire_stuck i (tk_node t) (wk_db w))"
    "record_operation (ac_id (actor_account actor)) i (profile_targets (Devices.bump_revision i d1) i) None now (Devices.bump_revision i d1) = Inr (d3, oid, st)"
    "tasks (wk_db w') = tasks d3" "operations (wk_db w') = operations d3" "profiles (wk_db w') = profiles d3"
proof -
  obtain d1 affected where a: "retire_stuck i (tk_node t) (wk_db w) = (d1, affected)" by fastforce
  let ?b = "Devices.bump_revision i d1"
  obtain d3 oid st where "record_operation (ac_id (actor_account actor)) i (profile_targets ?b i) None now ?b = Inr (d3, oid, st)"
    and "wk_db w' = settle_accounts (set_deletion_operation i oid d3)"
    using assms by (auto simp: repair_task_def a guard_def Let_def res_bind_Inr_iff split: if_splits)
  moreover have "tasks (set_deletion_operation i oid d3) = tasks d3" "operations (set_deletion_operation i oid d3) = operations d3"
    "profiles (set_deletion_operation i oid d3) = profiles d3" by (simp_all add: set_deletion_operation_def)
  ultimately show thesis using that [of d1 d3 oid st] a by simp
qed

section \<open>The invariant of the machine\<close>

lemma exec_inv_claim:
  assumes inv: "exec_inv (w, Idle, sent)" and c: "claim_task w = (w', c)"
  shows "exec_inv (w', phase_of c, sent)"
proof -
  have ids: "distinct (map tk_id (tasks (wk_db w)))" using inv by (simp add: exec_inv_def outbox_wf_def)
  from c ids show ?thesis
  proof (cases rule: claim_taskE)
    case nothing
    then show ?thesis using exec_inv_moves [OF inv] by (simp add: phase_of_def)
  next
    case (retired t)
    then show ?thesis using exec_inv_moves [OF inv] by (simp add: phase_of_def)
  next
    case (claimed t)
    have idle: "exec_inv (w', Idle, sent)" by (rule exec_inv_moves [OF inv claimed(1)])
    have row: "t\<lparr>tk_status := Running\<rparr> \<in> set (tasks (wk_db w'))"
      using claimed(3,4) unfolding claimed(6) update_where_def by (force intro: image_eqI [of _ _ t])
    have "cleared (wk_db w') (frame t)"
      using moves_cleared [OF claimed(1,5)] lane_frame [of "frame t" t "wk_db w'"] by (auto simp: cleared_def same_lane_def job_def revision_of_def)
    then have "started (wk_db w') (frame t)" using row by (auto simp: started_def intro!: bexI [of _ "t\<lparr>tk_status := Running\<rparr>"])
    moreover have "underway (wk_db w') (frame t)" using row by (auto simp: underway_def intro!: bexI [of _ "t\<lparr>tk_status := Running\<rparr>"])
    moreover have "tk_id t \<notin> tk_id ` set sent"
    proof
      assume "tk_id t \<in> tk_id ` set sent"
      then obtain v where v: "v \<in> set sent" "tk_id v = tk_id t" by auto
      then have "started (wk_db w) v" using inv by (simp add: exec_inv_def)
      then obtain u where u: "u \<in> set (tasks (wk_db w))" "frame u = v" "tk_status u \<noteq> Awaiting" by (auto simp: started_def)
      then have "tk_id u = tk_id t" using v(2) by (metis frame_simps(1))
      then have "u = t" using distinct_keyD [OF ids] u(1) claimed(3) by metis
      then show False using u(3) claimed(4) by simp
    qed
    ultimately show ?thesis using idle by (simp add: exec_inv_def claimed(2) phase_of_def)
  qed
qed

text \<open>Nothing sent before is of a later revision: such a revision could only start once the present one was done with,
  and it is running.\<close>

lemma exec_inv_send:
  assumes inv: "exec_inv (w, Holding t, sent)"
  shows "exec_inv (w, Sending t, sent @ [t])"
proof -
  let ?d = "wk_db w"
  obtain u where u: "u \<in> set (tasks ?d)" "frame u = t" "tk_status u = Running" using inv by (auto simp: exec_inv_def underway_def)
  then have ft: "frame t = frame u" by auto
  have "precedes ?d v t" if "v \<in> set sent" for v
  proof (rule ccontr)
    assume "\<not> precedes ?d v t"
    then have "same_lane ?d v t" "revision_of ?d t < revision_of ?d v" by (auto simp: precedes_def)
    then have "same_lane ?d v u \<and> revision_of ?d u < revision_of ?d v" using lane_frame [OF ft] by simp
    moreover have "cleared ?d v" using inv that by (simp add: exec_inv_def started_def)
    ultimately have "tk_status u \<in> {Succeeded, Superseded}" using u(1) by (simp add: cleared_def)
    with u(3) show False by simp
  qed
  then show ?thesis using inv by (auto simp: exec_inv_def sorted_wrt_append)
qed

lemma reconcile_completed_moves: "moves (wk_db w) (wk_db (fst (reconcile_completed lookup w)))"
proof -
  have "moves (wk_db (fst acc)) (wk_db (fst (fold (reconcile_task lookup) ts acc)))" for ts acc
  proof (induction ts arbitrary: acc)
    case (Cons t ts)
    show ?case unfolding fold_Cons comp_def by (rule moves_trans [OF reconcile_task_moves Cons.IH])
  qed (simp add: moves_same)
  from this [of "(w, 0)"] show ?thesis by (simp add: reconcile_completed_def)
qed

lemma exec_inv_repair:
  assumes inv: "exec_inv (w, Idle, sent)" and r: "repair_task actor t i x now w = Inr (w', y)"
    and ids: "distinct (map tk_id (tasks (wk_db w')))" "distinct (map op_id (operations (wk_db w')))"
  shows "exec_inv (w', Idle, sent)"
proof -
  obtain d1 d3 oid st where d1: "d1 = fst (retire_stuck i (tk_node t) (wk_db w))"
    and d3: "record_operation (ac_id (actor_account actor)) i (profile_targets (Devices.bump_revision i d1) i) None now (Devices.bump_revision i d1) = Inr (d3, oid, st)"
    and w': "tasks (wk_db w') = tasks d3" "operations (wk_db w') = operations d3" "profiles (wk_db w') = profiles d3"
    by (rule repair_task_outbox [OF r])
  have inv1: "exec_inv (w\<lparr>wk_db := d1\<rparr>, Idle, sent)" using exec_inv_moves [OF inv, of "w\<lparr>wk_db := d1\<rparr>"] retire_stuck_moves by (simp add: d1)
  then have "outbox_wf d1" by (simp add: exec_inv_def)
  from revised_enqueues [OF this d3] have "enqueues d1 d3 \<and> outbox_wf d3" using ids w' by simp
  then have "enqueues d1 (wk_db w')" "outbox_wf (wk_db w')" by (auto simp: enqueues_def outbox_wf_def operation_keys_def w')
  then show ?thesis using exec_inv_enqueues [OF inv1] by simp
qed

lemma resolve_blocked_cases:
  assumes "resolve_blocked resolve actor task_id now w = Inr (w', y)"
  obtains "w' = w" | t i x where "repair_task actor t i x now w = Inr (w', y)"
  using assms by (auto simp: resolve_blocked_def guard_def res_bind_Inr_iff split: option.splits if_splits)

lemma exec_inv_step: "exec_step m m' \<Longrightarrow> exec_inv m \<Longrightarrow> exec_inv m'"
proof (induction rule: exec_step.induct)
  case (resolved resolve actor i now w w' r sent)
  from resolved(1) show ?case using resolved by (cases rule: resolve_blocked_cases) (auto intro: exec_inv_repair)
qed (auto intro: exec_inv_claim exec_inv_send exec_inv_enqueues exec_inv_moves finish_task_moves recover_moves reconcile_completed_moves)

lemma exec_inv_reach:
  assumes "exec_step\<^sup>*\<^sup>* m m'" and "exec_inv m"
  shows "exec_inv m'"
  using assms by (induction rule: rtranclp_induct) (auto intro: exec_inv_step)

section \<open>Progress\<close>

definition waiting :: "worker \<Rightarrow> nat" where
  "waiting w = length (filter (\<lambda>t. tk_status t = Awaiting) (tasks (wk_db w)))"

lemma filter_map_length:
  assumes "\<And>x. x \<in> set xs \<Longrightarrow> P (g x) \<Longrightarrow> Q x"
  shows "length (filter P (map g xs)) \<le> length (filter Q xs)"
    and "x \<in> set xs \<Longrightarrow> Q x \<Longrightarrow> \<not> P (g x) \<Longrightarrow> length (filter P (map g xs)) < length (filter Q xs)"
proof -
  have *: "(\<And>y. y \<in> set ys \<Longrightarrow> P (g y) \<Longrightarrow> Q y) \<Longrightarrow> length (filter P (map g ys)) \<le> length (filter Q ys)" for ys
    by (induction ys) (auto intro: le_SucI)
  show "length (filter P (map g xs)) \<le> length (filter Q xs)" using * assms .
  assume "x \<in> set xs" and q: "Q x" "\<not> P (g x)"
  then obtain ys zs where xs: "xs = ys @ x # zs" by (meson split_list)
  have "length (filter P (map g ys)) \<le> length (filter Q ys)" "length (filter P (map g zs)) \<le> length (filter Q zs)"
    using * assms by (auto simp: xs)
  then show "length (filter P (map g xs)) < length (filter Q xs)" using q by (simp add: xs)
qed

lemma moves_waiting:
  assumes m: "moves (wk_db w) (wk_db w')"
  shows "waiting w' \<le> waiting w"
    and "t \<in> set (tasks (wk_db w)) \<Longrightarrow> tk_status t = Awaiting \<Longrightarrow> (\<forall>u \<in> set (tasks (wk_db w')). tk_id u = tk_id t \<longrightarrow> tk_status u \<noteq> Awaiting)
      \<Longrightarrow> waiting w' < waiting w"
proof -
  obtain f where f: "tasks (wk_db w') = map (\<lambda>t. t\<lparr>tk_status := f t\<rparr>) (tasks (wk_db w))" "\<forall>t \<in> set (tasks (wk_db w)). settles (tk_status t) (f t)"
    using m by (auto simp: moves_def)
  have older: "tk_status (t\<lparr>tk_status := f t\<rparr>) = Awaiting \<Longrightarrow> tk_status t = Awaiting" if "t \<in> set (tasks (wk_db w))" for t
    using f(2) that settles_started by fastforce
  show "waiting w' \<le> waiting w" unfolding waiting_def f(1) by (rule filter_map_length(1)) (rule older)
  assume t: "t \<in> set (tasks (wk_db w))" "tk_status t = Awaiting" and "\<forall>u \<in> set (tasks (wk_db w')). tk_id u = tk_id t \<longrightarrow> tk_status u \<noteq> Awaiting"
  then have ft: "f t \<noteq> Awaiting" by (auto simp: f(1))
  show "waiting w' < waiting w" unfolding waiting_def f(1) by (rule filter_map_length(2) [where x = t]) (use older t ft in simp_all)
qed

lemma run_one_moves:
  assumes "run_one execute now w = (w', b)" and ids: "distinct (map tk_id (tasks (wk_db w)))"
  shows "moves (wk_db w) (wk_db w')" and "b \<Longrightarrow> waiting w' < waiting w"
proof -
  obtain w1 c where c: "claim_task w = (w1, c)" by fastforce
  from c ids have "moves (wk_db w) (wk_db w') \<and> (b \<longrightarrow> waiting w' < waiting w)"
  proof (cases rule: claim_taskE)
    case nothing
    then show ?thesis using assms(1) by (simp add: run_one_def c)
  next
    case (retired t)
    then show ?thesis using assms(1) moves_waiting(2) [OF retired(1,3,4,5)] by (simp add: run_one_def c)
  next
    case (claimed t)
    have w': "w' = finish_task t (if intent_expired now t then Answered False None None else execute (tk_id t) (tk_intent t)) w1"
      using assms(1) by (simp add: run_one_def c claimed(2))
    have "\<forall>u \<in> set (tasks (wk_db w1)). tk_id u = tk_id t \<longrightarrow> tk_status u \<noteq> Awaiting"
      unfolding claimed(6) by (auto simp: update_where_def)
    from moves_waiting(2) [OF claimed(1,3,4) this] show ?thesis
      using moves_waiting(1) [OF finish_task_moves] moves_trans [OF claimed(1) finish_task_moves] unfolding w' by (metis order.strict_trans1)
  qed
  then show "moves (wk_db w) (wk_db w')" and "b \<Longrightarrow> waiting w' < waiting w" by simp_all
qed

lemma claim_nothing: "claim_task w = (w', Nothing) \<Longrightarrow> core_upgrade w' \<or> next_task w' = None"
  by (auto simp: claim_task_def Let_def split: if_splits option.splits)

lemma run_one_stops: "run_one execute now w = (w', False) \<Longrightarrow> core_upgrade w' \<or> next_task w' = None"
  by (auto simp: run_one_def split: prod.splits claim.splits dest: claim_nothing)

text \<open>\<open>Worker.drain\<close> when only the executor has work and no stop is asked for; the clock gives the time of each pass.\<close>

partial_function (option) drain :: "(string \<Rightarrow> intent \<Rightarrow> outcome) \<Rightarrow> (nat \<Rightarrow> instant) \<Rightarrow> nat \<Rightarrow> worker \<Rightarrow> worker option" where
  "drain execute clock n w = (case run_one execute (clock n) w of (w', b) \<Rightarrow> if b then drain execute clock (Suc n) w' else Some w')"

lemma drain_moves:
  assumes "distinct (map tk_id (tasks (wk_db w)))"
  shows "\<exists>w'. drain execute clock n w = Some w' \<and> moves (wk_db w) (wk_db w') \<and> (core_upgrade w' \<or> next_task w' = None)"
  using assms
proof (induction "waiting w" arbitrary: w n rule: less_induct)
  case less
  obtain w1 b where r: "run_one execute (clock n) w = (w1, b)" by fastforce
  note m = run_one_moves [OF r less.prems]
  have "map tk_id (tasks (wk_db w1)) = map tk_id (tasks (wk_db w))"
    using moves_frames [OF m(1), THEN arg_cong, of "map tk_id"] by (simp add: comp_def)
  then have "b \<Longrightarrow> \<exists>w'. drain execute clock (Suc n) w1 = Some w' \<and> moves (wk_db w1) (wk_db w') \<and> (core_upgrade w' \<or> next_task w' = None)"
    using less.hyps [OF m(2)] less.prems by simp
  moreover have "drain execute clock n w = (if b then drain execute clock (Suc n) w1 else Some w1)" by (subst drain.simps) (simp add: r)
  ultimately show ?case
    using m(1) r moves_trans run_one_stops [of execute "clock n" w w1] by (cases b) auto
qed

lemma order_by_empty: "order_by f xs = [] \<longleftrightarrow> xs = []"
  by (metis set_empty set_order_by)

lemma nothing_runnable:
  assumes "next_task w = None" and "t \<in> set (tasks (wk_db w))" and "find_operation (wk_db w) (tk_operation t) = Some r"
  shows "\<not> runnable w t r"
proof
  assume "runnable w t r"
  then have "(t, r) \<in> set (runnable_tasks w)" using assms(2,3) by (auto simp: runnable_tasks_def intro!: bexI [of _ t])
  moreover have "runnable_tasks w = []" using assms(1) by (auto simp: next_task_def order_by_empty split: list.splits)
  ultimately show False by simp
qed

text \<open>C1. Whatever happens, in whatever order: tasks are claimed, sent and finished, the worker crashes and recovers at any
  point, blocked tasks are confirmed or repaired, and other services queue more work at any time. No task is ever sent to
  the driver twice, and on each node and protocol the revisions of a profile are sent in order.\<close>

theorem dispatched_once_in_order:
  assumes "exec_step\<^sup>*\<^sup>* (w, Idle, []) (w', ph, sent)" and "outbox_wf (wk_db w)"
  shows "distinct (map tk_id sent) \<and> sorted_wrt (precedes (wk_db w')) sent"
proof -
  have "exec_inv (w, Idle, [])" using assms(2) by (simp add: exec_inv_def)
  then have "exec_inv (w', ph, sent)" by (rule exec_inv_reach [OF assms(1)])
  then show ?thesis by (simp add: exec_inv_def)
qed

text \<open>C9. Draining the outbox ends, whatever the driver answers and however the clock moves. It only advances statuses, and
  it stops when a core upgrade holds the gate or no task can run: every task that still waits is fenced by its node's
  settings, jobs or unfinished tasks, or by an earlier revision.\<close>

theorem drain_ends:
  assumes "distinct (map tk_id (tasks (wk_db w)))"
  shows "\<exists>w'. drain execute clock n w = Some w' \<and> moves (wk_db w) (wk_db w')
     \<and> (core_upgrade w' \<or> (\<forall>t r. t \<in> set (tasks (wk_db w')) \<and> find_operation (wk_db w') (tk_operation t) = Some r \<longrightarrow> \<not> runnable w' t r))"
proof -
  obtain w' where w': "drain execute clock n w = Some w'" "moves (wk_db w) (wk_db w')" "core_upgrade w' \<or> next_task w' = None"
    using drain_moves [OF assms] by blast
  then show ?thesis using nothing_runnable by blast
qed

section \<open>Expiry\<close>





















text \<open>What happens later without touching a profile: statuses change, and operations of other profiles are added.\<close>

definition untouched :: "string \<Rightarrow> db \<Rightarrow> db \<Rightarrow> bool" where
  "untouched i d e = ((\<exists>f ts rs. tasks e = map (\<lambda>t. t\<lparr>tk_status := f t\<rparr>) (tasks d) @ ts \<and> operation_keys e = operation_keys d @ rs
       \<and> (\<forall>t \<in> set ts. tk_operation t \<in> fst ` set rs) \<and> (\<forall>k \<in> set rs. fst (snd k) \<noteq> i))
     \<and> distinct (map op_id (operations e)) \<and> (\<forall>p. pf_id p = i \<longrightarrow> p \<in> set (profiles e) \<longleftrightarrow> p \<in> set (profiles d)))"

lemma untouched_moves: "moves d e \<Longrightarrow> distinct (map op_id (operations d)) \<Longrightarrow> untouched i d e"
proof -
  assume m: "moves d e" and dist: "distinct (map op_id (operations d))"
  have "map op_id (operations x) = map fst (operation_keys x)" for x by (simp add: operation_keys_def comp_def)
  with m dist have "distinct (map op_id (operations e))" by (simp add: moves_def)
  moreover obtain f where "tasks e = map (\<lambda>t. t\<lparr>tk_status := f t\<rparr>) (tasks d)" using m by (auto simp: moves_def)
  ultimately show ?thesis using m unfolding untouched_def moves_def by (intro conjI exI [of _ f] exI [of _ "[]"]) simp_all
qed



















section \<open>Witnesses\<close>

definition executor_db :: db where
  "executor_db = (fst (projr recorded))\<lparr>profiles := map (\<lambda>p. p\<lparr>pf_expires_at := Some 100\<rparr>) (profiles operation_db)\<rparr>"

definition executor_worker :: worker where
  "executor_worker = \<lparr>wk_db = executor_db, wk_update_kinds = [], wk_settings_tasks = [], wk_node_jobs = [], wk_revocations = [],
     wk_revoking = [], wk_repairs = [], wk_results = [], wk_inspections = []\<rparr>"


lemma executor_db_wf: "outbox_wf executor_db"
  by code_simp

theorem dispatched_once_in_order_witness:
  "\<exists>w ph sent. exec_step\<^sup>*\<^sup>* (executor_worker, Idle, []) (w, ph, sent) \<and> sent \<noteq> [] \<and> distinct (map tk_id sent) \<and> sorted_wrt (precedes (wk_db w)) sent"
proof -
  obtain w c where c: "claim_task executor_worker = (w, c)" by fastforce
  have "case snd (claim_task executor_worker) of Claimed t \<Rightarrow> \<not> intent_expired 5 (frame t) | _ \<Rightarrow> False" by code_simp
  then obtain t where t: "c = Claimed t" "\<not> intent_expired 5 (frame t)" by (auto simp: c split: claim.splits)
  have "exec_step (executor_worker, Idle, []) (w, Holding (frame t), [])" using exec_step.claimed [OF c] by (simp add: t(1) phase_of_def)
  moreover have "exec_step (w, Holding (frame t), []) (w, Sending (frame t), [] @ [frame t])" by (rule exec_step.sent [OF t(2)])
  ultimately have run: "exec_step\<^sup>*\<^sup>* (executor_worker, Idle, []) (w, Sending (frame t), [frame t])" by simp
  from dispatched_once_in_order [OF this] executor_db_wf have "distinct (map tk_id [frame t]) \<and> sorted_wrt (precedes (wk_db w)) [frame t]"
    by (simp add: executor_worker_def)
  with run show ?thesis by blast
qed

theorem drain_ends_witness:
  "\<exists>w. drain (\<lambda>_ _. Answered True None None) (\<lambda>_. 5) 0 executor_worker = Some w \<and> moves executor_db (wk_db w)"
proof -
  have "distinct (map tk_id (tasks (wk_db executor_worker)))" by code_simp
  from drain_ends [OF this, of "\<lambda>_ _. Answered True None None" "\<lambda>_. 5" 0] show ?thesis by (auto simp: executor_worker_def)
qed


end
