(* ===== verification/Spec2Isabelle.thy ===== *)
theory Spec2Isabelle
  imports Release_Versions Account_Commands Workstation_Pairings Device_Commands Connection_Limits Access_Expiry Executor
begin

text \<open>
  Verification library of the Node Plane controller (\<^verbatim>\<open>src/app\<close>): the services that decide who may use which VPN node
  and carry those decisions to the nodes.

  \<^bold>\<open>The program.\<close> The controller keeps its state in PostgreSQL. People act through accounts: an account has roles, a
  login, a password, sessions, bearer credentials and workstation keys. An account owns a profile, a profile has devices,
  and policies, tariffs, quotas and grants say what the profile may use. A command changes the desired state of a profile
  inside one transaction, raises the profile's revision and records an operation with a task per peer and node in the
  outbox. A single worker carries the tasks to the nodes through a driver; limits are delivered to the nodes apart from
  it, as snapshots that the agents enforce.

  \<^bold>\<open>How the code is modelled.\<close> A table is a list of rows and a row is a record (\<^verbatim>\<open>Schema\<close>, from
  \<^verbatim>\<open>db/migration_revisions\<close>). The services of access share \<^typ>\<open>db\<close>, those of signing in share \<^typ>\<open>auth_db\<close>; commands
  that touch both work on a pair of them. A transaction is a function to \<open>error + result\<close>, so a raise is a rollback; a
  function that commits although it refuses returns the state beside the error. Times are microseconds since 1970 in UTC
  as \<open>int\<close>, Python integers are \<open>int\<close>, strings are lists of characters up to 255. Random identifiers are drawn from a
  stream the database carries (\<open>rng\<close> and \<open>drawn\<close>). Primary keys and unique constraints are invariants, not axioms.

  \<^bold>\<open>Theories and sources\<close> (files under \<^verbatim>\<open>src/app/backend\<close> unless said otherwise).
  \<^item> \<^verbatim>\<open>Prelude\<close>: results, Python's string operations, list lemmas. \<^verbatim>\<open>Schema\<close>: rows, errors, tables. \<^verbatim>\<open>Calendar\<close>:
    the calendar of \<^verbatim>\<open>datetime\<close>, with the round trip of dates and day numbers.
  \<^item> \<^verbatim>\<open>Authorization\<close> (\<^verbatim>\<open>authorization.py\<close>, \<^verbatim>\<open>roles.py\<close>, actors of \<^verbatim>\<open>identity_repository.py\<close>): permissions, access to a profile;
    the SQL test of a permission agrees with the Python one.
  \<^item> \<^verbatim>\<open>Logins\<close>, \<^verbatim>\<open>Credentials\<close>, \<^verbatim>\<open>Sessions\<close>, \<^verbatim>\<open>Client_Keys\<close>, \<^verbatim>\<open>Workstation_Pairings\<close> (the files of those names): ways to
    sign in. Logins stay with their holder, an exchanged refresh token ends its session when it comes back before the next
    exchange, an ended session stays ended over all sequences
    of operations, failed sign-ins are limited, a signed request is accepted once, a pairing is decided once.
  \<^item> \<^verbatim>\<open>Accounts\<close>, \<^verbatim>\<open>Account_Commands\<close> (\<^verbatim>\<open>accounts.py\<close>), \<^verbatim>\<open>Account_Deletions\<close> (\<^verbatim>\<open>account_deletions.py\<close>): changing an account
    leaves an owner; a deletion locks the account out at once and completes when its profiles are removed.
  \<^item> \<^verbatim>\<open>Vpn_Policies\<close>, \<^verbatim>\<open>Localized\<close>, \<^verbatim>\<open>Grant_Policies\<close>, \<^verbatim>\<open>Tariffs\<close>, \<^verbatim>\<open>Renewals\<close>, \<^verbatim>\<open>Quotas\<close> (the files of those names): values
    in layers, stored values of the right type, grants equal to the effective policy, requests decided once, periods that
    contain the present (outside the repeated or skipped time after a change of the clocks), suspension exactly at the
    limit, and that the worker passes over a quota which only a tariff sets.
  \<^item> \<^verbatim>\<open>Operations\<close> (\<^verbatim>\<open>operations.py\<close>, \<^verbatim>\<open>device_credentials.py\<close>), \<^verbatim>\<open>Devices\<close> (\<^verbatim>\<open>devices.py\<close>), \<^verbatim>\<open>Device_Commands\<close>,
    \<^verbatim>\<open>Profiles\<close> (\<^verbatim>\<open>profiles.py\<close>, \<^verbatim>\<open>service_profiles.py\<close>), \<^verbatim>\<open>Profile_Commands\<close>, \<^verbatim>\<open>Service_Notifications\<close>,
    \<^verbatim>\<open>Maintenance_Gate\<close>: the desired state and its outbox. An operation queues exactly the tasks its targets need, each once,
    commands repeat safely under their key and are fenced by the revision, lists page through everything once.
  \<^item> \<^verbatim>\<open>Executor\<close> (\<^verbatim>\<open>IntentExecutor\<close> of \<^verbatim>\<open>executor.py\<close>): the worker as a machine whose steps are claims, sends, outcomes,
    crashes, confirmations, repairs and new work; no task is sent twice, revisions are sent in order, draining ends, and
    the expiry pass revokes what has expired, once, and leaves administrators without a term.
  \<^item> \<^verbatim>\<open>Node_Snapshots\<close>, \<^verbatim>\<open>Speed_Limits\<close>, \<^verbatim>\<open>Connection_Limits\<close> (the files of those names): the limits of a node, their
    delivery to its agent and what comes back. The agent's rule for accepting a snapshot is modelled too
    (\<^verbatim>\<open>rust/node-agent\<close>). Two passes that the agent answers bring the resolved limits into force, unless it holds, by chance,
    the revision the controller uses next; after a restore of the controller that can happen, and such an agent keeps its
    old limits.
  \<^item> \<^verbatim>\<open>Access_Expiry\<close>, \<^verbatim>\<open>Release_Versions\<close> (\<^verbatim>\<open>src/app/services\<close>): typed expiries, and versions with the order of releases.

  \<^bold>\<open>Interfaces.\<close> \<^verbatim>\<open>three_way\<close> (\<^verbatim>\<open>Release_Versions\<close>) is the contract of a comparison by keys, interpreted on the versions'
  comparison; \<^verbatim>\<open>listing\<close> (\<^verbatim>\<open>Profiles\<close>) is that of a list read page by page, interpreted on the profile lists;
  \<^verbatim>\<open>snapshot_delivery\<close> (\<^verbatim>\<open>Node_Snapshots\<close>) is that of a snapshot table kept current on agents, interpreted on the tables of
  speed and connection limits.

  \<^bold>\<open>Termination.\<close> The searches that draw random names until one is free are \<^verbatim>\<open>partial_function (option)\<close>; they are shown
  to end when the stream does not repeat. Draining the outbox is one too, and is shown to end always, since every pass
  that does something leaves fewer tasks waiting. Following cursors takes a bound, and one more page than the list has
  rows is shown to be enough. The date searches have termination proofs.

  \<^bold>\<open>Parameters.\<close> Code outside the repository is an argument: digests and password hashes, Ed25519, the driver and the
  agents behind it, time zones, Unicode tables, the cursor codec, \<open>uuid5\<close>, and the ISO format of times where its text is
  stored. What is assumed of them is a hypothesis of the theorems that need it, with an instance in the witness.

  \<^bold>\<open>Not modelled.\<close> HTTP routing and the Telegram client, which translate requests to the services above; the gRPC
  transport and generated messages; services that are sequences of remote commands (installation, updates, removal,
  backups, enrollment, relays, the web cabinet) and those that read live observations (traffic, metrics, alerts but for
  connection limits, overviews), whose content is the driver's answers; passkeys, confirmations, Telegram sign-in, merges,
  invites, access requests and registrations; command lines, migrations and the connection layer; the Rust programs but for how
  the agent accepts a snapshot of limits. Of
  the worker, the daemon loop, its file lock and the services beside the executor are left out, so the machine of
  \<^verbatim>\<open>Executor\<close> lets them append to the outbox at any time. A concurrent writer inside a transaction is not modelled: the
  services serialize on the account guard row.
\<close>

end
